(* ===== verification/Prelude.thy ===== *)
theory Prelude
  imports Main "HOL-Library.Word" "HOL-Library.Multiset"
begin

text \<open>
  Shared vocabulary of the development: machine types, the outcome of a Go call (value, error,
  panic, block forever), Go's \<open>copy\<close> and slicing, the \<open>encoding/binary\<close> and \<open>strconv\<close>
  functions the repository uses, and the list and map lemmas the components share.
\<close>

unbundle bit_operations_syntax

named_theorems go_simps \<open>unfolding rules for the Go library functions\<close>
named_theorems codec_simps \<open>round trips of the binary encodings\<close>

type_synonym byte = "8 word"
type_synonym bytes = "8 word list"
type_synonym u32 = "32 word"
type_synonym u64 = "64 word"

section \<open>Outcomes of a call\<close>

text \<open>
  A Go call returns a value, returns an error, panics (which ends the process when it happens in a
  goroutine nobody recovers), or blocks for ever (a receive from a nil channel, a mutex that the
  caller itself holds).
\<close>

datatype panic = IndexOutOfRange | SliceOutOfRange | NilDereference | CloseOfClosedChannel
  | FailedTypeAssertion | DivideByZero | ExplicitPanic

datatype ('e, 'a) outcome = Ok 'a | Err 'e | Panic panic | Hang

definition is_Ok :: "('e, 'a) outcome \<Rightarrow> bool" where
  "is_Ok r = (case r of Ok _ \<Rightarrow> True | _ \<Rightarrow> False)"

fun obind :: "('e, 'a) outcome \<Rightarrow> ('a \<Rightarrow> ('e, 'b) outcome) \<Rightarrow> ('e, 'b) outcome" where
  "obind (Ok a) f = f a"
| "obind (Err e) f = Err e"
| "obind (Panic p) f = Panic p"
| "obind Hang f = Hang"

text \<open>A loop over a slice whose body may fail: the first failure ends it.\<close>

fun omap :: "('a \<Rightarrow> ('e, 'b) outcome) \<Rightarrow> 'a list \<Rightarrow> ('e, 'b list) outcome" where
  "omap f [] = Ok []"
| "omap f (x # xs) = obind (f x) (\<lambda>y. obind (omap f xs) (\<lambda>ys. Ok (y # ys)))"

fun ofold :: "('a \<Rightarrow> 's \<Rightarrow> ('e, 's) outcome) \<Rightarrow> 'a list \<Rightarrow> 's \<Rightarrow> ('e, 's) outcome" where
  "ofold f [] s = Ok s"
| "ofold f (x # xs) s = obind (f x s) (ofold f xs)"

text \<open>
  A step of a handler that owns the state \<open>s\<close>: a failing call ends the handler with the state as
  it is, a successful one continues.
\<close>

definition sbind :: "'s \<Rightarrow> ('e, 'a) outcome \<Rightarrow> ('a \<Rightarrow> 's \<times> ('e, 'b) outcome) \<Rightarrow> 's \<times> ('e, 'b) outcome"
  where
  "sbind s r f =
     (case r of Ok a \<Rightarrow> f a | Err e \<Rightarrow> (s, Err e) | Panic p \<Rightarrow> (s, Panic p) | Hang \<Rightarrow> (s, Hang))"

section \<open>Slices\<close>

text \<open>
  \<open>copy(dst, src)\<close>: the first \<open>min (len dst) (len src)\<close> elements of \<open>dst\<close> are overwritten.
\<close>

definition go_copy :: "'a list \<Rightarrow> 'a list \<Rightarrow> 'a list" where
  "go_copy dst src = take (length dst) src @ drop (length src) dst"

text \<open>\<open>copy(dst[off:], src)\<close> for an \<open>off\<close> within the slice.\<close>

definition go_copy_at :: "nat \<Rightarrow> 'a list \<Rightarrow> 'a list \<Rightarrow> 'a list" where
  "go_copy_at off dst src = take off dst @ go_copy (drop off dst) src"

text \<open>\<open>s[lo:hi]\<close>.\<close>

definition slice :: "nat \<Rightarrow> nat \<Rightarrow> 'a list \<Rightarrow> 'a list" where
  "slice lo hi xs = take (hi - lo) (drop lo xs)"

text \<open>
  A loop that writes \<open>f x\<close> into slot \<open>i\<close> for every pair \<open>(i, x)\<close> whose \<open>x\<close> passes the test.
\<close>

definition write_slots :: "('b \<Rightarrow> bool) \<Rightarrow> ('b \<Rightarrow> 'a) \<Rightarrow> (nat \<times> 'b) list \<Rightarrow> 'a list \<Rightarrow> 'a list" where
  "write_slots Q f xs l = fold (\<lambda>(i, x) l. if Q x then l[i := f x] else l) xs l"

section \<open>encoding/binary, big endian\<close>

definition PutUint32 :: "u32 \<Rightarrow> bytes" where
  "PutUint32 v = [ucast (drop_bit 24 v), ucast (drop_bit 16 v), ucast (drop_bit 8 v), ucast v]"

fun Uint32 :: "bytes \<Rightarrow> u32" where
  "Uint32 (b0 # b1 # b2 # b3 # _) =
     ucast b3 OR push_bit 8 (ucast b2) OR push_bit 16 (ucast b1) OR push_bit 24 (ucast b0)"
| "Uint32 _ = 0"

fun Uint64 :: "bytes \<Rightarrow> u64" where
  "Uint64 (b0 # b1 # b2 # b3 # b4 # b5 # b6 # b7 # _) =
     ucast b7 OR push_bit 8 (ucast b6) OR push_bit 16 (ucast b5) OR push_bit 24 (ucast b4) OR
     push_bit 32 (ucast b3) OR push_bit 40 (ucast b2) OR push_bit 48 (ucast b1) OR
     push_bit 56 (ucast b0)"
| "Uint64 _ = 0"

section \<open>strconv and fmt: decimal numbers\<close>

definition digit_char :: "nat \<Rightarrow> char" where
  "digit_char d = char_of (48 + d)"

definition digit_of :: "char \<Rightarrow> nat option" where
  "digit_of c = (let n = of_char c :: nat in if 48 \<le> n \<and> n \<le> 57 then Some (n - 48) else None)"

text \<open>\<open>fmt.Sprintf("%d", n)\<close> for an unsigned \<open>n\<close>.\<close>

fun print_nat :: "nat \<Rightarrow> string" where
  "print_nat n = (if n < 10 then [digit_char n] else print_nat (n div 10) @ [digit_char (n mod 10)])"

declare print_nat.simps [simp del]

fun parse_digits :: "nat \<Rightarrow> string \<Rightarrow> nat option" where
  "parse_digits acc [] = Some acc"
| "parse_digits acc (c # cs) =
     (case digit_of c of None \<Rightarrow> None | Some d \<Rightarrow> parse_digits (acc * 10 + d) cs)"

text \<open>
  \<open>strconv.ParseUint(s, 10, 32)\<close>: digits only, at least one, and the value within 32 bits.
\<close>

definition ParseUint32 :: "string \<Rightarrow> u32 option" where
  "ParseUint32 s =
     (if s = [] then None
      else case parse_digits 0 s of
        None \<Rightarrow> None
      | Some n \<Rightarrow> if n < 2 ^ 32 then Some (word_of_nat n) else None)"

section \<open>Outcome lemmas\<close>

lemma obind_Ok_iff [simp]: "obind r f = Ok b \<longleftrightarrow> (\<exists>a. r = Ok a \<and> f a = Ok b)"
  by (cases r) auto

lemma obind_cong [fundef_cong]:
  "r = r' \<Longrightarrow> (\<And>a. r' = Ok a \<Longrightarrow> f a = g a) \<Longrightarrow> obind r f = obind r' g"
  by (cases r') auto

lemma is_Ok_simps [simp]: "is_Ok (Ok a)" "\<not> is_Ok (Err e)" "\<not> is_Ok (Panic p)" "\<not> is_Ok Hang"
  by (simp_all add: is_Ok_def)

lemma is_Ok_iff: "is_Ok r \<longleftrightarrow> (\<exists>a. r = Ok a)"
  by (cases r) auto

lemma sbind_simps [simp]:
  "sbind s (Ok a) f = f a" "sbind s (Err e) f = (s, Err e)" "sbind s (Panic p) f = (s, Panic p)"
  "sbind s Hang f = (s, Hang)"
  by (simp_all add: sbind_def)

lemma sbind_Ok_iff: "sbind s r f = (s', Ok b) \<longleftrightarrow> (\<exists>a. r = Ok a \<and> f a = (s', Ok b))"
  by (cases r) auto

lemma omap_Ok_iff: "omap f xs = Ok ys \<longleftrightarrow> list_all2 (\<lambda>x y. f x = Ok y) xs ys"
  by (induction xs arbitrary: ys) (auto simp: list_all2_Cons1)

lemma omap_Ok_map: "(\<And>x. x \<in> set xs \<Longrightarrow> f x = Ok (g x)) \<Longrightarrow> omap f xs = Ok (map g xs)"
  by (induction xs) auto

lemma ofold_append: "ofold f (xs @ ys) s = obind (ofold f xs s) (ofold f ys)"
proof (induction xs arbitrary: s)
  case (Cons x xs)
  then show ?case by (cases "f x s") auto
qed simp

lemma ofold_Ok_fold: "(\<And>x s. x \<in> set xs \<Longrightarrow> f x s = Ok (g x s)) \<Longrightarrow> ofold f xs s = Ok (fold g xs s)"
  by (induction xs arbitrary: s) auto

lemma ofold_invariant:
  assumes "ofold f xs s = Ok s'" and "P s"
    and "\<And>x a b. x \<in> set xs \<Longrightarrow> P a \<Longrightarrow> f x a = Ok b \<Longrightarrow> P b"
  shows "P s'"
  using assms by (induction xs arbitrary: s) auto

section \<open>Slice lemmas\<close>

lemma length_go_copy [simp]: "length (go_copy dst src) = length dst"
  by (simp add: go_copy_def)

lemma go_copy_same [simp]: "length src = length dst \<Longrightarrow> go_copy dst src = src"
  by (simp add: go_copy_def)

lemma go_copy_short: "length src \<le> length dst \<Longrightarrow> go_copy dst src = src @ drop (length src) dst"
  by (simp add: go_copy_def)

lemma go_copy_long: "length dst \<le> length src \<Longrightarrow> go_copy dst src = take (length dst) src"
  by (simp add: go_copy_def)

lemma length_go_copy_at [simp]: "off \<le> length dst \<Longrightarrow> length (go_copy_at off dst src) = length dst"
  by (simp add: go_copy_at_def)

lemma length_slice [simp]: "hi \<le> length xs \<Longrightarrow> length (slice lo hi xs) = hi - lo"
  by (simp add: slice_def)

lemma slice_full [simp]: "slice 0 (length xs) xs = xs"
  by (simp add: slice_def)

lemma slice_append_mid: "length a = lo \<Longrightarrow> hi = lo + length b \<Longrightarrow> slice lo hi (a @ b @ c) = b"
  by (simp add: slice_def)

lemma nth_slice: "i < hi - lo \<Longrightarrow> hi \<le> length xs \<Longrightarrow> slice lo hi xs ! i = xs ! (lo + i)"
  by (simp add: slice_def)

lemma slice_map: "slice lo hi (map f xs) = map f (slice lo hi xs)"
  by (simp add: slice_def take_map drop_map)

section \<open>Lemmas on loops over slots\<close>

lemma write_slots_simps [simp]:
  "write_slots Q f [] l = l"
  "write_slots Q f ((i, x) # xs) l = write_slots Q f xs (if Q x then l[i := f x] else l)"
  by (simp_all add: write_slots_def)

lemma length_write_slots [simp]: "length (write_slots Q f xs l) = length l"
  by (induction xs arbitrary: l) auto

lemma write_slots_nth:
  assumes "distinct (map fst xs)" and "i < length l"
  shows "write_slots Q f xs l ! i =
    (case map_of xs i of None \<Rightarrow> l ! i | Some x \<Rightarrow> if Q x then f x else l ! i)"
  using assms
proof (induction xs arbitrary: l)
  case (Cons p xs)
  obtain j x where p: "p = (j, x)" by (cases p)
  have none: "map_of xs j = None" using Cons.prems(1) p by (simp add: map_of_eq_None_iff)
  show ?case
    using Cons.IH [of "if Q x then l[j := f x] else l"] Cons.prems p none
    by (cases "i = j") (auto simp: nth_list_update split: option.splits)
qed simp

lemma write_slots_perm:
  assumes "distinct (map fst xs)" and "distinct (map fst ys)" and "set xs = set ys"
  shows "write_slots Q f xs l = write_slots Q f ys l"
  using assms map_of_inject_set [of xs ys]
  by (auto intro!: nth_equalityI simp: write_slots_nth)

lemma write_slots_all:
  assumes "distinct (map fst xs)" and "set xs = set (zip [0..<length os] os)"
    and "length l = length os"
  shows "write_slots Q f xs l = map (\<lambda>(x, y). if Q x then f x else y) (zip os l)"
proof -
  have eq: "write_slots Q f xs l = write_slots Q f (zip [0..<length os] os) l"
    using assms(1,2) by (intro write_slots_perm) auto
  have nth: "map_of (zip [0..<length os] os) i = Some (os ! i)" if "i < length os" for i
    using map_of_zip_nth [of "[0..<length os]" os i] that by simp
  show ?thesis unfolding eq
    using assms(3) by (intro nth_equalityI) (auto simp: write_slots_nth nth)
qed

lemma ofold_concat: "ofold (\<lambda>ys. ofold f ys) xss s = ofold f (concat xss) s"
proof (induction xss arbitrary: s)
  case (Cons xs xss)
  then show ?case by (cases "ofold f xs s") (auto simp: ofold_append)
qed simp

lemma ofold_map: "ofold f (map g xs) s = ofold (\<lambda>x. f (g x)) xs s"
proof (induction xs arbitrary: s)
  case (Cons x xs)
  then show ?case by (cases "f (g x) s") auto
qed simp

lemma ofold_cong: "(\<And>x s. x \<in> set xs \<Longrightarrow> f x s = g x s) \<Longrightarrow> ofold f xs s = ofold g xs s"
proof (induction xs arbitrary: s)
  case (Cons x xs)
  then show ?case by (cases "g x s") auto
qed simp

section \<open>Binary codec lemmas\<close>

lemma length_PutUint32 [simp]: "length (PutUint32 v) = 4"
  by (simp add: PutUint32_def)

lemma Uint32_PutUint32 [codec_simps]: "Uint32 (PutUint32 v @ rest) = v"
proof -
  have "bit (Uint32 (PutUint32 v @ rest)) n = bit v n" if "n < 32" for n
    using that
    by (cases "n < 8"; cases "n < 16"; cases "n < 24") (auto simp: PutUint32_def bit_simps)
  then show ?thesis by (auto intro: bit_word_eqI)
qed

lemma PutUint32_inject: "PutUint32 v = PutUint32 w \<longleftrightarrow> v = w"
  by (metis Uint32_PutUint32)

lemma Uint32_take: "4 \<le> n \<Longrightarrow> Uint32 (take n xs) = Uint32 xs"
  by (cases xs rule: Uint32.cases) (auto simp: take_Cons' numeral_eq_Suc)
lemma Uint64_byte:
  "ucast (drop_bit 56 (Uint64 [a,b,c,d,e,f,g,h])) = a" 
  "ucast (drop_bit 48 (Uint64 [a,b,c,d,e,f,g,h])) = b" 
  "ucast (drop_bit 40 (Uint64 [a,b,c,d,e,f,g,h])) = c" 
  "ucast (drop_bit 32 (Uint64 [a,b,c,d,e,f,g,h])) = d" 
  "ucast (drop_bit 24 (Uint64 [a,b,c,d,e,f,g,h])) = e" 
  "ucast (drop_bit 16 (Uint64 [a,b,c,d,e,f,g,h])) = f" 
  "ucast (drop_bit 8 (Uint64 [a,b,c,d,e,f,g,h])) = g" 
  "ucast (Uint64 [a,b,c,d,e,f,g,h]) = h" 
  unfolding Uint64.simps
  by (rule bit_word_eqI; auto simp: bit_simps dest: bit_imp_le_length)+

lemma list8: "length xs = 8 \<Longrightarrow> \<exists>a b c d e f g h. xs = [a,b,c,d,e,f,g,h]"
  by (auto simp: length_Suc_conv numeral_eq_Suc)

lemma Uint64_inject [codec_simps]:
  assumes "length xs = 8" "length ys = 8"
  shows "Uint64 xs = Uint64 ys \<longleftrightarrow> xs = ys"
proof
  assume eq: "Uint64 xs = Uint64 ys"
  obtain a b c d e f g h where xs: "xs = [a,b,c,d,e,f,g,h]" using list8 assms(1) by blast
  obtain a' b' c' d' e' f' g' h' where ys: "ys = [a',b',c',d',e',f',g',h']" using list8 assms(2) by blast
  show "xs = ys"
    using eq Uint64_byte [of a b c d e f g h] Uint64_byte [of a' b' c' d' e' f' g' h']
    unfolding xs ys by metis
qed simp

lemma digit_of_digit_char [simp]: "d < 10 \<Longrightarrow> digit_of (digit_char d) = Some d"
  by (simp add: digit_of_def digit_char_def)

lemma parse_digits_append:
  "parse_digits acc (s @ t) = (case parse_digits acc s of None \<Rightarrow> None | Some n \<Rightarrow> parse_digits n t)"
  by (induction s arbitrary: acc) (auto split: option.splits)

lemma parse_digits_print_nat: "parse_digits 0 (print_nat n) = Some n"
proof (induction n rule: print_nat.induct)
  case (1 n)
  show ?case
  proof (cases "n < 10")
    case True
    then show ?thesis by (subst print_nat.simps) simp
  next
    case False
    with 1 show ?thesis by (subst print_nat.simps) (simp add: parse_digits_append)
  qed
qed

lemma print_nat_nonempty: "print_nat n \<noteq> []"
  by (subst print_nat.simps) simp

lemma ParseUint32_print_nat: "ParseUint32 (print_nat n) = (if n < 2 ^ 32 then Some (word_of_nat n) else None)"
  by (simp add: ParseUint32_def parse_digits_print_nat print_nat_nonempty)

lemma ParseUint32_print_unat [codec_simps]: "ParseUint32 (print_nat (unat w)) = Some w"
  using unsigned_less [of w] by (simp add: ParseUint32_print_nat)

section \<open>Words and spans\<close>

lemma unat32_of_nat: "n < 2 ^ 32 \<Longrightarrow> unat (word_of_nat n :: u32) = n"
  by (simp add: unat_of_nat)

lemma unat32_less: "unat (w :: u32) < 2 ^ 32"
  using unsigned_less [of w] by simp

lemma unat_add_exact: "unat a + unat b < 2 ^ 32 \<Longrightarrow> unat (a + b :: u32) = unat a + unat b"
  using unat_add_lem [of a b] by simp

lemma spans_bound:
  assumes "concat (map (\<lambda>(s, c). [s..<s + c]) sp) = [0..<n]" and "(s, c) \<in> set sp" and "0 < c"
  shows "s + c \<le> n"
proof (rule ccontr)
  assume "\<not> s + c \<le> n"
  then have "s + c - 1 \<in> set (concat (map (\<lambda>(s, c). [s..<s + c]) sp))" "s + c - 1 \<ge> n"
    using assms(2,3) by (auto intro!: bexI [of _ "(s, c)"])
  then show False unfolding assms(1) by simp
qed

lemma concat_slices:
  assumes "concat (map (\<lambda>(s, c). [s..<s + c]) sp) = [0..<length xs]"
  shows "concat (map (\<lambda>(s, c). slice s (s + c) xs) sp) = xs"
proof -
  have "map (\<lambda>(s, c). slice s (s + c) xs) sp = map (\<lambda>(s, c). map ((!) xs) [s..<s + c]) sp"
  proof (intro map_cong refl, clarify)
    fix s c assume "(s, c) \<in> set sp"
    then have "0 < c \<Longrightarrow> s + c \<le> length xs" by (rule spans_bound [OF assms])
    then show "slice s (s + c) xs = map ((!) xs) [s..<s + c]"
      by (cases "c = 0") (auto intro!: nth_equalityI simp: slice_def)
  qed
  then have "concat (map (\<lambda>(s, c). slice s (s + c) xs) sp) =
      concat (map (\<lambda>(s, c). map ((!) xs) [s..<s + c]) sp)"
    by (simp only:)
  also have "\<dots> = map ((!) xs) (concat (map (\<lambda>(s, c). [s..<s + c]) sp))"
    by (simp add: map_concat case_prod_unfold comp_def)
  finally show ?thesis by (simp add: assms map_nth)
qed

end
