(* ===== verification/Mixnet_Types.thy ===== *)
theory Mixnet_Types
  imports Prelude
begin

text \<open>
  The data of package \<open>mixnet\<close>: server configurations, round settings with their protobuf
  conversions (\<open>mixnet/settings.go\<close>), the nonces, the errors of the package, and the
  cryptographic code of other modules as parameters of the model together with the documented
  behaviour the package relies on.
\<close>

section \<open>Code of other modules\<close>

text \<open>
  \<open>golang.org/x/crypto/nacl/box\<close> and \<open>crypto/ed25519\<close> are parameters. A box operation takes the
  message, the nonce and the precomputed shared key; \<open>Open\<close> is the call that precomputes the key
  itself. The sizes are those of \<open>docs/PQ-MIGRATION.md\<close>: a mixer's layer is a 32-byte X25519 key
  and a 16-byte tag (\<open>box.Overhead\<close>).
\<close>

record nacl =
  Precompute :: "bytes \<Rightarrow> bytes \<Rightarrow> bytes"
  OpenAfterPrecomputation :: "bytes \<Rightarrow> bytes \<Rightarrow> bytes \<Rightarrow> bytes option"
  SealAfterPrecomputation :: "bytes \<Rightarrow> bytes \<Rightarrow> bytes \<Rightarrow> bytes"
  BoxOpen :: "bytes \<Rightarrow> bytes \<Rightarrow> bytes \<Rightarrow> bytes \<Rightarrow> bytes option"
  Ed25519Sign :: "bytes \<Rightarrow> bytes \<Rightarrow> bytes"
  Ed25519Verify :: "bytes \<Rightarrow> bytes \<Rightarrow> bytes \<Rightarrow> bool"
  Ed25519Public :: "bytes \<Rightarrow> bytes"

definition box_Overhead :: nat where
  "box_Overhead = 16"

definition onionbox_Overhead :: nat where
  "onionbox_Overhead = 48"

definition PublicKeySize :: nat where
  "PublicKeySize = 32"

text \<open>Documented behaviour of authenticated encryption: a sealed message opens to itself under the
  same nonce and key, and every box is \<open>box.Overhead\<close> bytes longer than its message.\<close>

definition box_roundtrip :: "nacl \<Rightarrow> bool" where
  "box_roundtrip P \<longleftrightarrow>
     (\<forall>m n k. OpenAfterPrecomputation P (SealAfterPrecomputation P m n k) n k = Some m)"

definition box_length :: "nacl \<Rightarrow> bool" where
  "box_length P \<longleftrightarrow>
     (\<forall>m n k. length (SealAfterPrecomputation P m n k) = length m + box_Overhead) \<and>
     (\<forall>b n k m. OpenAfterPrecomputation P b n k = Some m \<longrightarrow> length b = length m + box_Overhead)"

definition ed25519_correct :: "nacl \<Rightarrow> bool" where
  "ed25519_correct P \<longleftrightarrow> (\<forall>sk m. Ed25519Verify P (Ed25519Public P sk) m (Ed25519Sign P sk m))"

section \<open>Errors\<close>

datatype mix_err =
    InvalidKeyInProto bytes
  | RoundNotFound u32
  | NoPeerInContext
  | UnknownAuthInfo string
  | PeerCertificates nat
  | NotEd25519Certificate
  | WrongEdtlsKey
  | UnknownService string
  | GenerateKeyError
  | MyKeyNotInChain
  | WrongKeySize nat nat
  | WantKeys nat nat
  | UnexpectedKeyAt nat
  | NoMetadata
  | MissingServiceMetadata
  | MissingRoundMetadata
  | InvalidRoundMetadata string
  | MissingNumIncoming
  | InvalidNumIncoming string
  | MultipleNumIncoming u32 u32 u32
  | OverflowingOnions u32 nat u32
  | StreamError
  | RunRoundError nat nat mix_err
  | GetOnionsUnidirectional string
  | InvalidOffsetCount u32 u32 nat
  | ServiceError string
  | DialError
  | Wrapped string mix_err

section \<open>Server configurations\<close>

record public_server_config =
  Key :: bytes
  Address :: string

record pb_PublicServerConfig =
  pb_Key :: bytes
  pb_Address :: string

definition psc_Proto :: "public_server_config \<Rightarrow> pb_PublicServerConfig" where
  "psc_Proto c = \<lparr>pb_Key = Key c, pb_Address = Address c\<rparr>"

definition psc_FromProto :: "pb_PublicServerConfig \<Rightarrow> (mix_err, public_server_config) outcome" where
  "psc_FromProto pbc =
     (if length (pb_Key pbc) \<noteq> PublicKeySize then Err (InvalidKeyInProto (pb_Key pbc))
      else Ok \<lparr>Key = pb_Key pbc, Address = pb_Address pbc\<rparr>)"

section \<open>Round settings\<close>

text \<open>
  \<open>ServiceData\<close> is an \<open>interface{}\<close>: its type is the type variable, nil is \<open>None\<close>.
\<close>

record 'd round_settings =
  Service :: string
  Round :: u32
  OnionKeys :: "bytes list"
  RawServiceData :: bytes
  ServiceData :: "'d option"

record pb_RoundSettings =
  pbs_Service :: string
  pbs_Round :: u32
  pbs_OnionKeys :: "bytes list"
  pbs_ServiceData :: bytes

text \<open>The zero value of the struct.\<close>

definition empty_settings :: "'d round_settings" where
  "empty_settings =
     \<lparr>Service = [], Round = 0, OnionKeys = [], RawServiceData = [], ServiceData = None\<rparr>"

definition settings_Proto :: "'d round_settings \<Rightarrow> pb_RoundSettings" where
  "settings_Proto s =
     \<lparr>pbs_Service = Service s, pbs_Round = Round s, pbs_OnionKeys = OnionKeys s,
      pbs_ServiceData = RawServiceData s\<rparr>"

text \<open>
  The loop over the keys: \<open>copy\<close> into a 32-byte array returns the number of bytes copied, and
  anything but 32 is an error that names the index.
\<close>

fun keys_FromProto :: "nat \<Rightarrow> bytes list \<Rightarrow> (mix_err, bytes list) outcome" where
  "keys_FromProto i [] = Ok []"
| "keys_FromProto i (k # ks) =
     (let key = go_copy (replicate 32 0) k; n = min 32 (length k) in
      if n \<noteq> 32 then Err (WrongKeySize i n)
      else obind (keys_FromProto (Suc i) ks) (\<lambda>r. Ok (key # r)))"

definition settings_FromProto :: "pb_RoundSettings \<Rightarrow> (mix_err, 'd round_settings) outcome" where
  "settings_FromProto pbs =
     obind (keys_FromProto 0 (pbs_OnionKeys pbs)) (\<lambda>ks.
       Ok \<lparr>Service = pbs_Service pbs, Round = pbs_Round pbs, OnionKeys = ks,
           RawServiceData = pbs_ServiceData pbs, ServiceData = None\<rparr>)"

text \<open>
  \<open>SigningMessage\<close> is the prefix followed by the JSON of the settings without \<open>ServiceData\<close> (it
  is tagged \<open>json:"-"\<close>); the JSON encoder is a parameter on the four encoded fields.
\<close>

type_synonym settings_encoder = "string \<Rightarrow> u32 \<Rightarrow> bytes list \<Rightarrow> bytes \<Rightarrow> bytes"

definition ascii :: "string \<Rightarrow> bytes" where
  "ascii s = map (\<lambda>c. of_char c) s"

definition str_of :: "bytes \<Rightarrow> string" where
  "str_of bs = map (\<lambda>b. char_of (unat b)) bs"

lemma str_of_ascii [simp]: "str_of (ascii s) = s"
proof -
  have "unat (word_of_nat (of_char c) :: byte) = of_char c" for c
    by (simp only: unat_of_nat) simp
  then have "char_of (unat (of_char c :: byte)) = c" for c by (simp only: of_nat_of_char) simp
  then show ?thesis by (simp add: str_of_def ascii_def comp_def)
qed

definition SigningMessage :: "settings_encoder \<Rightarrow> 'd round_settings \<Rightarrow> bytes" where
  "SigningMessage enc s =
     ascii ''RoundSettings'' @ enc (Service s) (Round s) (OnionKeys s) (RawServiceData s)"

section \<open>Nonces\<close>

definition ForwardNonce :: "u32 \<Rightarrow> bytes" where
  "ForwardNonce round = (go_copy_at 0 (replicate 24 0) (PutUint32 round))[4 := 0]"

definition BackwardNonce :: "u32 \<Rightarrow> bytes" where
  "BackwardNonce round = (go_copy_at 0 (replicate 24 0) (PutUint32 round))[4 := 1]"

section \<open>Properties\<close>

lemma psc_FromProto_Ok_iff:
  "psc_FromProto p = Ok c \<longleftrightarrow> length (Key c) = PublicKeySize \<and> p = psc_Proto c"
  by (cases p; cases c) (auto simp: psc_FromProto_def psc_Proto_def)

lemma psc_roundtrip [codec_simps]:
  "length (Key c) = PublicKeySize \<Longrightarrow> psc_FromProto (psc_Proto c) = Ok c"
  by (simp add: psc_FromProto_Ok_iff)

lemma keys_FromProto_Ok_iff:
  "keys_FromProto i ks = Ok r \<longleftrightarrow> (\<forall>k \<in> set ks. 32 \<le> length k) \<and> r = map (take 32) ks"
  by (induction ks arbitrary: i r) (auto simp: Let_def go_copy_def min_def split: if_splits)

lemma keys_FromProto_id:
  "\<forall>k \<in> set ks. length k = 32 \<Longrightarrow> keys_FromProto i ks = Ok ks"
  by (auto simp: keys_FromProto_Ok_iff intro!: map_idI [symmetric])

lemma nonce_length [simp]: "length (ForwardNonce r) = 24" "length (BackwardNonce r) = 24"
  by (simp_all add: ForwardNonce_def BackwardNonce_def)

lemma nonce_bytes:
  "ForwardNonce r = PutUint32 r @ 0 # replicate 19 0"
  "BackwardNonce r = PutUint32 r @ 1 # replicate 19 0"
  by (simp_all add: ForwardNonce_def BackwardNonce_def go_copy_at_def go_copy_def PutUint32_def
      numeral_eq_Suc)

text \<open>
  A round's nonces identify the round and the direction: two forward nonces are equal only for
  the same round, likewise two backward nonces, and a forward nonce is never a backward nonce, so
  no (round, direction) pair of a key ever shares a nonce with another.
\<close>

theorem nonce_unique:
  "(ForwardNonce r = ForwardNonce r' \<longleftrightarrow> r = r') \<and>
   (BackwardNonce r = BackwardNonce r' \<longleftrightarrow> r = r') \<and>
   ForwardNonce r \<noteq> BackwardNonce r'"
  by (auto simp: nonce_bytes PutUint32_inject)

text \<open>
  Round settings survive the protobuf conversion exactly when every onion key has at least 32
  bytes, and longer keys are cut to their first 32 bytes: the conversion accepts them although
  its error message speaks of a wrong size.
\<close>

theorem settings_FromProto_spec:
  "settings_FromProto pbs = Ok s \<longleftrightarrow>
     list_all (\<lambda>k. 32 \<le> length k) (pbs_OnionKeys pbs) \<and>
     s = \<lparr>Service = pbs_Service pbs, Round = pbs_Round pbs,
          OnionKeys = map (take 32) (pbs_OnionKeys pbs),
          RawServiceData = pbs_ServiceData pbs, ServiceData = None\<rparr>"
  by (auto simp: settings_FromProto_def keys_FromProto_Ok_iff list_all_iff)

lemma settings_roundtrip:
  "\<forall>k \<in> set (OnionKeys s). length k = 32 \<Longrightarrow>
   settings_FromProto (settings_Proto s) = Ok (s\<lparr>ServiceData := None\<rparr>)"
  by (cases s) (simp add: settings_FromProto_def settings_Proto_def keys_FromProto_id)

end
