(* ===== verification/Mix_Server.thy ===== *)
theory Mix_Server
  imports Mixnet_Types
begin

text \<open>
  The mix server of \<open>mixnet/mixnet.go\<close>: its state per round and the handlers of the six RPCs. A
  handler takes the server and returns the new server with the outcome of the call. The goroutine
  that generates noise and the one that encrypts replies are run to completion where they are
  spawned: the only readers of their results first wait for the channel they close. Decryption jobs
  stay in a queue (\<open>decryptJobs\<close>, which stands for \<open>srv.decryptionJobs\<close> and the wait group) until
  a worker takes them or \<open>CloseRound\<close> waits for them.
\<close>

section \<open>State\<close>

datatype handle_result = HandledReplies "bytes option list" | HandledString string

record 'd mix_service =
  Bidirectional :: bool
  SizeIncomingMessage :: nat
  SizeReplyMessage :: nat
  ParseServiceData :: "bytes \<Rightarrow> (mix_err, 'd option) outcome"
  GenerateNoise :: "'d round_settings \<Rightarrow> nat \<Rightarrow> (mix_err, bytes list) outcome"
  HandleMessages :: "'d round_settings \<Rightarrow> bytes list \<Rightarrow> (mix_err, handle_result) outcome"

record add_onions_request =
  Offset :: u32
  Onions :: "bytes list"

record decryption_job =
  jobRound :: u32
  jobReq :: add_onions_request

text \<open>
  \<open>muHeld\<close> says that the handler that owns \<open>st.mu\<close> is waiting for another server; \<open>noiseDone\<close> is
  \<open>None\<close> for the nil channel and \<open>Some b\<close> for a channel that is closed iff \<open>b\<close>; a nil slice of
  bytes is \<open>None\<close>.
\<close>

record 'd round_state =
  muHeld :: bool
  settings :: "'d round_settings"
  settingsSignature :: "bytes option"
  numIncoming :: u32
  incoming :: "bytes option list"
  sharedKeys :: "bytes list"
  incomingIndex :: "int list"
  replies :: "bytes list"
  acceptingOnions :: bool
  decryptJobs :: "decryption_job list"
  encryptDone :: bool
  closed :: bool
  closeResult :: string
  roundErr :: "mix_err option"
  chain :: "public_server_config list"
  myPos :: nat
  bidirectional :: bool
  incomingOnionSize :: nat
  onionPrivateKey :: bytes
  onionPublicKey :: bytes
  noise :: "bytes list"
  noiseDone :: "bool option"

type_synonym service_round = "string \<times> u32"

record 'd server =
  SigningKey :: bytes
  CoordinatorKey :: bytes
  Services :: "string \<rightharpoonup> 'd mix_service"
  rounds :: "service_round \<rightharpoonup> 'd round_state"

definition put_round :: "'d server \<Rightarrow> service_round \<Rightarrow> 'd round_state \<Rightarrow> 'd server" where
  "put_round srv k st = srv\<lparr>rounds := (rounds srv)(k \<mapsto> st)\<rparr>"

definition getRound :: "'d server \<Rightarrow> string \<Rightarrow> u32 \<Rightarrow> (mix_err, 'd round_state) outcome" where
  "getRound srv service round =
     (case rounds srv (service, round) of None \<Rightarrow> Err (RoundNotFound round) | Some st \<Rightarrow> Ok st)"

section \<open>Authentication\<close>

text \<open>
  The peer of a call as gRPC presents it: none, or its \<open>AuthInfo\<close>, which is nil, a TLS state with
  the keys of the peer certificates, or something else.
\<close>

datatype cert_key = Ed25519Key bytes | OtherKey
datatype auth_info = NilAuthInfo | TLSInfo "cert_key list" | OtherAuthInfo string

type_synonym ctx_peer = "auth_info option"

definition auth :: "ctx_peer \<Rightarrow> bytes \<Rightarrow> (mix_err, unit) outcome" where
  "auth ctx expectedKey =
     (case ctx of
        None \<Rightarrow> Err NoPeerInContext
      | Some NilAuthInfo \<Rightarrow> Panic NilDereference
      | Some (OtherAuthInfo t) \<Rightarrow> Err (UnknownAuthInfo t)
      | Some (TLSInfo certs) \<Rightarrow>
          (case certs of
             [c] \<Rightarrow>
               (case c of
                  OtherKey \<Rightarrow> Err NotEd25519Certificate
                | Ed25519Key peerKey \<Rightarrow>
                    if expectedKey \<noteq> peerKey then Err WrongEdtlsKey else Ok ())
           | _ \<Rightarrow> Err (PeerCertificates (length certs))))"

definition authPrev :: "'d server \<Rightarrow> ctx_peer \<Rightarrow> 'd round_state \<Rightarrow> (mix_err, unit) outcome" where
  "authPrev srv ctx st =
     (if myPos st = 0 then auth ctx (CoordinatorKey srv)
      else if myPos st - 1 < length (chain st) then auth ctx (Key (chain st ! (myPos st - 1)))
      else Panic IndexOutOfRange)"

section \<open>NewRound\<close>

record new_round_request =
  nr_Service :: string
  nr_Round :: u32
  nr_Chain :: "pb_PublicServerConfig list"

text \<open>The loop over \<open>req.Chain\<close>: convert each entry, remember the last position that holds our key.\<close>

fun parse_chain ::
  "bytes \<Rightarrow> nat \<Rightarrow> pb_PublicServerConfig list \<Rightarrow> nat option \<Rightarrow>
   (mix_err, public_server_config list \<times> nat option) outcome" where
  "parse_chain myPub i [] pos = Ok ([], pos)"
| "parse_chain myPub i (conf # rest) pos =
     obind (psc_FromProto conf) (\<lambda>c.
       obind (parse_chain myPub (Suc i) rest (if pb_Key conf = myPub then Some i else pos))
         (\<lambda>(cs, p). Ok (c # cs, p)))"

definition new_round_state ::
  "'d mix_service \<Rightarrow> public_server_config list \<Rightarrow> nat \<Rightarrow> bytes \<Rightarrow> bytes \<Rightarrow> 'd round_state" where
  "new_round_state service ch pos public private =
     \<lparr>muHeld = False, settings = empty_settings, settingsSignature = None, numIncoming = 0,
      incoming = [], sharedKeys = [], incomingIndex = [], replies = [], acceptingOnions = False,
      decryptJobs = [], encryptDone = False, closed = False, closeResult = [], roundErr = None,
      chain = ch, myPos = pos, bidirectional = Bidirectional service,
      incomingOnionSize = (length ch - pos) * onionbox_Overhead + SizeIncomingMessage service,
      onionPrivateKey = private, onionPublicKey = public, noise = [], noiseDone = None\<rparr>"

text \<open>\<open>keypair\<close> is what \<open>box.GenerateKey\<close> returns, \<open>None\<close> for its error.\<close>

definition newRound ::
  "nacl \<Rightarrow> 'd server \<Rightarrow> ctx_peer \<Rightarrow> new_round_request \<Rightarrow> (bytes \<times> bytes) option \<Rightarrow>
   'd server \<times> (mix_err, bytes) outcome" where
  "newRound P srv ctx req keypair =
     sbind srv (auth ctx (CoordinatorKey srv)) (\<lambda>_.
       case Services srv (nr_Service req) of
         None \<Rightarrow> (srv, Err (UnknownService (nr_Service req)))
       | Some service \<Rightarrow>
         (case rounds srv (nr_Service req, nr_Round req) of
            Some st \<Rightarrow> (srv, Ok (onionPublicKey st))
          | None \<Rightarrow>
            (case keypair of
               None \<Rightarrow> (srv, Err GenerateKeyError)
             | Some (public, private) \<Rightarrow>
               sbind srv (parse_chain (Ed25519Public P (SigningKey srv)) 0 (nr_Chain req) None)
                 (\<lambda>(ch, pos).
                    case pos of
                      None \<Rightarrow> (srv, Err MyKeyNotInChain)
                    | Some p \<Rightarrow>
                        (put_round srv (nr_Service req, nr_Round req)
                           (new_round_state service ch p public private),
                         Ok public)))))"

section \<open>SetRoundSettings\<close>

text \<open>The critical section under \<open>st.mu\<close>: settings are accepted and signed once.\<close>

definition sign_settings ::
  "nacl \<Rightarrow> settings_encoder \<Rightarrow> 'd server \<Rightarrow> 'd mix_service \<Rightarrow> 'd round_settings \<Rightarrow>
   'd round_state \<Rightarrow> 'd server \<times> (mix_err, bytes) outcome" where
  "sign_settings P enc srv service s st =
     (if muHeld st then (srv, Hang)
      else case settingsSignature st of
        Some sig \<Rightarrow> (srv, Ok sig)
      | None \<Rightarrow>
        if length (OnionKeys s) \<noteq> length (chain st)
        then (srv, Err (WantKeys (length (chain st)) (length (OnionKeys s))))
        else if \<not> myPos st < length (OnionKeys s) then (srv, Panic IndexOutOfRange)
        else if OnionKeys s ! myPos st \<noteq> onionPublicKey st
        then (srv, Err (UnexpectedKeyAt (myPos st)))
        else
          let sig = Ed25519Sign P (SigningKey srv) (SigningMessage enc s);
              k = (Service s, Round s);
              st' = st\<lparr>settings := s, settingsSignature := Some sig, noiseDone := Some False\<rparr> in
          sbind (put_round srv k st') (GenerateNoise service s (myPos st)) (\<lambda>ns.
            (put_round srv k (st'\<lparr>noise := ns, noiseDone := Some True\<rparr>), Ok sig)))"

text \<open>The request carries a pointer to the settings; a nil pointer is dereferenced by the log line.\<close>

definition setRoundSettings ::
  "nacl \<Rightarrow> settings_encoder \<Rightarrow> 'd server \<Rightarrow> ctx_peer \<Rightarrow> pb_RoundSettings option \<Rightarrow>
   'd server \<times> (mix_err, bytes) outcome" where
  "setRoundSettings P enc srv ctx req =
     sbind srv (auth ctx (CoordinatorKey srv)) (\<lambda>_.
       case req of
         None \<Rightarrow> (srv, Panic NilDereference)
       | Some pbs \<Rightarrow>
         sbind srv (settings_FromProto pbs) (\<lambda>s.
         sbind srv (getRound srv (Service s) (Round s)) (\<lambda>st.
           case Services srv (Service s) of
             None \<Rightarrow> (srv, Panic NilDereference)
           | Some service \<Rightarrow>
             sbind srv (ParseServiceData service (RawServiceData s)) (\<lambda>serviceData.
               sign_settings P enc srv service (s\<lparr>ServiceData := serviceData\<rparr>) st))))"

section \<open>Decryption\<close>

text \<open>One iteration of the worker's loop: the onion for slot \<open>idx\<close> of the round.\<close>

definition decrypt_onion ::
  "nacl \<Rightarrow> u32 \<Rightarrow> nat \<times> bytes \<Rightarrow> 'd round_state \<Rightarrow> (mix_err, 'd round_state) outcome" where
  "decrypt_onion P round x st =
     (case x of (idx, onion) \<Rightarrow>
        if length onion \<noteq> incomingOnionSize st then Ok st
        else if length onion < 32 then Panic SliceOutOfRange
        else
          let theirPublic = take 32 onion; nonce = ForwardNonce round in
          if bidirectional st then
            if \<not> idx < length (sharedKeys st) then Panic IndexOutOfRange
            else
              let k = Precompute P theirPublic (onionPrivateKey st);
                  msg = OpenAfterPrecomputation P (drop 32 onion) nonce k in
              if \<not> idx < length (incoming st) then Panic IndexOutOfRange
              else Ok (st\<lparr>sharedKeys := (sharedKeys st)[idx := k],
                          incoming := (incoming st)[idx := msg]\<rparr>)
          else
            let msg = BoxOpen P (drop 32 onion) nonce theirPublic (onionPrivateKey st) in
            if \<not> idx < length (incoming st) then Panic IndexOutOfRange
            else Ok (st\<lparr>incoming := (incoming st)[idx := msg]\<rparr>))"

definition decryptionWorker ::
  "nacl \<Rightarrow> decryption_job \<Rightarrow> 'd round_state \<Rightarrow> (mix_err, 'd round_state) outcome" where
  "decryptionWorker P job st =
     ofold (decrypt_onion P (jobRound job))
       (zip [unat (Offset (jobReq job)) ..<
             unat (Offset (jobReq job)) + length (Onions (jobReq job))]
            (Onions (jobReq job))) st"

section \<open>AddOnions\<close>

record stream_metadata =
  md_service :: string
  md_round :: u32
  md_numIncoming :: u32

text \<open>
  The incoming metadata: absent, or a map from (lower-case) keys to their values; gRPC never maps a
  key to an empty list of values, and the model reads such a key as Go would, by panicking.
\<close>

type_synonym grpc_metadata = "(string \<rightharpoonup> string list) option"

definition first_value :: "string list \<Rightarrow> (mix_err, string) outcome" where
  "first_value vs = (case vs of [] \<Rightarrow> Panic IndexOutOfRange | v # _ \<Rightarrow> Ok v)"

definition parseMetadata :: "grpc_metadata \<Rightarrow> (mix_err, stream_metadata) outcome" where
  "parseMetadata md =
     (case md of
        None \<Rightarrow> Err NoMetadata
      | Some m \<Rightarrow>
        (case m ''service'' of
           None \<Rightarrow> Err MissingServiceMetadata
         | Some sv \<Rightarrow> obind (first_value sv) (\<lambda>service.
           case m ''round'' of
             None \<Rightarrow> Err MissingRoundMetadata
           | Some rv \<Rightarrow> obind (first_value rv) (\<lambda>rs.
             case ParseUint32 rs of
               None \<Rightarrow> Err (InvalidRoundMetadata rs)
             | Some r \<Rightarrow>
               (case m ''numincoming'' of
                  None \<Rightarrow> Err MissingNumIncoming
                | Some nv \<Rightarrow> obind (first_value nv) (\<lambda>ns.
                  case ParseUint32 ns of
                    None \<Rightarrow> Err (InvalidNumIncoming ns)
                  | Some ni \<Rightarrow>
                      Ok \<lparr>md_service = service, md_round = r, md_numIncoming = ni\<rparr>))))))"

text \<open>The first stream of a round fixes the number of onions and allocates the slots.\<close>

definition alloc_slots :: "u32 \<Rightarrow> 'd round_state \<Rightarrow> 'd round_state" where
  "alloc_slots num st =
     st\<lparr>acceptingOnions := True, numIncoming := num,
        incoming := replicate (unat num) None,
        sharedKeys := (if bidirectional st then replicate (unat num) (replicate 32 0)
                       else sharedKeys st)\<rparr>"

text \<open>The part of the handler before the receive loop, under \<open>st.mu\<close>.\<close>

definition addOnions_open ::
  "'d server \<Rightarrow> grpc_metadata \<Rightarrow> ctx_peer \<Rightarrow> 'd server \<times> (mix_err, stream_metadata \<times> u32) outcome"
  where
  "addOnions_open srv md ctx =
     sbind srv (parseMetadata md) (\<lambda>m.
     sbind srv (getRound srv (md_service m) (md_round m)) (\<lambda>st.
     sbind srv (authPrev srv ctx st) (\<lambda>_.
       if muHeld st then (srv, Hang)
       else if numIncoming st = 0 then
         (put_round srv (md_service m, md_round m) (alloc_slots (md_numIncoming m) st),
          Ok (m, md_numIncoming m))
       else if numIncoming st \<noteq> md_numIncoming m then
         (srv, Err (MultipleNumIncoming (md_round m) (md_numIncoming m) (numIncoming st)))
       else (srv, Ok (m, numIncoming st)))))"

text \<open>One message of the stream: the bounds check, then the job if the round still accepts onions.\<close>

definition addOnions_recv ::
  "stream_metadata \<Rightarrow> u32 \<Rightarrow> add_onions_request \<Rightarrow> 'd server \<Rightarrow> (mix_err, 'd server) outcome" where
  "addOnions_recv m num req srv =
     (if Offset req + word_of_nat (length (Onions req)) > num
      then Err (OverflowingOnions (Offset req) (length (Onions req)) num)
      else case rounds srv (md_service m, md_round m) of
        None \<Rightarrow> Ok srv
      | Some st \<Rightarrow>
        if muHeld st then Hang
        else if acceptingOnions st then
          Ok (put_round srv (md_service m, md_round m)
                (st\<lparr>decryptJobs :=
                      decryptJobs st @ [\<lparr>jobRound = md_round m, jobReq = req\<rparr>]\<rparr>))
        else Ok srv)"

text \<open>What \<open>stream.Recv\<close> returns: a request or an error; the end of the list is \<open>io.EOF\<close>.\<close>

datatype recv_event = Received add_onions_request | RecvError

fun addOnions_loop ::
  "stream_metadata \<Rightarrow> u32 \<Rightarrow> recv_event list \<Rightarrow> 'd server \<Rightarrow> 'd server \<times> (mix_err, unit) outcome"
  where
  "addOnions_loop m num [] srv = (srv, Ok ())"
| "addOnions_loop m num (RecvError # evs) srv = (srv, Err StreamError)"
| "addOnions_loop m num (Received req # evs) srv =
     sbind srv (addOnions_recv m num req srv) (addOnions_loop m num evs)"

definition addOnions ::
  "'d server \<Rightarrow> grpc_metadata \<Rightarrow> ctx_peer \<Rightarrow> recv_event list \<Rightarrow> 'd server \<times> (mix_err, unit) outcome"
  where
  "addOnions srv md ctx evs =
     (case addOnions_open srv md ctx of
        (srv', r) \<Rightarrow> sbind srv' r (\<lambda>(m, num). addOnions_loop m num evs srv'))"

text \<open>A worker takes the first job of a round's queue and runs it.\<close>

definition worker_step ::
  "nacl \<Rightarrow> 'd round_state \<Rightarrow> (mix_err, 'd round_state) outcome" where
  "worker_step P st =
     (case decryptJobs st of
        [] \<Rightarrow> Ok st
      | j # js \<Rightarrow> decryptionWorker P j (st\<lparr>decryptJobs := js\<rparr>))"

section \<open>filterIncoming\<close>

text \<open>The loop carries the set of seen keys, the valid messages and the index built so far.\<close>

fun filter_loop ::
  "bytes option list \<Rightarrow> (u64 \<Rightarrow> bool) \<Rightarrow> bytes list \<Rightarrow> int list \<Rightarrow>
   (mix_err, bytes list \<times> int list) outcome" where
  "filter_loop [] seen valid index = Ok (valid, index)"
| "filter_loop (None # ms) seen valid index = filter_loop ms seen valid (index @ [-1])"
| "filter_loop (Some msg # ms) seen valid index =
     (if length msg < 8 then Panic SliceOutOfRange
      else
        let msgkey = Uint64 (drop (length msg - 8) msg) in
        if seen msgkey then filter_loop ms seen valid (index @ [-1])
        else filter_loop ms (seen(msgkey := True)) (valid @ [msg]) (index @ [int (length valid)]))"

definition filterIncoming :: "'d round_state \<Rightarrow> (mix_err, 'd round_state) outcome" where
  "filterIncoming st =
     obind (filter_loop (incoming st) (\<lambda>_. False) [] []) (\<lambda>(valid, index).
       Ok (st\<lparr>incoming := map Some valid, incomingIndex := index\<rparr>))"

section \<open>Replies\<close>

text \<open>
  The body of the loop of \<open>encryptReplies\<close> for slot \<open>i\<close>. \<open>FreshKey i\<close> is the key \<open>rand.Read\<close> draws
  when the slot has no reply of the right size. The variable \<open>key\<close> of a worker keeps its value from
  one iteration to the next, which shows only when the reply size is zero and the slot has no reply:
  \<open>StaleKey i\<close> is what the worker that runs iteration \<open>i\<close> then finds in it, \<open>None\<close> for nil.
\<close>

record reply_keys =
  FreshKey :: "nat \<Rightarrow> bytes"
  StaleKey :: "nat \<Rightarrow> bytes option"

definition encrypt_reply ::
  "nacl \<Rightarrow> u32 \<Rightarrow> nat \<Rightarrow> reply_keys \<Rightarrow> bytes list \<Rightarrow> bytes option list \<Rightarrow> nat \<times> int \<Rightarrow>
   (mix_err, bytes) outcome" where
  "encrypt_reply P round replyMsgSize rk keys rs x =
     (case x of (i, v) \<Rightarrow>
        if v > -1 \<and> \<not> nat v < length rs then Panic IndexOutOfRange
        else if v > -1 \<and> \<not> i < length keys then Panic IndexOutOfRange
        else
          let msg = (if v > -1 then case rs ! nat v of None \<Rightarrow> [] | Some m \<Rightarrow> m else []);
              key = (if v > -1 then Some (keys ! i) else StaleKey rk i);
              (msg, key) = (if length msg \<noteq> replyMsgSize
                            then (replicate replyMsgSize 0, Some (FreshKey rk i)) else (msg, key)) in
          case key of
            None \<Rightarrow> Panic NilDereference
          | Some k \<Rightarrow> Ok (SealAfterPrecomputation P msg (BackwardNonce round) k))"

definition replyMsgSize :: "'d mix_service \<Rightarrow> 'd round_state \<Rightarrow> nat" where
  "replyMsgSize service st =
     (length (chain st) - myPos st - 1) * box_Overhead + SizeReplyMessage service"

definition encryptReplies ::
  "nacl \<Rightarrow> reply_keys \<Rightarrow> 'd mix_service \<Rightarrow> u32 \<Rightarrow> bytes option list \<Rightarrow> 'd round_state \<Rightarrow>
   (mix_err, 'd round_state) outcome" where
  "encryptReplies P rk service round rs st =
     obind (omap (encrypt_reply P round (replyMsgSize service st) rk (sharedKeys st) rs)
              (zip [0..<length (incomingIndex st)] (incomingIndex st))) (\<lambda>out.
       if encryptDone st then Panic CloseOfClosedChannel
       else Ok (st\<lparr>replies := out, encryptDone := True\<rparr>))"

section \<open>CloseRound\<close>

text \<open>
  The handler's first critical section: the reply of a round that is closed already, or the switch
  that refuses new jobs.
\<close>

datatype close_step = AlreadyClosed string | Proceed

definition closeRound_check ::
  "'d server \<Rightarrow> ctx_peer \<Rightarrow> string \<Rightarrow> u32 \<Rightarrow> 'd server \<times> (mix_err, close_step) outcome" where
  "closeRound_check srv ctx service round =
     sbind srv (getRound srv service round) (\<lambda>st.
     sbind srv (authPrev srv ctx st) (\<lambda>_.
       if muHeld st then (srv, Hang)
       else if closed st then
         (srv, case roundErr st of Some e \<Rightarrow> Err e | None \<Rightarrow> Ok (AlreadyClosed (closeResult st)))
       else (put_round srv (service, round) (st\<lparr>acceptingOnions := False\<rparr>), Ok Proceed)))"

text \<open>\<open>st.decryptWg.Wait()\<close>: every job that was queued has run.\<close>

definition drain_jobs :: "nacl \<Rightarrow> 'd round_state \<Rightarrow> (mix_err, 'd round_state) outcome" where
  "drain_jobs P st = ofold (decryptionWorker P) (decryptJobs st) (st\<lparr>decryptJobs := []\<rparr>)"

text \<open>
  The second critical section up to the outgoing batch: filter, wait for the noise, append it. The
  result is the state, the batch and the number of messages that are not noise.
\<close>

definition closeRound_collect ::
  "nacl \<Rightarrow> 'd round_state \<Rightarrow> (mix_err, 'd round_state \<times> bytes list \<times> nat) outcome" where
  "closeRound_collect P st =
     obind (drain_jobs P st) (\<lambda>st1.
     obind (filterIncoming (st1\<lparr>closed := True\<rparr>)) (\<lambda>st2.
       case noiseDone st2 of
         None \<Rightarrow> Hang
       | Some False \<Rightarrow> Hang
       | Some True \<Rightarrow>
         let valid = map the (incoming st2); outgoing = valid @ noise st2 in
         Ok (st2\<lparr>noise := [], incoming := []\<rparr>, outgoing, length valid)))"

text \<open>The last server of the chain: hand the batch to the service.\<close>

definition closeRound_last ::
  "nacl \<Rightarrow> reply_keys \<Rightarrow> 'd server \<Rightarrow> string \<Rightarrow> u32 \<Rightarrow> 'd round_state \<Rightarrow> bytes list \<Rightarrow>
   'd server \<times> (mix_err, string) outcome" where
  "closeRound_last P rk srv service round st outgoing =
     (let k = (service, round) in
      case Services srv service of
        None \<Rightarrow> (srv, Panic NilDereference)
      | Some svc \<Rightarrow>
        (case HandleMessages svc (settings st) outgoing of
           Err e \<Rightarrow> (put_round srv k (st\<lparr>roundErr := Some e\<rparr>), Err e)
         | Panic p \<Rightarrow> (srv, Panic p)
         | Hang \<Rightarrow> (srv, Hang)
         | Ok result \<Rightarrow>
           if bidirectional st then
             (case result of
                HandledReplies rs \<Rightarrow>
                  sbind srv (encryptReplies P rk svc round rs st)
                    (\<lambda>st'. (put_round srv k st', Ok []))
              | HandledString _ \<Rightarrow> (srv, Panic FailedTypeAssertion))
           else
             (case result of
                HandledString r \<Rightarrow> (put_round srv k (st\<lparr>closeResult := r\<rparr>), Ok r)
              | HandledReplies _ \<Rightarrow> (srv, Panic FailedTypeAssertion))))"

section \<open>GetOnions and DeleteRound\<close>

record get_onions_request =
  go_Service :: string
  go_Round :: u32
  go_Offset :: u32
  go_Count :: u32

text \<open>
  \<open>concurrency.Spans\<close> is a parameter: it cuts a range into consecutive non-empty spans (start, count)
  of at most the given size. The result is the list of messages the stream carries.
\<close>

type_synonym spans_fun = "nat \<Rightarrow> nat \<Rightarrow> (nat \<times> nat) list"

definition spans_ok :: "spans_fun \<Rightarrow> bool" where
  "spans_ok S \<longleftrightarrow>
     (\<forall>n k. 0 < k \<longrightarrow> concat (map (\<lambda>(s, c). [s..<s + c]) (S n k)) = [0..<n] \<and>
            list_all (\<lambda>(s, c). 0 < c \<and> c \<le> k) (S n k))"

definition getOnions ::
  "spans_fun \<Rightarrow> 'd server \<Rightarrow> ctx_peer \<Rightarrow> get_onions_request \<Rightarrow>
   (mix_err, add_onions_request list) outcome" where
  "getOnions S srv ctx req =
     obind (getRound srv (go_Service req) (go_Round req)) (\<lambda>st.
       if \<not> bidirectional st then Err (GetOnionsUnidirectional (go_Service req))
       else obind (authPrev srv ctx st) (\<lambda>_.
         if \<not> encryptDone st then Hang
         else if go_Offset req + go_Count req > word_of_nat (length (replies st))
         then Err (InvalidOffsetCount (go_Offset req) (go_Count req) (length (replies st)))
         else
           let lo = unat (go_Offset req); hi = unat (go_Offset req + go_Count req) in
           if hi < lo then Panic SliceOutOfRange
           else
             let rs = slice lo hi (replies st) in
             Ok (map (\<lambda>(s, c). \<lparr>Offset = go_Offset req + word_of_nat s,
                                Onions = slice s (s + c) rs\<rparr>) (S (length rs) 16))))"

definition deleteRound ::
  "'d server \<Rightarrow> ctx_peer \<Rightarrow> string \<Rightarrow> u32 \<Rightarrow> 'd server \<times> (mix_err, unit) outcome" where
  "deleteRound srv ctx service round =
     sbind srv (getRound srv service round) (\<lambda>st.
     sbind srv (authPrev srv ctx st) (\<lambda>_.
       (srv\<lparr>rounds := (rounds srv)((service, round) := None)\<rparr>, Ok ())))"

section \<open>Lemmas: authentication and lookup\<close>

lemma auth_Ok_iff [simp]: "auth ctx k = Ok u \<longleftrightarrow> ctx = Some (TLSInfo [Ed25519Key k])"
  by (auto simp: auth_def split: option.splits auth_info.splits list.splits cert_key.splits)

definition prev_key :: "'d server \<Rightarrow> 'd round_state \<Rightarrow> bytes" where
  "prev_key srv st =
     (if myPos st = 0 then CoordinatorKey srv else Key (chain st ! (myPos st - 1)))"

lemma authPrev_Ok_iff:
  "authPrev srv ctx st = Ok u \<longleftrightarrow>
     (myPos st = 0 \<or> myPos st - 1 < length (chain st)) \<and>
     ctx = Some (TLSInfo [Ed25519Key (prev_key srv st)])"
  by (auto simp: authPrev_def prev_key_def)

lemma getRound_Ok_iff [simp]: "getRound srv s r = Ok st \<longleftrightarrow> rounds srv (s, r) = Some st"
  by (auto simp: getRound_def split: option.splits)

section \<open>Lemmas: filterIncoming keeps the first message of every key\<close>

definition tail8 :: "bytes \<Rightarrow> bytes" where
  "tail8 m = drop (length m - 8) m"

fun kept :: "bytes set \<Rightarrow> bytes option list \<Rightarrow> bytes list" where
  "kept S [] = []"
| "kept S (None # ms) = kept S ms"
| "kept S (Some m # ms) =
     (if tail8 m \<in> S then kept S ms else m # kept (insert (tail8 m) S) ms)"

fun kept_index :: "bytes set \<Rightarrow> nat \<Rightarrow> bytes option list \<Rightarrow> int list" where
  "kept_index S n [] = []"
| "kept_index S n (None # ms) = -1 # kept_index S n ms"
| "kept_index S n (Some m # ms) =
     (if tail8 m \<in> S then -1 # kept_index S n ms
      else int n # kept_index (insert (tail8 m) S) (Suc n) ms)"

abbreviation long_msgs :: "bytes option list \<Rightarrow> bool" where
  "long_msgs ms \<equiv> (\<forall>m. Some m \<in> set ms \<longrightarrow> 8 \<le> length m)"

lemma length_tail8: "8 \<le> length m \<Longrightarrow> length (tail8 m) = 8"
  by (simp add: tail8_def)

lemma filter_loop_kept:
  assumes "long_msgs ms" and "\<And>m. 8 \<le> length m \<Longrightarrow> seen (Uint64 (tail8 m)) \<longleftrightarrow> tail8 m \<in> S"
  shows "filter_loop ms seen valid index =
    Ok (valid @ kept S ms, index @ kept_index S (length valid) ms)"
  using assms
proof (induction ms seen valid index arbitrary: S rule: filter_loop.induct)
  case (3 msg ms seen valid index)
  have len: "8 \<le> length msg" using "3.prems"(1) by simp
  have seen: "seen (Uint64 (tail8 msg)) \<longleftrightarrow> tail8 msg \<in> S" using "3.prems"(2) len .
  show ?case
  proof (cases "tail8 msg \<in> S")
    case True
    then show ?thesis using "3.IH"(1) [of "Uint64 (tail8 msg)" S] "3.prems" len seen
      by (simp add: Let_def tail8_def [symmetric])
  next
    case False
    have "(seen(Uint64 (tail8 msg) := True)) (Uint64 (tail8 m)) \<longleftrightarrow> tail8 m \<in> insert (tail8 msg) S"
      if "8 \<le> length m" for m
      using that "3.prems"(2) [OF that] len by (auto simp: Uint64_inject length_tail8)
    then show ?thesis
      using False "3.IH"(2) [of "Uint64 (tail8 msg)" "insert (tail8 msg) S"] "3.prems"(1) len seen
      by (simp add: Let_def tail8_def [symmetric] fun_upd_def)
  qed
qed auto

lemma filterIncoming_kept:
  "long_msgs (incoming st) \<Longrightarrow>
   filterIncoming st = Ok (st\<lparr>incoming := map Some (kept {} (incoming st)),
                              incomingIndex := kept_index {} 0 (incoming st)\<rparr>)"
  by (simp add: filterIncoming_def filter_loop_kept [where S = "{}"])

lemma length_kept_index [simp]: "length (kept_index S n ms) = length ms"
  by (induction S n ms rule: kept_index.induct) auto

lemma kept_tails: "tail8 ` set (kept S ms) = {tail8 m |m. Some m \<in> set ms} - S"
  by (induction S ms rule: kept.induct) auto

lemma distinct_kept: "distinct (map tail8 (kept S ms))"
  by (induction S ms rule: kept.induct) (auto simp: kept_tails simp flip: image_image)

definition is_dup :: "bytes set \<Rightarrow> bytes option list \<Rightarrow> nat \<Rightarrow> bool" where
  "is_dup S ms i \<longleftrightarrow>
     (case ms ! i of None \<Rightarrow> True
      | Some m \<Rightarrow> tail8 m \<in> S \<or> (\<exists>j < i. \<exists>m'. ms ! j = Some m' \<and> tail8 m' = tail8 m))"

lemma kept_index_spec:
  "i < length ms \<Longrightarrow>
   (if is_dup S ms i then kept_index S n ms ! i = -1
    else \<exists>v. kept_index S n ms ! i = int v \<and> n \<le> v \<and> v - n < length (kept S ms) \<and>
             ms ! i = Some (kept S ms ! (v - n)))"
proof (induction S n ms arbitrary: i rule: kept_index.induct)
  case (2 S n ms)
  show ?case
  proof (cases i)
    case 0
    then show ?thesis by (simp add: is_dup_def)
  next
    case (Suc j)
    have "is_dup S (None # ms) (Suc j) \<longleftrightarrow> is_dup S ms j"
      by (auto simp: is_dup_def less_Suc_eq_0_disj split: option.splits)
    with 2 Suc show ?thesis by (auto split: if_splits)
  qed
next
  case (3 S n m ms)
  show ?case
  proof (cases i)
    case 0
    then show ?thesis by (auto simp: is_dup_def)
  next
    case (Suc j)
    show ?thesis
    proof (cases "tail8 m \<in> S")
      case True
      have "is_dup S (Some m # ms) (Suc j) \<longleftrightarrow> is_dup S ms j"
        using True by (auto simp: is_dup_def less_Suc_eq_0_disj split: option.splits)
      with True 3 Suc show ?thesis by (auto split: if_splits)
    next
      case False
      have dup: "is_dup S (Some m # ms) (Suc j) \<longleftrightarrow> is_dup (insert (tail8 m) S) ms j"
        by (auto simp: is_dup_def less_Suc_eq_0_disj split: option.splits)
      have "j < length ms" using "3.prems" Suc by simp
      from "3.IH"(2) [OF False this] show ?thesis
        using False Suc dup by (auto simp: Suc_diff_Suc nth_Cons' Suc_le_eq split: if_splits)
    qed
  qed
qed simp

section \<open>Lemmas: decryption fills the slots\<close>

definition slot_key :: "nacl \<Rightarrow> 'd round_state \<Rightarrow> bytes \<Rightarrow> bytes" where
  "slot_key P st onion = Precompute P (take 32 onion) (onionPrivateKey st)"

definition slot_msg :: "nacl \<Rightarrow> u32 \<Rightarrow> 'd round_state \<Rightarrow> bytes \<Rightarrow> bytes option" where
  "slot_msg P r st onion =
     (if bidirectional st
      then OpenAfterPrecomputation P (drop 32 onion) (ForwardNonce r) (slot_key P st onion)
      else BoxOpen P (drop 32 onion) (ForwardNonce r) (take 32 onion) (onionPrivateKey st))"

definition right_size :: "'d round_state \<Rightarrow> bytes \<Rightarrow> bool" where
  "right_size st onion \<longleftrightarrow> length onion = incomingOnionSize st"

definition job_pairs :: "decryption_job \<Rightarrow> (nat \<times> bytes) list" where
  "job_pairs j = zip [unat (Offset (jobReq j)) ..< unat (Offset (jobReq j)) + length (Onions (jobReq j))]
                     (Onions (jobReq j))"

definition decrypted :: "nacl \<Rightarrow> u32 \<Rightarrow> (nat \<times> bytes) list \<Rightarrow> 'd round_state \<Rightarrow> 'd round_state" where
  "decrypted P r xs st =
     st\<lparr>sharedKeys := (if bidirectional st
                        then write_slots (right_size st) (slot_key P st) xs (sharedKeys st)
                        else sharedKeys st),
        incoming := write_slots (right_size st) (slot_msg P r st) xs (incoming st)\<rparr>"

definition slots_alloc :: "'d round_state \<Rightarrow> bool" where
  "slots_alloc st \<longleftrightarrow> 32 \<le> incomingOnionSize st \<and>
     (bidirectional st \<longrightarrow> length (sharedKeys st) = length (incoming st))"

lemma decrypt_onion_Ok:
  assumes "slots_alloc st" and "i < length (incoming st)"
  shows "decrypt_onion P r (i, onion) st = Ok (decrypted P r [(i, onion)] st)"
  using assms
  by (auto simp: decrypt_onion_def decrypted_def slots_alloc_def right_size_def slot_msg_def
      slot_key_def Let_def)

lemma decrypted_Nil [simp]: "decrypted P r [] st = st"
  by (simp add: decrypted_def)

lemma slot_frame [simp]:
  "right_size (st\<lparr>incoming := a\<rparr>) = right_size st"
  "right_size (st\<lparr>sharedKeys := b\<rparr>) = right_size st"
  "slot_key P (st\<lparr>incoming := a\<rparr>) = slot_key P st"
  "slot_key P (st\<lparr>sharedKeys := b\<rparr>) = slot_key P st"
  "slot_msg P r (st\<lparr>incoming := a\<rparr>) = slot_msg P r st"
  "slot_msg P r (st\<lparr>sharedKeys := b\<rparr>) = slot_msg P r st"
  by (auto simp: right_size_def slot_key_def slot_msg_def)

lemma decrypted_Cons:
  "decrypted P r (x # xs) st = decrypted P r xs (decrypted P r [x] st)"
  by (cases x) (simp add: decrypted_def)

lemma decrypted_frame [simp]:
  "length (incoming (decrypted P r xs st)) = length (incoming st)"
  "length (sharedKeys (decrypted P r xs st)) = length (sharedKeys st)"
  "slots_alloc (decrypted P r xs st) = slots_alloc st"
  by (auto simp: decrypted_def slots_alloc_def)

lemma ofold_decrypt:
  assumes "slots_alloc st" and "\<forall>i \<in> fst ` set xs. i < length (incoming st)"
  shows "ofold (decrypt_onion P r) xs st = Ok (decrypted P r xs st)"
  using assms
proof (induction xs arbitrary: st)
  case (Cons x xs)
  then show ?case
    by (cases x) (auto simp: decrypt_onion_Ok decrypted_Cons [of P r "(_, _)" xs])
qed simp

lemma decryptionWorker_pairs:
  "jobRound j = r \<Longrightarrow> decryptionWorker P j = ofold (decrypt_onion P r) (job_pairs j)"
  by (auto simp: decryptionWorker_def job_pairs_def)

lemma drain_jobs_pairs:
  assumes "\<forall>j \<in> set (decryptJobs st). jobRound j = r"
  shows "drain_jobs P st =
    ofold (decrypt_onion P r) (concat (map job_pairs (decryptJobs st))) (st\<lparr>decryptJobs := []\<rparr>)"
  unfolding drain_jobs_def ofold_concat [symmetric] ofold_map
  using assms by (intro ofold_cong) (simp add: decryptionWorker_pairs)

text \<open>Every pending job is for this round and writes only to slots that exist.\<close>

definition jobs_in_range :: "u32 \<Rightarrow> 'd round_state \<Rightarrow> bool" where
  "jobs_in_range r st \<longleftrightarrow>
     list_all (\<lambda>j. jobRound j = r \<and> list_all (\<lambda>(i, _). i < length (incoming st)) (job_pairs j))
       (decryptJobs st)"

lemma job_pairs_bound:
  "x \<in> set (job_pairs j) \<Longrightarrow> fst x < unat (Offset (jobReq j)) + length (Onions (jobReq j))"
  by (cases x) (auto simp: job_pairs_def dest: set_zip_leftD)

lemma drain_jobs_Ok:
  assumes "jobs_in_range r st" and "slots_alloc st"
  shows "drain_jobs P st =
    Ok (decrypted P r (concat (map job_pairs (decryptJobs st))) (st\<lparr>decryptJobs := []\<rparr>))"
proof -
  have "drain_jobs P st =
    ofold (decrypt_onion P r) (concat (map job_pairs (decryptJobs st))) (st\<lparr>decryptJobs := []\<rparr>)"
    using assms(1) by (intro drain_jobs_pairs) (simp add: jobs_in_range_def list_all_iff)
  also have "\<dots> = Ok (decrypted P r (concat (map job_pairs (decryptJobs st))) (st\<lparr>decryptJobs := []\<rparr>))"
    using assms
    by (intro ofold_decrypt) (fastforce simp: slots_alloc_def jobs_in_range_def list_all_iff)+
  finally show ?thesis .
qed

end
