(* ===== verification/Mix_Rounds.thy ===== *)
theory Mix_Rounds
  imports Mix_Server
begin

text \<open>
  What the mix server guarantees: the invariant of its rounds under every interleaving of the six
  RPCs and the decryption workers, authentication of every call, the signature over the settings,
  the slots the workers fill, the filter, the replies and the messages \<open>GetOnions\<close> streams.
\<close>

lemma auth_self [simp]: "auth (Some (TLSInfo [Ed25519Key k])) k = Ok ()"
  by simp

lemma put_round_simps [simp]:
  "rounds (put_round srv k st) = (rounds srv)(k \<mapsto> st)"
  "Services (put_round srv k st) = Services srv"
  "SigningKey (put_round srv k st) = SigningKey srv"
  "CoordinatorKey (put_round srv k st) = CoordinatorKey srv"
  by (simp_all add: put_round_def)

lemma parse_chain_Ok:
  assumes "parse_chain pk i cs pos = Ok (ch, p)"
  shows "length ch = length cs" and "list_all (\<lambda>c. length (Key c) = PublicKeySize) ch"
    and "p = pos \<or> (\<exists>j < length ch. p = Some (i + j) \<and> Key (ch ! j) = pk)"
  using assms
proof (induction pk i cs pos arbitrary: ch p rule: parse_chain.induct)
  case (2 pk i conf rest pos)
  {
    case 1
    with 2 show ?case by auto
  next
    case 2
    with "2.IH" show ?case by (auto simp: psc_FromProto_Ok_iff)
  next
    case 3
    then obtain c cs where c: "psc_FromProto conf = Ok c" and ch: "ch = c # cs"
      and rec: "parse_chain pk (Suc i) rest (if pb_Key conf = pk then Some i else pos) = Ok (cs, p)"
      by auto
    have "Key c = pb_Key conf" using c by (auto simp: psc_FromProto_Ok_iff psc_Proto_def)
    with "2.IH"(3) [OF c rec] ch show ?case by (fastforce split: if_splits)
  }
qed auto

definition round_inv ::
  "nacl \<Rightarrow> settings_encoder \<Rightarrow> 'd server \<Rightarrow> service_round \<Rightarrow> 'd round_state \<Rightarrow> bool" where
  "round_inv P enc srv k st \<longleftrightarrow>
     (case Services srv (fst k) of
        None \<Rightarrow> False
      | Some svc \<Rightarrow>
          bidirectional st = Bidirectional svc \<and>
          incomingOnionSize st =
            (length (chain st) - myPos st) * onionbox_Overhead + SizeIncomingMessage svc) \<and>
     myPos st < length (chain st) \<and>
     Key (chain st ! myPos st) = Ed25519Public P (SigningKey srv) \<and>
     list_all (\<lambda>c. length (Key c) = PublicKeySize) (chain st) \<and>
     (case settingsSignature st of
        None \<Rightarrow> noiseDone st = None
      | Some sig \<Rightarrow>
          sig = Ed25519Sign P (SigningKey srv) (SigningMessage enc (settings st)) \<and>
          Service (settings st) = fst k \<and> Round (settings st) = snd k \<and>
          length (OnionKeys (settings st)) = length (chain st) \<and>
          OnionKeys (settings st) ! myPos st = onionPublicKey st \<and> noiseDone st \<noteq> None) \<and>
     (numIncoming st = 0 \<longrightarrow> incomingIndex st = [] \<and> incoming st = []) \<and>
     (\<not> closed st \<longrightarrow> length (incoming st) = unat (numIncoming st)) \<and>
     (bidirectional st \<longrightarrow>
        length (incomingIndex st) \<le> length (sharedKeys st) \<and>
        length (incoming st) \<le> length (sharedKeys st) \<and>
        (\<not> closed st \<longrightarrow> length (sharedKeys st) = length (incoming st)))"

definition server_inv :: "nacl \<Rightarrow> settings_encoder \<Rightarrow> 'd server \<Rightarrow> bool" where
  "server_inv P enc srv \<longleftrightarrow> (\<forall>k st. rounds srv k = Some st \<longrightarrow> round_inv P enc srv k st)"

lemma round_inv_frame:
  "Services srv' = Services srv \<Longrightarrow> SigningKey srv' = SigningKey srv \<Longrightarrow>
   round_inv P enc srv' k st = round_inv P enc srv k st"
  by (simp only: round_inv_def)

lemma round_inv_rounds [simp]:
  "round_inv P enc (srv\<lparr>rounds := m\<rparr>) k st = round_inv P enc srv k st"
  by (rule round_inv_frame) simp_all

lemma server_inv_put:
  "server_inv P enc srv \<Longrightarrow> round_inv P enc srv k st \<Longrightarrow> server_inv P enc (put_round srv k st)"
  by (auto simp: server_inv_def put_round_def)

lemma server_invD: "server_inv P enc srv \<Longrightarrow> rounds srv k = Some st \<Longrightarrow> round_inv P enc srv k st"
  unfolding server_inv_def by blast

lemma newRound_inv:
  assumes "server_inv P enc srv" and "newRound P srv ctx req kp = (srv', r)"
  shows "server_inv P enc srv'"
proof (cases "srv' = srv")
  case False
  then obtain svc pub priv ch p where svc: "Services srv (nr_Service req) = Some svc"
    and ch: "parse_chain (Ed25519Public P (SigningKey srv)) 0 (nr_Chain req) None = Ok (ch, Some p)"
    and srv': "srv' = put_round srv (nr_Service req, nr_Round req) (new_round_state svc ch p pub priv)"
    using assms(2)
    by (auto simp: newRound_def sbind_def split: outcome.splits option.splits prod.splits)
  have "round_inv P enc srv (nr_Service req, nr_Round req) (new_round_state svc ch p pub priv)"
    using svc parse_chain_Ok(2,3) [OF ch] by (auto simp: round_inv_def new_round_state_def)
  then show ?thesis unfolding srv' using assms(1) by (rule server_inv_put [rotated])
qed (use assms in simp)


lemma settings_FromProto_fields:
  "settings_FromProto pbs = Ok s \<Longrightarrow> Service s = pbs_Service pbs \<and> Round s = pbs_Round pbs \<and>
   OnionKeys s = map (take 32) (pbs_OnionKeys pbs) \<and> RawServiceData s = pbs_ServiceData pbs"
  by (auto simp: settings_FromProto_def keys_FromProto_Ok_iff)


lemma sign_settings_cases:
  assumes "sign_settings P enc srv service s st = (srv', r)"
  obtains (unchanged) "srv' = srv" and "\<And>sig. r = Ok sig \<Longrightarrow> settingsSignature st = Some sig"
  | (signed) sig ns nd where "settingsSignature st = None" and "\<not> muHeld st"
      and "length (OnionKeys s) = length (chain st)"
      and "OnionKeys s ! myPos st = onionPublicKey st"
      and "sig = Ed25519Sign P (SigningKey srv) (SigningMessage enc s)"
      and "srv' = put_round srv (Service s, Round s)
        (st\<lparr>settings := s, settingsSignature := Some sig, noise := ns, noiseDone := Some nd\<rparr>)"
      and "\<And>x. r = Ok x \<Longrightarrow> x = sig \<and> nd"
proof -
  show ?thesis
  proof (cases "muHeld st \<or> settingsSignature st \<noteq> None \<or> length (OnionKeys s) \<noteq> length (chain st) \<or>
      \<not> myPos st < length (OnionKeys s) \<or> OnionKeys s ! myPos st \<noteq> onionPublicKey st")
    case True
    then show ?thesis
      using assms by (intro unchanged) (auto simp: sign_settings_def split: if_splits option.splits)
  next
    case False
    let ?sig = "Ed25519Sign P (SigningKey srv) (SigningMessage enc s)"
    let ?st = "\<lambda>ns nd. st\<lparr>settings := s, settingsSignature := Some ?sig, noise := ns, noiseDone := Some nd\<rparr>"
    have old: "?st (noise st) False = st\<lparr>settings := s, settingsSignature := Some ?sig, noiseDone := Some False\<rparr>"
      by simp
    show ?thesis
    proof (cases "\<exists>ns. GenerateNoise service s (myPos st) = Ok ns")
      case True
      then obtain ns where "GenerateNoise service s (myPos st) = Ok ns" by blast
      with False assms have "srv' = put_round srv (Service s, Round s) (?st ns True)" "r = Ok ?sig"
        by (auto simp: sign_settings_def Let_def)
      with False show ?thesis by (intro signed [where sig = ?sig and ns = ns and nd = True]) auto
    next
      case noNoise: False
      with False assms have "srv' = put_round srv (Service s, Round s) (?st (noise st) False)" "\<not> is_Ok r"
        by (auto simp: sign_settings_def Let_def sbind_def old split: outcome.splits)
      with False show ?thesis
        by (intro signed [where sig = ?sig and ns = "noise st" and nd = False]) (auto simp: is_Ok_iff)
    qed
  qed
qed

lemma setRoundSettings_cases:
  fixes srv :: "'d server"
  assumes "setRoundSettings P enc srv ctx req = (srv', r)"
  obtains (failed) "srv' = srv" and "\<not> is_Ok r"
  | (locked) pbs s st service where "req = Some pbs"
      and "ctx = Some (TLSInfo [Ed25519Key (CoordinatorKey srv)])"
      and "Service s = pbs_Service pbs" and "Round s = pbs_Round pbs"
      and "rounds srv (Service s, Round s) = Some st" and "Services srv (Service s) = Some service"
      and "sign_settings P enc srv service s st = (srv', r)"
      and "OnionKeys s = map (take 32) (pbs_OnionKeys pbs)" and "RawServiceData s = pbs_ServiceData pbs"
proof (cases "\<exists>pbs s0 st service d. req = Some pbs \<and>
    settings_FromProto pbs = Ok (s0 :: 'd round_settings) \<and>
    ctx = Some (TLSInfo [Ed25519Key (CoordinatorKey srv)]) \<and>
    rounds srv (Service s0, Round s0) = Some st \<and> Services srv (Service s0) = Some service \<and>
    ParseServiceData service (RawServiceData s0) = Ok d")
  case True
  then obtain pbs s0 st service d where *: "req = Some pbs"
    "settings_FromProto pbs = Ok (s0 :: 'd round_settings)"
    "ctx = Some (TLSInfo [Ed25519Key (CoordinatorKey srv)])"
    "rounds srv (Service s0, Round s0) = Some st" "Services srv (Service s0) = Some service"
    "ParseServiceData service (RawServiceData s0) = Ok d" by blast
  with assms settings_FromProto_fields [OF *(2)] show ?thesis
    by (intro locked [of pbs "s0\<lparr>ServiceData := d\<rparr>" st service])
      (auto simp: setRoundSettings_def getRound_def)
next
  case False
  with assms show ?thesis
    by (intro failed) (auto simp: setRoundSettings_def sbind_def split: outcome.splits option.splits)
qed

lemma setRoundSettings_inv:
  assumes "server_inv P enc srv" and "setRoundSettings P enc srv ctx req = (srv', r)"
  shows "server_inv P enc srv'"
  using assms(2)
proof (cases rule: setRoundSettings_cases)
  case (locked pbs s st service)
  from locked(7) show ?thesis
  proof (cases rule: sign_settings_cases)
    case (signed sig ns nd)
    have "round_inv P enc srv (Service s, Round s) st" using assms(1) locked(5) by (rule server_invD)
    then have "round_inv P enc srv (Service s, Round s)
        (st\<lparr>settings := s, settingsSignature := Some sig, noise := ns, noiseDone := Some nd\<rparr>)"
      using signed by (auto simp: round_inv_def split: option.splits)
    with assms(1) signed(6) show ?thesis by (simp add: server_inv_put)
  qed (use assms in simp)
qed (use assms in simp)


section \<open>The server as a transition system\<close>

lemma closed_slots_frame:
  "round_inv P enc srv k st \<Longrightarrow> round_inv P enc srv k (st\<lparr>acceptingOnions := a\<rparr>)"
  "round_inv P enc srv k st \<Longrightarrow> round_inv P enc srv k (st\<lparr>decryptJobs := js\<rparr>)"
  "round_inv P enc srv k st \<Longrightarrow> round_inv P enc srv k (st\<lparr>muHeld := b\<rparr>)"
  "round_inv P enc srv k st \<Longrightarrow> round_inv P enc srv k (st\<lparr>roundErr := e\<rparr>)"
  "round_inv P enc srv k st \<Longrightarrow> round_inv P enc srv k (st\<lparr>closeResult := c\<rparr>)"
  "round_inv P enc srv k st \<Longrightarrow> round_inv P enc srv k (st\<lparr>noise := n\<rparr>)"
  "round_inv P enc srv k st \<Longrightarrow> round_inv P enc srv k (st\<lparr>replies := rs, encryptDone := d\<rparr>)"
  by (simp_all add: round_inv_def cong: option.case_cong)

lemma addOnions_open_cases:
  assumes "addOnions_open srv md ctx = (srv', r)"
  obtains (unchanged) "srv' = srv"
  | (opened) m st where "parseMetadata md = Ok m" and "rounds srv (md_service m, md_round m) = Some st"
      and "numIncoming st = 0" and "ctx = Some (TLSInfo [Ed25519Key (prev_key srv st)])"
      and "srv' = put_round srv (md_service m, md_round m) (alloc_slots (md_numIncoming m) st)"
proof (cases "srv' = srv")
  case False
  obtain m where m: "parseMetadata md = Ok m"
    using assms False by (cases "parseMetadata md") (auto simp: addOnions_open_def)
  obtain st where st: "rounds srv (md_service m, md_round m) = Some st"
    using assms False m
    by (cases "rounds srv (md_service m, md_round m)") (auto simp: addOnions_open_def getRound_def)
  show ?thesis
    using assms False m st
    by (intro opened [OF m st])
      (auto simp: addOnions_open_def sbind_def getRound_def authPrev_Ok_iff split: outcome.splits if_splits)
qed

lemma addOnions_open_inv:
  assumes "server_inv P enc srv" and "addOnions_open srv md ctx = (srv', r)"
  shows "server_inv P enc srv'"
  using assms(2)
proof (cases rule: addOnions_open_cases)
  case (opened m st)
  have "round_inv P enc srv (md_service m, md_round m) st"
    using assms(1) opened(2) by (rule server_invD)
  then show ?thesis unfolding opened(5) using opened(3)
    by (auto intro!: server_inv_put assms(1) simp: round_inv_def alloc_slots_def split: option.splits)
qed (use assms in simp)

lemma addOnions_recv_inv:
  assumes "server_inv P enc srv" and "addOnions_recv m num req srv = Ok srv'"
  shows "server_inv P enc srv'"
  using assms
  by (auto simp: addOnions_recv_def split: if_splits option.splits
      intro!: server_inv_put closed_slots_frame dest: server_invD)

definition same_slots :: "'d round_state \<Rightarrow> 'd round_state \<Rightarrow> bool" where
  "same_slots st st' \<longleftrightarrow>
     length (incoming st') = length (incoming st) \<and>
     length (sharedKeys st') = length (sharedKeys st) \<and>
     st' = st\<lparr>incoming := incoming st', sharedKeys := sharedKeys st'\<rparr>"

lemma decrypt_onion_same_slots:
  "decrypt_onion P r x st = Ok st' \<Longrightarrow> same_slots st st'"
  by (auto simp: decrypt_onion_def same_slots_def Let_def split: prod.splits if_splits)

lemma same_slots_trans: "same_slots a b \<Longrightarrow> same_slots b c \<Longrightarrow> same_slots a c"
  by (cases a; cases b; cases c) (auto simp: same_slots_def)

lemma same_slots_refl [simp]: "same_slots a a"
  by (simp add: same_slots_def)

lemma decryptionWorker_same_slots:
  "decryptionWorker P j st = Ok st' \<Longrightarrow> same_slots st st'"
  unfolding decryptionWorker_def
  by (erule ofold_invariant [where P = "same_slots st"])
    (auto intro: same_slots_trans decrypt_onion_same_slots)

lemma drain_jobs_same_slots: "drain_jobs P st = Ok st' \<Longrightarrow> same_slots (st\<lparr>decryptJobs := []\<rparr>) st'"
  unfolding drain_jobs_def
  by (erule ofold_invariant [where P = "same_slots (st\<lparr>decryptJobs := []\<rparr>)"])
    (auto intro: same_slots_trans decryptionWorker_same_slots)

lemma round_inv_same_slots:
  assumes "same_slots st st'" and "round_inv P enc srv k st"
  shows "round_inv P enc srv k st'"
proof -
  obtain a b where st': "st' = st\<lparr>incoming := a, sharedKeys := b\<rparr>"
    and "length a = length (incoming st)" "length b = length (sharedKeys st)"
    using assms(1) unfolding same_slots_def by blast
  with assms(2) show ?thesis unfolding st' by (auto simp: round_inv_def split: option.splits)
qed

lemma filter_loop_length:
  "filter_loop ms seen valid index = Ok (v, ix) \<Longrightarrow> length ix = length index + length ms"
  by (induction ms seen valid index rule: filter_loop.induct) (auto simp: Let_def split: if_splits)

lemma closeRound_collect_inv:
  assumes "round_inv P enc srv k st" and "closeRound_collect P st = Ok (st', out, n)"
  shows "round_inv P enc srv k st'"
proof -
  obtain st1 v ix where d: "drain_jobs P st = Ok st1"
    and f: "filter_loop (incoming st1) (\<lambda>_. False) [] [] = Ok (v, ix)"
    and st': "st' = st1\<lparr>closed := True, incomingIndex := ix, noise := [], incoming := []\<rparr>"
    using assms(2)
    by (auto simp: closeRound_collect_def filterIncoming_def Let_def split: option.splits bool.splits)
  have inv: "round_inv P enc srv k st1"
    using drain_jobs_same_slots [OF d] closed_slots_frame(2) [OF assms(1)] by (rule round_inv_same_slots)
  have "length ix = length (incoming st1)" using filter_loop_length [OF f] by simp
  then show ?thesis unfolding st' using inv
    by (auto simp: round_inv_def split: option.splits)
qed


lemma encryptReplies_frame:
  "encryptReplies P rk svc r rs st = Ok st' \<Longrightarrow>
   st' = st\<lparr>replies := replies st', encryptDone := True\<rparr> \<and> \<not> encryptDone st"
  by (auto simp: encryptReplies_def split: if_splits)

inductive srv_step :: "nacl \<Rightarrow> settings_encoder \<Rightarrow> 'd server \<Rightarrow> 'd server \<Rightarrow> bool"
  for P enc where
  rpc_NewRound: "newRound P srv ctx req kp = (srv', r) \<Longrightarrow> srv_step P enc srv srv'"
| rpc_SetRoundSettings:
    "setRoundSettings P enc srv ctx sreq = (srv', r) \<Longrightarrow> srv_step P enc srv srv'"
| rpc_AddOnions_open: "addOnions_open srv md ctx = (srv', r) \<Longrightarrow> srv_step P enc srv srv'"
| rpc_AddOnions_recv: "addOnions_recv m num areq srv = Ok srv' \<Longrightarrow> srv_step P enc srv srv'"
| worker: "rounds srv k = Some st \<Longrightarrow> decryptJobs st = js @ j # js' \<Longrightarrow>
    decryptionWorker P j (st\<lparr>decryptJobs := js @ js'\<rparr>) = Ok st' \<Longrightarrow>
    srv_step P enc srv (put_round srv k st')"
| rpc_CloseRound_check:
    "closeRound_check srv ctx service round = (srv', r) \<Longrightarrow> srv_step P enc srv srv'"
| rpc_CloseRound_collect: "rounds srv k = Some st \<Longrightarrow> closeRound_collect P st = Ok (st', out, n) \<Longrightarrow>
    srv_step P enc srv (put_round srv k (st'\<lparr>muHeld := True\<rparr>))"
| rpc_CloseRound_replies: "rounds srv k = Some st \<Longrightarrow> Services srv (fst k) = Some svc \<Longrightarrow>
    encryptReplies P rk svc (snd k) rs st = Ok st' \<Longrightarrow>
    srv_step P enc srv (put_round srv k (st'\<lparr>muHeld := False\<rparr>))"
| rpc_CloseRound_result: "rounds srv k = Some st \<Longrightarrow>
    srv_step P enc srv (put_round srv k (st\<lparr>closeResult := res, muHeld := False\<rparr>))"
| rpc_CloseRound_error: "rounds srv k = Some st \<Longrightarrow>
    srv_step P enc srv (put_round srv k (st\<lparr>roundErr := Some e, muHeld := False\<rparr>))"
| rpc_DeleteRound: "deleteRound srv ctx service round = (srv', r) \<Longrightarrow> srv_step P enc srv srv'"

inductive srv_reachable :: "nacl \<Rightarrow> settings_encoder \<Rightarrow> 'd server \<Rightarrow> bool" for P enc where
  start: "rounds srv = Map.empty \<Longrightarrow> srv_reachable P enc srv"
| step: "srv_reachable P enc srv \<Longrightarrow> srv_step P enc srv srv' \<Longrightarrow> srv_reachable P enc srv'"

lemma deleteRound_inv:
  "server_inv P enc srv \<Longrightarrow> deleteRound srv ctx s r = (srv', x) \<Longrightarrow> server_inv P enc srv'"
  by (auto simp: deleteRound_def sbind_def server_inv_def
      split: outcome.splits if_splits)

lemma closeRound_check_inv:
  "server_inv P enc srv \<Longrightarrow> closeRound_check srv ctx s r = (srv', x) \<Longrightarrow> server_inv P enc srv'"
  by (auto simp: closeRound_check_def sbind_def split: outcome.splits if_splits
      intro!: server_inv_put closed_slots_frame dest: server_invD)

lemma srv_step_inv: "srv_step P enc srv srv' \<Longrightarrow> server_inv P enc srv \<Longrightarrow> server_inv P enc srv'"
proof (induction rule: srv_step.induct)
  case (worker srv k st js j js' st')
  have "round_inv P enc srv k (st\<lparr>decryptJobs := js @ js'\<rparr>)"
    using server_invD [OF worker.prems worker.hyps(1)] by (rule closed_slots_frame(2))
  with decryptionWorker_same_slots [OF worker.hyps(3)] have "round_inv P enc srv k st'"
    by (rule round_inv_same_slots)
  with worker.prems show ?case by (rule server_inv_put)
next
  case (rpc_CloseRound_collect srv k st st' out n)
  have "round_inv P enc srv k st'"
    using server_invD [OF rpc_CloseRound_collect.prems rpc_CloseRound_collect.hyps(1)]
      rpc_CloseRound_collect.hyps(2) by (rule closeRound_collect_inv)
  then show ?case using rpc_CloseRound_collect.prems by (intro server_inv_put closed_slots_frame(3))
next
  case (rpc_CloseRound_replies srv k st svc rk rs st')
  have "round_inv P enc srv k (st\<lparr>replies := replies st', encryptDone := True\<rparr>)"
    using server_invD [OF rpc_CloseRound_replies.prems rpc_CloseRound_replies.hyps(1)]
    by (rule closed_slots_frame(7))
  then have "round_inv P enc srv k st'"
    using encryptReplies_frame [OF rpc_CloseRound_replies.hyps(3)] by simp
  then show ?case using rpc_CloseRound_replies.prems by (intro server_inv_put closed_slots_frame(3))
next
  case (rpc_CloseRound_result srv k st res)
  have "round_inv P enc srv k (st\<lparr>closeResult := res\<rparr>\<lparr>muHeld := False\<rparr>)"
    by (intro closed_slots_frame) (rule server_invD [OF rpc_CloseRound_result.prems rpc_CloseRound_result.hyps])
  then show ?case using rpc_CloseRound_result.prems by (auto intro: server_inv_put)
next
  case (rpc_CloseRound_error srv k st e)
  have "round_inv P enc srv k (st\<lparr>roundErr := Some e\<rparr>\<lparr>muHeld := False\<rparr>)"
    by (intro closed_slots_frame) (rule server_invD [OF rpc_CloseRound_error.prems rpc_CloseRound_error.hyps])
  then show ?case using rpc_CloseRound_error.prems by (auto intro: server_inv_put)
qed (blast intro: newRound_inv setRoundSettings_inv addOnions_open_inv addOnions_recv_inv
    closeRound_check_inv deleteRound_inv)+

lemma srv_reachable_inv: "srv_reachable P enc srv \<Longrightarrow> server_inv P enc srv"
proof (induction rule: srv_reachable.induct)
  case (start srv)
  then show ?case by (simp add: server_inv_def)
qed (rule srv_step_inv)

definition toy_tag :: "bytes \<Rightarrow> bytes \<Rightarrow> bytes" where
  "toy_tag n k = take 16 (k @ replicate 16 0)"

definition toy_nacl :: nacl where
  "toy_nacl =
     \<lparr>Precompute = (\<lambda>a b. map2 (+) a b),
      OpenAfterPrecomputation = (\<lambda>b n k. if 16 \<le> length b \<and> take 16 b = toy_tag n k then Some (drop 16 b) else None),
      SealAfterPrecomputation = (\<lambda>m n k. toy_tag n k @ m),
      BoxOpen = (\<lambda>b n pub priv. let k = map2 (+) pub priv in
        if 16 \<le> length b \<and> take 16 b = toy_tag n k then Some (drop 16 b) else None),
      Ed25519Sign = (\<lambda>sk m. sk @ m),
      Ed25519Verify = (\<lambda>pk m sig. sig = pk @ m),
      Ed25519Public = (\<lambda>sk. sk)\<rparr>"

lemma toy_nacl_ok: "box_roundtrip toy_nacl" "box_length toy_nacl" "ed25519_correct toy_nacl"
  by (auto simp: toy_nacl_def box_roundtrip_def box_length_def ed25519_correct_def toy_tag_def
      box_Overhead_def)

section \<open>Authentication and settings\<close>

lemma newRound_OkD:
  assumes "newRound P srv ctx req kp = (srv', Ok k)"
  shows "ctx = Some (TLSInfo [Ed25519Key (CoordinatorKey srv)])" and "CoordinatorKey srv' = CoordinatorKey srv"
    and "Services srv' = Services srv" and "Services srv (nr_Service req) \<noteq> None"
    and "\<exists>st. rounds srv' (nr_Service req, nr_Round req) = Some st \<and> onionPublicKey st = k"
proof -
  show c: "ctx = Some (TLSInfo [Ed25519Key (CoordinatorKey srv)])"
    using assms by (auto simp: newRound_def sbind_def split: outcome.splits)
  show s: "Services srv (nr_Service req) \<noteq> None" using assms c by (auto simp: newRound_def split: option.splits)
  show "CoordinatorKey srv' = CoordinatorKey srv" "Services srv' = Services srv"
    "\<exists>st. rounds srv' (nr_Service req, nr_Round req) = Some st \<and> onionPublicKey st = k"
    using assms s unfolding newRound_def c
    by (auto simp: sbind_def new_round_state_def split: outcome.splits option.splits prod.splits)
qed

text \<open>
  A repeated \<open>NewRound\<close> is idempotent: once a round exists, the same call, with
  whatever fresh key pair, returns the onion key of the first call and changes nothing.
\<close>

theorem newRound_idempotent:
  assumes "newRound P srv ctx req kp = (srv', Ok k)"
  shows "newRound P srv' ctx req kp' = (srv', Ok k)"
  using newRound_OkD [OF assms] by (auto simp: newRound_def)

text \<open>
  The first accepted \<open>SetRoundSettings\<close> of a round wins: a later call for the
  same round, with any settings and from any caller, changes nothing, and if it succeeds it
  returns the signature of the first settings.
\<close>

theorem settings_first_wins:
  assumes "setRoundSettings P enc srv ctx (Some pbs) = (srv', Ok sig)"
    and "pbs_Service pbs' = pbs_Service pbs" and "pbs_Round pbs' = pbs_Round pbs"
    and "setRoundSettings P enc srv' ctx' (Some pbs') = (srv'', r)"
  shows "srv'' = srv' \<and> (\<forall>sig'. r = Ok sig' \<longrightarrow> sig' = sig)"
proof -
  have sgn: "\<exists>st. rounds srv' (pbs_Service pbs, pbs_Round pbs) = Some st \<and> settingsSignature st = Some sig"
    using assms(1)
  proof (cases rule: setRoundSettings_cases)
    case (locked pbs0 s st service)
    from locked(7) show ?thesis by (cases rule: sign_settings_cases) (use locked in auto)
  qed simp
  from assms(4) show ?thesis
  proof (cases rule: setRoundSettings_cases)
    case (locked pbs0 s st service)
    have "settingsSignature st = Some sig" using sgn locked assms(2,3) by auto
    from locked(7) show ?thesis
      by (cases rule: sign_settings_cases) (use \<open>settingsSignature st = Some sig\<close> in auto)
  qed (auto simp: is_Ok_iff)
qed

text \<open>
  C9. No call changes the server or succeeds unless the TLS peer is the right one: the
  coordinator for \<open>NewRound\<close> and \<open>SetRoundSettings\<close>, the previous
  server of the round's chain (the coordinator for the first server) for
  \<open>AddOnions\<close>, \<open>CloseRound\<close>, \<open>DeleteRound\<close> and
  \<open>GetOnions\<close>.
\<close>

theorem rpc_authenticated:
  "(newRound P srv ctx req kp = (srv', r1) \<and> (srv' \<noteq> srv \<or> is_Ok r1) \<longrightarrow>
      ctx = Some (TLSInfo [Ed25519Key (CoordinatorKey srv)])) \<and>
   (setRoundSettings P enc srv ctx sreq = (srv', r2) \<and> (srv' \<noteq> srv \<or> is_Ok r2) \<longrightarrow>
      ctx = Some (TLSInfo [Ed25519Key (CoordinatorKey srv)])) \<and>
   (addOnions srv md ctx evs = (srv', r3) \<and> (srv' \<noteq> srv \<or> is_Ok r3) \<longrightarrow>
      (\<exists>m st. parseMetadata md = Ok m \<and> rounds srv (md_service m, md_round m) = Some st \<and>
         ctx = Some (TLSInfo [Ed25519Key (prev_key srv st)]))) \<and>
   (closeRound_check srv ctx s rd = (srv', r4) \<and> (srv' \<noteq> srv \<or> is_Ok r4) \<longrightarrow>
      (\<exists>st. rounds srv (s, rd) = Some st \<and> ctx = Some (TLSInfo [Ed25519Key (prev_key srv st)]))) \<and>
   (deleteRound srv ctx s rd = (srv', r5) \<and> (srv' \<noteq> srv \<or> is_Ok r5) \<longrightarrow>
      (\<exists>st. rounds srv (s, rd) = Some st \<and> ctx = Some (TLSInfo [Ed25519Key (prev_key srv st)]))) \<and>
   (is_Ok (getOnions S srv ctx g) \<longrightarrow>
      (\<exists>st. rounds srv (go_Service g, go_Round g) = Some st \<and>
         ctx = Some (TLSInfo [Ed25519Key (prev_key srv st)])))"
proof (intro conjI impI; (elim conjE)?)
  assume "newRound P srv ctx req kp = (srv', r1)" "srv' \<noteq> srv \<or> is_Ok r1"
  then show "ctx = Some (TLSInfo [Ed25519Key (CoordinatorKey srv)])"
    by (auto simp: newRound_def sbind_def split: outcome.splits)
next
  assume "setRoundSettings P enc srv ctx sreq = (srv', r2)" "srv' \<noteq> srv \<or> is_Ok r2"
  then show "ctx = Some (TLSInfo [Ed25519Key (CoordinatorKey srv)])"
    by (auto elim: setRoundSettings_cases)
next
  assume "addOnions srv md ctx evs = (srv', r3)" "srv' \<noteq> srv \<or> is_Ok r3"
  then show "\<exists>m st. parseMetadata md = Ok m \<and> rounds srv (md_service m, md_round m) = Some st \<and>
         ctx = Some (TLSInfo [Ed25519Key (prev_key srv st)])"
    by (auto simp: addOnions_def addOnions_open_def sbind_def authPrev_Ok_iff is_Ok_iff split: outcome.splits)
next
  assume "closeRound_check srv ctx s rd = (srv', r4)" "srv' \<noteq> srv \<or> is_Ok r4"
  then show "\<exists>st. rounds srv (s, rd) = Some st \<and> ctx = Some (TLSInfo [Ed25519Key (prev_key srv st)])"
    by (auto simp: closeRound_check_def sbind_def authPrev_Ok_iff is_Ok_iff split: outcome.splits)
next
  assume "deleteRound srv ctx s rd = (srv', r5)" "srv' \<noteq> srv \<or> is_Ok r5"
  then show "\<exists>st. rounds srv (s, rd) = Some st \<and> ctx = Some (TLSInfo [Ed25519Key (prev_key srv st)])"
    by (auto simp: deleteRound_def sbind_def authPrev_Ok_iff is_Ok_iff split: outcome.splits)
next
  assume "is_Ok (getOnions S srv ctx g)"
  then show "\<exists>st. rounds srv (go_Service g, go_Round g) = Some st \<and>
         ctx = Some (TLSInfo [Ed25519Key (prev_key srv st)])"
    by (auto simp: getOnions_def is_Ok_iff authPrev_Ok_iff split: if_splits)
qed

text \<open>
  C8. In every state the server can reach, under any interleaving of RPCs and workers, a stored
  signature verifies for the stored settings, which are those of the round it is stored under,
  name as many onion keys as the chain has servers, and hold this server's own onion key at its
  own position.
\<close>

theorem signed_settings_sound:
  assumes "srv_reachable P enc srv" and "ed25519_correct P"
    and "rounds srv (service, r) = Some st" and "settingsSignature st = Some sig"
  shows "Ed25519Verify P (Ed25519Public P (SigningKey srv)) (SigningMessage enc (settings st)) sig \<and>
    Service (settings st) = service \<and> Round (settings st) = r \<and>
    length (OnionKeys (settings st)) = length (chain st) \<and>
    OnionKeys (settings st) ! myPos st = onionPublicKey st \<and>
    Key (chain st ! myPos st) = Ed25519Public P (SigningKey srv)"
  using server_invD [OF srv_reachable_inv [OF assms(1)] assms(3)] assms(2,4)
  by (auto simp: round_inv_def ed25519_correct_def)

text \<open>
  C10. Duplicate onions are dropped before mixing: of the messages that share the last eight
  bytes exactly the first survives, the surviving messages have pairwise different tails and no
  tail is lost, and the index maps each slot to its surviving message or to -1.
\<close>

theorem filterIncoming_first_of_key:
  assumes "\<forall>m. Some m \<in> set (incoming st) \<longrightarrow> 8 \<le> length m"
  shows "\<exists>valid index. filterIncoming st = Ok (st\<lparr>incoming := map Some valid, incomingIndex := index\<rparr>) \<and>
    length index = length (incoming st) \<and> distinct (map tail8 valid) \<and>
    tail8 ` set valid = {tail8 m |m. Some m \<in> set (incoming st)} \<and>
    (\<forall>i < length (incoming st).
       if incoming st ! i = None \<or>
          (\<exists>j < i. incoming st ! j \<noteq> None \<and>
                   tail8 (the (incoming st ! j)) = tail8 (the (incoming st ! i)))
       then index ! i = -1
       else \<exists>v < length valid. index ! i = int v \<and> incoming st ! i = Some (valid ! v))"
proof -
  let ?ms = "incoming st"
  have dup: "is_dup {} ?ms i \<longleftrightarrow> ?ms ! i = None \<or>
     (\<exists>j < i. ?ms ! j \<noteq> None \<and> tail8 (the (?ms ! j)) = tail8 (the (?ms ! i)))" for i
    by (cases "?ms ! i") (auto simp: is_dup_def)
  show ?thesis
  proof (intro exI conjI)
    show "filterIncoming st = Ok (st\<lparr>incoming := map Some (kept {} ?ms), incomingIndex := kept_index {} 0 ?ms\<rparr>)"
      using assms by (rule filterIncoming_kept)
    show "\<forall>i < length ?ms. if ?ms ! i = None \<or>
          (\<exists>j < i. ?ms ! j \<noteq> None \<and> tail8 (the (?ms ! j)) = tail8 (the (?ms ! i)))
       then kept_index {} 0 ?ms ! i = -1
       else \<exists>v < length (kept {} ?ms). kept_index {} 0 ?ms ! i = int v \<and> ?ms ! i = Some (kept {} ?ms ! v)"
    proof (intro allI impI)
      fix i assume "i < length ?ms"
      from kept_index_spec [OF this, of "{}" 0] show "if ?ms ! i = None \<or>
          (\<exists>j < i. ?ms ! j \<noteq> None \<and> tail8 (the (?ms ! j)) = tail8 (the (?ms ! i)))
       then kept_index {} 0 ?ms ! i = -1
       else \<exists>v < length (kept {} ?ms). kept_index {} 0 ?ms ! i = int v \<and> ?ms ! i = Some (kept {} ?ms ! v)"
        unfolding dup by (auto split: if_splits)
    qed
  qed (simp_all add: distinct_kept kept_tails)
qed

lemma decrypted_fields [simp]:
  "incoming (decrypted P r xs st) = write_slots (right_size st) (slot_msg P r st) xs (incoming st)"
  "bidirectional st \<Longrightarrow>
   sharedKeys (decrypted P r xs st) = write_slots (right_size st) (slot_key P st) xs (sharedKeys st)"
  "decryptJobs (decrypted P r xs st) = decryptJobs st"
  "numIncoming (decrypted P r xs st) = numIncoming st"
  by (simp_all add: decrypted_def)

lemma slot_frame_jobs [simp]:
  "right_size (st\<lparr>decryptJobs := js\<rparr>) = right_size st"
  "slot_key P (st\<lparr>decryptJobs := js\<rparr>) = slot_key P st"
  "slot_msg P r (st\<lparr>decryptJobs := js\<rparr>) = slot_msg P r st"
  by (auto simp: right_size_def slot_key_def slot_msg_def)

lemma jobs_in_rangeI:
  assumes "list_all (\<lambda>j. jobRound j = r) (decryptJobs st)"
    and "set (concat (map job_pairs (decryptJobs st))) \<subseteq> set (zip [0..<length (incoming st)] os)"
  shows "jobs_in_range r st"
  using assms by (force simp: jobs_in_range_def list_all_iff dest: set_zip_leftD)

lemma drain_jobs_all:
  assumes "slots_alloc st" and "list_all (\<lambda>j. jobRound j = r) (decryptJobs st)"
    and "length (incoming st) = length onions"
    and "distinct (map fst (concat (map job_pairs (decryptJobs st))))"
    and "set (concat (map job_pairs (decryptJobs st))) = set (zip [0..<length onions] onions)"
  shows "drain_jobs P st = Ok (st\<lparr>decryptJobs := [],
    sharedKeys := (if bidirectional st
      then map (\<lambda>(x, old). if length x = incomingOnionSize st then slot_key P st x else old)
             (zip onions (sharedKeys st)) else sharedKeys st),
    incoming := map (\<lambda>(x, old). if length x = incomingOnionSize st then slot_msg P r st x else old)
             (zip onions (incoming st))\<rparr>)"
proof -
  let ?xs = "concat (map job_pairs (decryptJobs st))"
  have "jobs_in_range r st" using assms(2,3,5) by (intro jobs_in_rangeI) auto
  then have "drain_jobs P st = Ok (decrypted P r ?xs (st\<lparr>decryptJobs := []\<rparr>))"
    using assms(1) by (rule drain_jobs_Ok)
  moreover have "bidirectional st \<Longrightarrow> length (sharedKeys st) = length onions"
    using assms(1,3) by (simp add: slots_alloc_def)
  ultimately show ?thesis
    using assms(3) by (simp add: decrypted_def write_slots_all [OF assms(4,5)] right_size_def cong: if_cong)
qed

text \<open>
  When the queued jobs cover every slot once, waiting for the workers decrypts every onion
  of the right size into its own slot, with its shared key, and leaves the slots of wrong-size
  onions untouched; no worker panics.
\<close>

theorem drain_fills_every_slot:
  assumes "slots_alloc st" and "list_all (\<lambda>j. jobRound j = r) (decryptJobs st)"
    and "length (incoming st) = length onions"
    and "distinct (map fst (concat (map job_pairs (decryptJobs st))))"
    and "set (concat (map job_pairs (decryptJobs st))) = set (zip [0..<length onions] onions)"
  shows "\<exists>st'. drain_jobs P st = Ok st' \<and> decryptJobs st' = [] \<and>
    incoming st' = map (\<lambda>(x, old). if length x = incomingOnionSize st then slot_msg P r st x else old)
                     (zip onions (incoming st)) \<and>
    (bidirectional st \<longrightarrow> sharedKeys st' =
       map (\<lambda>(x, old). if length x = incomingOnionSize st then slot_key P st x else old)
         (zip onions (sharedKeys st)))"
  using drain_jobs_all [OF assms] by simp

text \<open>
  C14. The order in which the workers take the jobs does not matter: jobs on disjoint slots give
  the same round state in every order.
\<close>

theorem drain_order_irrelevant:
  assumes "slots_alloc st" and "jobs_in_range r st"
    and "distinct (map fst (concat (map job_pairs (decryptJobs st))))"
    and "mset js = mset (decryptJobs st)"
  shows "drain_jobs P (st\<lparr>decryptJobs := js\<rparr>) = drain_jobs P st"
proof -
  let ?ys = "concat (map job_pairs js)" and ?xs = "concat (map job_pairs (decryptJobs st))"
  have sets: "set js = set (decryptJobs st)" using assms(4) by (rule mset_eq_setD)
  have "mset ?ys = mset ?xs"
    using assms(4) by (metis mset_concat mset_map sum_mset_sum_list)
  then have "distinct (map fst ?ys)"
    using assms(3) by (metis mset_eq_imp_distinct_iff mset_map)
  then have w: "write_slots Q f ?ys l = write_slots Q f ?xs l" for Q and f :: "_ \<Rightarrow> 'x" and l
    using assms(3) sets by (intro write_slots_perm) auto
  have "jobs_in_range r (st\<lparr>decryptJobs := js\<rparr>)"
    using assms(2) sets by (simp add: jobs_in_range_def list_all_iff)
  moreover have "slots_alloc (st\<lparr>decryptJobs := js\<rparr>)" using assms(1) by (simp add: slots_alloc_def)
  ultimately show ?thesis
    using drain_jobs_Ok [OF assms(2,1)] by (auto simp: drain_jobs_Ok decrypted_def w)
qed

lemma addOnions_recv_late:
  assumes "rounds srv (md_service m, md_round m) = Some st" and "\<not> acceptingOnions st"
  shows "addOnions_recv m num req srv = Ok srv \<or> \<not> is_Ok (addOnions_recv m num req srv)"
  using assms by (auto simp: addOnions_recv_def)

text \<open>
  C15. The bound check of \<open>AddOnions\<close> is computed in 32 bits: an offset of 2^32 - 1
  with one onion passes it for every round size, the job is queued, and the worker that takes it
  panics with an index out of range.
\<close>

theorem addOnions_guard_wraps:
  fixes st :: "'d round_state"
  assumes "numIncoming st = num" and "incoming st = replicate (unat num) None"
    and "sharedKeys st = replicate (unat num) (replicate 32 0)"
    and "bidirectional st" and "acceptingOnions st" and "\<not> muHeld st" and "decryptJobs st = []"
    and "32 \<le> incomingOnionSize st"
    and "rounds srv (md_service m, md_round m) = Some st"
    and "length onion = incomingOnionSize st"
  shows "\<exists>srv' st'. addOnions_recv m num \<lparr>Offset = 4294967295, Onions = [onion]\<rparr> srv = Ok srv' \<and>
    rounds srv' (md_service m, md_round m) = Some st' \<and> drain_jobs P st' = Panic IndexOutOfRange"
proof -
  let ?req = "\<lparr>Offset = 4294967295, Onions = [onion]\<rparr> :: add_onions_request"
  let ?st = "st\<lparr>decryptJobs := [\<lparr>jobRound = md_round m, jobReq = ?req\<rparr>]\<rparr>"
  have wrap: "(4294967295 :: u32) + word_of_nat (length [onion]) = 0" by simp
  have "addOnions_recv m num ?req srv = Ok (put_round srv (md_service m, md_round m) ?st)"
    unfolding addOnions_recv_def add_onions_request.select_convs wrap using assms by simp
  moreover have "unat num < 4294967296" using unsigned_less [of num] by simp
  then have "drain_jobs P ?st = Panic IndexOutOfRange"
    using assms by (simp add: drain_jobs_def decryptionWorker_def decrypt_onion_def Let_def)
  ultimately show ?thesis by auto
qed

section \<open>Replies and their retrieval\<close>

lemma encrypt_reply_absent:
  "0 < n \<Longrightarrow> encrypt_reply P r n rk keys rs (i, -1) =
   Ok (SealAfterPrecomputation P (replicate n 0) (BackwardNonce r) (FreshKey rk i))"
  by (simp add: encrypt_reply_def)

lemma encrypt_reply_present:
  assumes "v < length rs" and "i < length keys"
  shows "encrypt_reply P r n rk keys rs (i, int v) = Ok
    (case rs ! v of
       Some m \<Rightarrow> if length m = n then SealAfterPrecomputation P m (BackwardNonce r) (keys ! i)
                 else SealAfterPrecomputation P (replicate n 0) (BackwardNonce r) (FreshKey rk i)
     | None \<Rightarrow> if n = 0 then SealAfterPrecomputation P [] (BackwardNonce r) (keys ! i)
               else SealAfterPrecomputation P (replicate n 0) (BackwardNonce r) (FreshKey rk i))"
  using assms by (auto simp: encrypt_reply_def Let_def split: option.splits)

text \<open>What slot \<open>i\<close> of the replies holds.\<close>

definition reply_slot ::
  "nacl \<Rightarrow> u32 \<Rightarrow> nat \<Rightarrow> reply_keys \<Rightarrow> bytes list \<Rightarrow> bytes option list \<Rightarrow> nat \<Rightarrow> int \<Rightarrow> bytes" where
  "reply_slot P r n rk keys rs i v =
     (if -1 < v \<and> rs ! nat v \<noteq> None \<and> length (the (rs ! nat v)) = n
      then SealAfterPrecomputation P (the (rs ! nat v)) (BackwardNonce r) (keys ! i)
      else SealAfterPrecomputation P (replicate n 0) (BackwardNonce r) (FreshKey rk i))"

definition index_bounded :: "int list \<Rightarrow> nat \<Rightarrow> bool" where
  "index_bounded ix n \<longleftrightarrow> list_all (\<lambda>v. v = -1 \<or> (\<exists>u < n. v = int u)) ix"

lemma encrypt_replies_loop:
  assumes "0 < n" and "index_bounded ix (length rs)" and "length ix \<le> length keys"
  shows "omap (encrypt_reply P r n rk keys rs) (zip [0..<length ix] ix) =
    Ok (map (\<lambda>(i, v). reply_slot P r n rk keys rs i v) (zip [0..<length ix] ix))"
proof (rule omap_Ok_map)
  fix x assume "x \<in> set (zip [0..<length ix] ix)"
  then obtain i where x: "x = (i, ix ! i)" "i < length ix" by (auto simp: set_zip)
  consider "ix ! i = -1" | u where "u < length rs" "ix ! i = int u"
    using assms(2) x(2) by (auto simp: index_bounded_def list_all_length)
  then show "encrypt_reply P r n rk keys rs x = Ok ((\<lambda>(i, v). reply_slot P r n rk keys rs i v) x)"
  proof cases
    case 1
    then show ?thesis using assms(1) x by (simp add: encrypt_reply_absent reply_slot_def)
  next
    case 2
    then show ?thesis using encrypt_reply_present [OF 2(1), of i keys] assms(1,3) x
      by (auto simp: reply_slot_def split: option.splits)
  qed
qed

lemma encryptReplies_Ok:
  assumes "0 < replyMsgSize svc st" and "index_bounded (incomingIndex st) (length rs)"
    and "length (incomingIndex st) \<le> length (sharedKeys st)"
  shows "encryptReplies P rk svc r rs st =
    (if encryptDone st then Panic CloseOfClosedChannel
     else Ok (st\<lparr>replies :=
       map (\<lambda>(i, v). reply_slot P r (replyMsgSize svc st) rk (sharedKeys st) rs i v)
         (zip [0..<length (incomingIndex st)] (incomingIndex st)), encryptDone := True\<rparr>))"
  by (simp add: encryptReplies_def encrypt_replies_loop [OF assms])

text \<open>
  C11. Every slot gets a reply of the same length whether or not it had a valid, unique message
  and a reply of the right size, and a slot that had one opens under the slot's shared key to
  that reply.
\<close>

theorem encryptReplies_uniform:
  assumes "box_roundtrip P" and "box_length P"
    and "0 < replyMsgSize svc st" and "\<not> encryptDone st"
    and "index_bounded (incomingIndex st) (length rs)"
    and "length (incomingIndex st) \<le> length (sharedKeys st)"
  shows "\<exists>st'. encryptReplies P rk svc r rs st = Ok st' \<and> encryptDone st' \<and>
    length (replies st') = length (incomingIndex st) \<and>
    list_all (\<lambda>c. length c = replyMsgSize svc st + box_Overhead) (replies st') \<and>
    (\<forall>i < length (incomingIndex st). \<forall>v m. incomingIndex st ! i = int v \<and> rs ! v = Some m \<and>
       length m = replyMsgSize svc st \<longrightarrow>
       OpenAfterPrecomputation P (replies st' ! i) (BackwardNonce r) (sharedKeys st ! i) = Some m)"
  using assms(1,2)
  by (auto simp: encryptReplies_Ok [OF assms(3,5,6)] assms(4) list_all_iff reply_slot_def box_length_def
      box_roundtrip_def split: prod.splits)

section \<open>GetOnions\<close>

lemma getOnions_Ok:
  assumes "rounds srv (go_Service g, go_Round g) = Some st" and "bidirectional st"
    and "authPrev srv ctx st = Ok ()" and "encryptDone st" and "length (replies st) < 2 ^ 32"
    and "unat (go_Offset g) + unat (go_Count g) \<le> length (replies st)"
  shows "getOnions S srv ctx g = Ok (map (\<lambda>(s, c). \<lparr>Offset = go_Offset g + word_of_nat s,
      Onions = slice s (s + c)
        (slice (unat (go_Offset g)) (unat (go_Offset g) + unat (go_Count g)) (replies st))\<rparr>)
      (S (unat (go_Count g)) 16))"
proof -
  have sum: "unat (go_Offset g + go_Count g) = unat (go_Offset g) + unat (go_Count g)"
    using assms(5,6) by (intro unat_add_exact) simp
  moreover have "unat (word_of_nat (length (replies st)) :: u32) = length (replies st)"
    using assms(5) by (simp add: unat32_of_nat)
  ultimately have "\<not> go_Offset g + go_Count g > word_of_nat (length (replies st))"
    using assms(6) by (simp add: word_less_nat_alt)
  then show ?thesis
    using assms sum by (simp add: getOnions_def Let_def)
qed

text \<open>
  \<open>GetOnions\<close> streams exactly the requested range: the chunks concatenate to
  the slice of the replies, and each chunk carries the offset its onions have in the round.
\<close>

theorem getOnions_streams_range:
  assumes "spans_ok S"
    and "rounds srv (go_Service g, go_Round g) = Some st" and "bidirectional st"
    and "authPrev srv ctx st = Ok ()" and "encryptDone st" and "length (replies st) < 2 ^ 32"
    and "unat (go_Offset g) + unat (go_Count g) \<le> length (replies st)"
  shows "\<exists>ms. getOnions S srv ctx g = Ok ms \<and>
    concat (map Onions ms) =
      slice (unat (go_Offset g)) (unat (go_Offset g) + unat (go_Count g)) (replies st) \<and>
    list_all (\<lambda>m. Onions m =
      slice (unat (Offset m)) (unat (Offset m) + length (Onions m)) (replies st)) ms"
proof -
  let ?o = "unat (go_Offset g)" and ?n = "unat (go_Count g)"
  let ?rs = "slice ?o (?o + ?n) (replies st)"
  have len: "length ?rs = ?n" using assms(7) by simp
  have sp: "concat (map (\<lambda>(s, c). [s..<s + c]) (S ?n 16)) = [0..<length ?rs]"
    using assms(1) len by (simp add: spans_ok_def)
  have msg: "slice s (s + c) ?rs = slice (unat (go_Offset g + word_of_nat s))
      (unat (go_Offset g + word_of_nat s) + length (slice s (s + c) ?rs)) (replies st)"
    if "(s, c) \<in> set (S ?n 16)" for s c
  proof (cases "c = 0")
    case False
    then have b: "s + c \<le> ?n" using spans_bound [OF sp that] len by simp
    then have "unat (word_of_nat s :: u32) = s" using assms(6,7) by (intro unat32_of_nat) simp
    then have "unat (go_Offset g + word_of_nat s) = ?o + s"
      using unat_add_exact [of "go_Offset g" "word_of_nat s"] assms(6,7) b by simp
    then show ?thesis using b assms(7) len by (simp add: slice_def take_drop add.commute min_def)
  qed (simp add: slice_def)
  show ?thesis
    unfolding getOnions_Ok [OF assms(2-)]
    using concat_slices [OF sp]
    by (intro exI conjI)
      (auto simp: list_all_iff comp_def case_prod_unfold simp del: length_slice intro!: msg)
qed

text \<open>
  The range check of \<open>GetOnions\<close> is computed in 32 bits: an offset and count
  whose sum passes 2^32 and wraps to within the replies passes it, and the slice expression
  panics.
\<close>

theorem getOnions_range_wraps:
  assumes "rounds srv (go_Service g, go_Round g) = Some st" and "bidirectional st"
    and "authPrev srv ctx st = Ok ()" and "encryptDone st" and "length (replies st) < 2 ^ 32"
    and "2 ^ 32 \<le> unat (go_Offset g) + unat (go_Count g)"
    and "unat (go_Offset g) + unat (go_Count g) - 2 ^ 32 \<le> length (replies st)"
  shows "getOnions S srv ctx g = Panic SliceOutOfRange"
proof -
  let ?o = "unat (go_Offset g)" and ?n = "unat (go_Count g)"
  have lt: "?o < 2 ^ 32" "?n < 2 ^ 32" using unsigned_less [of "go_Offset g"] unsigned_less [of "go_Count g"] by simp_all
  have "unat (go_Offset g + go_Count g) = (?o + ?n) mod 2 ^ 32"
    by (simp add: unat_word_ariths(1))
  also have "\<dots> = ?o + ?n - 2 ^ 32" using assms(6) lt by (simp add: mod_if)
  finally have sum: "unat (go_Offset g + go_Count g) = ?o + ?n - 2 ^ 32" .
  moreover have "unat (word_of_nat (length (replies st)) :: u32) = length (replies st)"
    using assms(5) by (simp add: unat32_of_nat)
  ultimately have "\<not> go_Offset g + go_Count g > word_of_nat (length (replies st))"
    using assms(7) by (simp add: word_less_nat_alt)
  moreover have "unat (go_Offset g + go_Count g) < ?o" using sum lt assms(6) by simp
  ultimately show ?thesis using assms(1-4) by (simp add: getOnions_def getRound_def Let_def)
qed

section \<open>Witnesses: a chain of one server with an echo service\<close>

definition echo_service :: "unit mix_service" where
  "echo_service =
     \<lparr>Bidirectional = True, SizeIncomingMessage = 8, SizeReplyMessage = 8,
      ParseServiceData = (\<lambda>_. Ok None), GenerateNoise = (\<lambda>_ _. Ok []),
      HandleMessages = (\<lambda>_ ms. Ok (HandledReplies (map Some ms)))\<rparr>"

definition toy_key :: bytes where "toy_key = replicate 32 1"
definition toy_coord :: bytes where "toy_coord = replicate 32 9"
definition toy_public :: bytes where "toy_public = replicate 32 2"
definition toy_private :: bytes where "toy_private = replicate 32 3"

definition toy_server :: "unit server" where
  "toy_server = \<lparr>SigningKey = toy_key, CoordinatorKey = toy_coord,
     Services = [''Echo'' \<mapsto> echo_service], rounds = Map.empty\<rparr>"

definition toy_ctx :: ctx_peer where
  "toy_ctx = Some (TLSInfo [Ed25519Key toy_coord])"

definition toy_new :: new_round_request where
  "toy_new = \<lparr>nr_Service = ''Echo'', nr_Round = 7,
     nr_Chain = [\<lparr>pb_Key = toy_key, pb_Address = ''a''\<rparr>]\<rparr>"

definition toy_round :: "unit round_state" where
  "toy_round = new_round_state echo_service [\<lparr>Key = toy_key, Address = ''a''\<rparr>] 0 toy_public toy_private"

definition toy_settings :: pb_RoundSettings where
  "toy_settings = \<lparr>pbs_Service = ''Echo'', pbs_Round = 7, pbs_OnionKeys = [toy_public], pbs_ServiceData = []\<rparr>"

definition toy_enc :: settings_encoder where
  "toy_enc s r ks d = concat ks @ d"

definition toy_signed :: "unit round_state" where
  "toy_signed = toy_round\<lparr>
     settings := \<lparr>Service = ''Echo'', Round = 7, OnionKeys = [toy_public], RawServiceData = [], ServiceData = None\<rparr>,
     settingsSignature := Some (toy_key @ ascii ''RoundSettings'' @ toy_public),
     noiseDone := Some True\<rparr>"

definition toy_onion :: bytes where
  "toy_onion = replicate 32 4 @ replicate 16 7 @ [1, 2, 3, 4, 5, 6, 7, 8]"

abbreviation toy_k :: service_round where "toy_k \<equiv> (''Echo'', 7)"

lemma toy_newRound:
  "newRound toy_nacl toy_server toy_ctx toy_new (Some (toy_public, toy_private)) =
   (put_round toy_server toy_k toy_round, Ok toy_public)"
  by (simp add: newRound_def toy_nacl_def toy_server_def toy_ctx_def toy_new_def toy_round_def
      psc_FromProto_def PublicKeySize_def toy_key_def)

lemma toy_setRoundSettings:
  "setRoundSettings toy_nacl toy_enc (put_round toy_server toy_k toy_round) toy_ctx (Some toy_settings) =
   (put_round toy_server toy_k toy_signed, Ok (toy_key @ ascii ''RoundSettings'' @ toy_public))"
  by (simp add: setRoundSettings_def toy_nacl_def toy_server_def toy_ctx_def toy_settings_def toy_round_def
      settings_FromProto_def keys_FromProto_id toy_public_def getRound_def put_round_def echo_service_def
      sign_settings_def new_round_state_def toy_signed_def SigningMessage_def toy_enc_def Let_def)

lemma toy_auth [simp]: "auth toy_ctx toy_coord = Ok ()"
  by (simp add: toy_ctx_def)

theorem newRound_idempotent_witness:
  "newRound toy_nacl (put_round toy_server toy_k toy_round) toy_ctx toy_new None =
   (put_round toy_server toy_k toy_round, Ok toy_public)"
  using newRound_idempotent [OF toy_newRound] .

theorem settings_first_wins_witness:
  "setRoundSettings toy_nacl toy_enc (put_round toy_server toy_k toy_signed) toy_ctx
     (Some (toy_settings\<lparr>pbs_OnionKeys := [toy_key]\<rparr>)) =
   (put_round toy_server toy_k toy_signed, Ok (toy_key @ ascii ''RoundSettings'' @ toy_public))"
proof -
  have "fst (setRoundSettings toy_nacl toy_enc (put_round toy_server toy_k toy_signed) toy_ctx
     (Some (toy_settings\<lparr>pbs_OnionKeys := [toy_key]\<rparr>))) = put_round toy_server toy_k toy_signed"
    using settings_first_wins [OF toy_setRoundSettings, of "toy_settings\<lparr>pbs_OnionKeys := [toy_key]\<rparr>" toy_ctx]
    by (cases "setRoundSettings toy_nacl toy_enc (put_round toy_server toy_k toy_signed) toy_ctx
     (Some (toy_settings\<lparr>pbs_OnionKeys := [toy_key]\<rparr>))") auto
  then show ?thesis
    by (simp add: setRoundSettings_def toy_nacl_def toy_server_def toy_ctx_def toy_settings_def toy_round_def
      settings_FromProto_def keys_FromProto_id toy_key_def getRound_def put_round_def echo_service_def
      sign_settings_def new_round_state_def toy_signed_def)
qed

lemma toy_reachable: "srv_reachable toy_nacl toy_enc (put_round toy_server toy_k toy_signed)"
proof -
  have "srv_reachable toy_nacl toy_enc toy_server" by (rule start) (simp add: toy_server_def)
  then have "srv_reachable toy_nacl toy_enc (put_round toy_server toy_k toy_round)"
    using rpc_NewRound [OF toy_newRound] by (rule step)
  then show ?thesis using rpc_SetRoundSettings [OF toy_setRoundSettings] by (rule step)
qed

theorem signed_settings_sound_witness:
  "Ed25519Verify toy_nacl toy_key (SigningMessage toy_enc (settings toy_signed))
     (toy_key @ ascii ''RoundSettings'' @ toy_public) \<and> OnionKeys (settings toy_signed) ! 0 = toy_public"
  using signed_settings_sound [OF toy_reachable toy_nacl_ok(3), of "''Echo''" 7 toy_signed]
  by (simp add: toy_signed_def toy_round_def new_round_state_def toy_server_def) (simp add: toy_nacl_def)

theorem rpc_authenticated_witness:
  "newRound toy_nacl toy_server toy_ctx toy_new (Some (toy_public, toy_private)) =
     (put_round toy_server toy_k toy_round, Ok toy_public) \<and>
   toy_ctx = Some (TLSInfo [Ed25519Key (CoordinatorKey toy_server)])"
  using rpc_authenticated [THEN conjunct1, THEN mp, OF conjI, OF toy_newRound] toy_newRound by simp

theorem filterIncoming_first_of_key_witness:
  "\<exists>valid index. filterIncoming (toy_signed\<lparr>incoming := [Some [1,2,3,4,5,6,7,8], None, Some [1,2,3,4,5,6,7,8]]\<rparr>) =
     Ok (toy_signed\<lparr>incoming := map Some valid, incomingIndex := index\<rparr>) \<and> index ! 2 = -1"
proof -
  let ?st = "toy_signed\<lparr>incoming := [Some [1,2,3,4,5,6,7,8], None, Some [1,2,3,4,5,6,7,8]]\<rparr>"
  have "\<forall>m. Some m \<in> set (incoming ?st) \<longrightarrow> 8 \<le> length m" by auto
  from filterIncoming_first_of_key [OF this] obtain valid index where
    f: "filterIncoming ?st = Ok (?st\<lparr>incoming := map Some valid, incomingIndex := index\<rparr>)"
    and ix: "\<forall>i < length (incoming ?st).
       if incoming ?st ! i = None \<or> (\<exists>j < i. incoming ?st ! j \<noteq> None \<and>
           tail8 (the (incoming ?st ! j)) = tail8 (the (incoming ?st ! i)))
       then index ! i = -1
       else \<exists>v < length valid. index ! i = int v \<and> incoming ?st ! i = Some (valid ! v)" by auto
  have "\<exists>j < 2. incoming ?st ! j \<noteq> None \<and> tail8 (the (incoming ?st ! j)) = tail8 (the (incoming ?st ! 2))"
    by (intro exI [of _ "0 :: nat"]) simp
  then have "index ! 2 = -1" using ix [rule_format, of 2] by simp
  then show ?thesis using f by auto
qed

definition toy_queued :: "unit round_state" where
  "toy_queued = (alloc_slots 2 toy_signed)\<lparr>decryptJobs :=
     [\<lparr>jobRound = 7, jobReq = \<lparr>Offset = 1, Onions = [[0]]\<rparr>\<rparr>,
      \<lparr>jobRound = 7, jobReq = \<lparr>Offset = 0, Onions = [toy_onion]\<rparr>\<rparr>]\<rparr>"

lemmas toy_defs = toy_queued_def toy_signed_def toy_round_def new_round_state_def alloc_slots_def
  echo_service_def onionbox_Overhead_def box_Overhead_def toy_server_def toy_ctx_def

lemma toy_open: "slot_msg toy_nacl 7 toy_queued toy_onion = Some [1, 2, 3, 4, 5, 6, 7, 8]"
  by (simp add: slot_msg_def slot_key_def toy_nacl_def toy_private_def toy_tag_def toy_onion_def toy_defs)

lemma toy_slots: "incoming toy_queued = [None, None]" "incomingOnionSize toy_queued = 56" "length toy_onion = 56"
  by (simp_all add: toy_defs toy_onion_def) (simp add: numeral_2_eq_2)

theorem drain_fills_every_slot_witness:
  "\<exists>st'. drain_jobs toy_nacl toy_queued = Ok st' \<and> incoming st' = [Some [1, 2, 3, 4, 5, 6, 7, 8], None]"
proof -
  have "slots_alloc toy_queued" "list_all (\<lambda>j. jobRound j = 7) (decryptJobs toy_queued)"
    "length (incoming toy_queued) = length [toy_onion, [0]]"
    "distinct (map fst (concat (map job_pairs (decryptJobs toy_queued))))"
    "set (concat (map job_pairs (decryptJobs toy_queued))) = set (zip [0..<length [toy_onion, [0]]] [toy_onion, [0]])"
    by (auto simp: slots_alloc_def toy_defs job_pairs_def upt_conv_Cons)
  from drain_fills_every_slot [OF this, of toy_nacl] show ?thesis
    by (auto simp: toy_open toy_slots)
qed

theorem drain_order_irrelevant_witness:
  "drain_jobs toy_nacl (toy_queued\<lparr>decryptJobs := rev (decryptJobs toy_queued)\<rparr>) = drain_jobs toy_nacl toy_queued"
proof (rule drain_order_irrelevant)
  show "slots_alloc toy_queued" "jobs_in_range 7 toy_queued"
    "distinct (map fst (concat (map job_pairs (decryptJobs toy_queued))))"
    by (auto simp: slots_alloc_def jobs_in_range_def toy_defs job_pairs_def upt_conv_Cons)
qed simp

theorem addOnions_guard_wraps_witness:
  "\<exists>srv' st'. addOnions_recv \<lparr>md_service = ''Echo'', md_round = 7, md_numIncoming = 2\<rparr> 2
      \<lparr>Offset = 4294967295, Onions = [toy_onion]\<rparr> (put_round toy_server toy_k (alloc_slots 2 toy_signed)) = Ok srv' \<and>
    rounds srv' toy_k = Some st' \<and> drain_jobs toy_nacl st' = Panic IndexOutOfRange"
  using addOnions_guard_wraps [of "alloc_slots 2 toy_signed" 2
      "put_round toy_server toy_k (alloc_slots 2 toy_signed)"
      "\<lparr>md_service = ''Echo'', md_round = 7, md_numIncoming = 2\<rparr>" toy_onion toy_nacl]
  by (simp add: toy_defs toy_onion_def)

definition toy_answered :: "unit round_state" where
  "toy_answered = toy_signed\<lparr>numIncoming := 2, sharedKeys := [replicate 32 7, replicate 32 0],
     incomingIndex := [0, -1], closed := True\<rparr>"

definition toy_replied :: "unit round_state" where
  "toy_replied = toy_answered\<lparr>replies := [replicate 24 5, replicate 24 6], encryptDone := True\<rparr>"

definition toy_keys :: reply_keys where
  "toy_keys = \<lparr>FreshKey = (\<lambda>i. replicate 32 (word_of_nat i)), StaleKey = (\<lambda>_. None)\<rparr>"

theorem encryptReplies_uniform_witness:
  "\<exists>st'. encryptReplies toy_nacl toy_keys echo_service 7 [Some [1, 2, 3, 4, 5, 6, 7, 8]] toy_answered = Ok st' \<and>
    list_all (\<lambda>c. length c = 24) (replies st') \<and>
    OpenAfterPrecomputation toy_nacl (replies st' ! 0) (BackwardNonce 7) (replicate 32 7) =
      Some [1, 2, 3, 4, 5, 6, 7, 8]"
proof -
  let ?rs = "[Some [1, 2, 3, 4, 5, 6, 7, 8]] :: bytes option list"
  have "0 < replyMsgSize echo_service toy_answered" "\<not> encryptDone toy_answered"
    "index_bounded (incomingIndex toy_answered) (length ?rs)"
    "length (incomingIndex toy_answered) \<le> length (sharedKeys toy_answered)"
    by (simp_all add: toy_answered_def replyMsgSize_def index_bounded_def toy_defs)
  from encryptReplies_uniform [OF toy_nacl_ok(1,2) this, of toy_keys 7] obtain st' where
    st': "encryptReplies toy_nacl toy_keys echo_service 7 ?rs toy_answered = Ok st'"
    "length (replies st') = length (incomingIndex toy_answered)"
    "list_all (\<lambda>c. length c = replyMsgSize echo_service toy_answered + box_Overhead) (replies st')"
    and op: "\<forall>i < length (incomingIndex toy_answered). \<forall>v m. incomingIndex toy_answered ! i = int v \<and>
       ?rs ! v = Some m \<and> length m = replyMsgSize echo_service toy_answered \<longrightarrow>
       OpenAfterPrecomputation toy_nacl (replies st' ! i) (BackwardNonce 7) (sharedKeys toy_answered ! i) = Some m"
    by blast
  have "list_all (\<lambda>c. length c = 24) (replies st')"
    using st'(3) by (simp add: toy_answered_def toy_defs replyMsgSize_def)
  moreover have "OpenAfterPrecomputation toy_nacl (replies st' ! 0) (BackwardNonce 7) (replicate 32 7) =
      Some [1, 2, 3, 4, 5, 6, 7, 8]"
    using op [rule_format, of 0 0 "[1, 2, 3, 4, 5, 6, 7, 8]"]
    by (simp add: toy_answered_def replyMsgSize_def toy_defs)
  ultimately show ?thesis using st'(1) by blast
qed

definition unit_spans :: spans_fun where
  "unit_spans n k = map (\<lambda>i. (i, 1)) [0..<n]"

lemma unit_spans_ok: "spans_ok unit_spans"
  by (simp add: spans_ok_def unit_spans_def comp_def list_all_iff)

lemma toy_authPrev: "authPrev (put_round toy_server toy_k toy_replied) toy_ctx toy_replied = Ok ()"
  by (simp add: authPrev_def toy_replied_def toy_answered_def toy_defs)

theorem getOnions_streams_range_witness:
  "\<exists>ms. getOnions unit_spans (put_round toy_server toy_k toy_replied) toy_ctx
      \<lparr>go_Service = ''Echo'', go_Round = 7, go_Offset = 1, go_Count = 1\<rparr> = Ok ms \<and>
    concat (map Onions ms) = [replicate 24 6]"
  using getOnions_streams_range [OF unit_spans_ok, of "put_round toy_server toy_k toy_replied"
      "\<lparr>go_Service = ''Echo'', go_Round = 7, go_Offset = 1, go_Count = 1\<rparr>" toy_replied toy_ctx]
    toy_authPrev
  by (auto simp: toy_replied_def toy_answered_def toy_defs slice_def)

theorem getOnions_range_wraps_witness:
  "getOnions unit_spans (put_round toy_server toy_k toy_replied) toy_ctx
      \<lparr>go_Service = ''Echo'', go_Round = 7, go_Offset = 1, go_Count = 4294967295\<rparr> = Panic SliceOutOfRange"
  using getOnions_range_wraps [of "put_round toy_server toy_k toy_replied"
      "\<lparr>go_Service = ''Echo'', go_Round = 7, go_Offset = 1, go_Count = 4294967295\<rparr>" toy_replied toy_ctx unit_spans]
    toy_authPrev
  by (simp add: toy_replied_def toy_answered_def toy_defs)

end
