(* ===== verification/Mix_Client.thy ===== *)
theory Mix_Client
  imports Mix_Rounds
begin

text \<open>
  The client half of \<open>mixnet/mixnet.go\<close> and the whole of \<open>CloseRound\<close>, which calls it: a network of
  servers, the calls one party makes on another, and the lemmas on what the streams of one call
  deliver and fetch.

  A network maps the key of a server to its state. The goroutines of one call run one after the
  other, in the order they are spawned; \<open>DeleteRound\<close>, which the client issues in the background,
  runs at the end of the call that spawns it.
\<close>

section \<open>Connections\<close>

record mix_client =
  clientKey :: bytes
  conns :: "bytes \<Rightarrow> nat"

text \<open>
  \<open>getConns\<close>: dial as many connections as are missing. \<open>dial i\<close> says whether the \<open>i\<close>-th dial of
  this call succeeds; a connection that was made before a failing dial stays in the cache.
\<close>

fun dial_loop :: "(nat \<Rightarrow> bool) \<Rightarrow> bytes \<Rightarrow> nat \<Rightarrow> nat \<Rightarrow> mix_client \<Rightarrow> mix_client \<times> (mix_err, unit) outcome"
  where
  "dial_loop dial k i 0 c = (c, Ok ())"
| "dial_loop dial k i (Suc n) c =
     (if dial i then dial_loop dial k (Suc i) n (c\<lparr>conns := (conns c)(k := conns c k + 1)\<rparr>)
      else (c, Err DialError))"

definition getConns ::
  "(nat \<Rightarrow> bool) \<Rightarrow> nat \<Rightarrow> public_server_config \<Rightarrow> mix_client \<Rightarrow>
   mix_client \<times> (mix_err, nat list) outcome" where
  "getConns dial cnt server c =
     (let k = go_copy (replicate 32 0) (Key server) in
      case dial_loop dial k 0 (cnt - conns c k) c of
        (c', r) \<Rightarrow> sbind c' r (\<lambda>_. (c', Ok [0..<cnt])))"

definition getConn ::
  "(nat \<Rightarrow> bool) \<Rightarrow> public_server_config \<Rightarrow> mix_client \<Rightarrow> mix_client \<times> (mix_err, nat) outcome" where
  "getConn dial server c =
     (case getConns dial 1 server c of (c', r) \<Rightarrow> sbind c' r (\<lambda>cs. (c', Ok (cs ! 0))))"

section \<open>The network\<close>

text \<open>
  Code of other modules and the environment of a round: the box and signature functions, the spans,
  the shuffler a server draws for a batch, the random keys of its replies, the key pair it
  generates, and whether \<open>getConns\<close> finds its connections.
\<close>

record shuffler =
  Shuffle :: "bytes option list \<Rightarrow> bytes option list"
  Unshuffle :: "bytes option list \<Rightarrow> bytes option list"

record mix_env =
  Nacl :: nacl
  Spans :: spans_fun
  NewShuffler :: "bytes \<Rightarrow> nat \<Rightarrow> shuffler"
  ReplyKeys :: "bytes \<Rightarrow> reply_keys"
  GenerateKey :: "bytes \<Rightarrow> (bytes \<times> bytes) option"
  Conns :: "public_server_config \<Rightarrow> nat \<Rightarrow> mix_err option"

text \<open>Documented behaviour of the shuffler: a permutation of the positions, and its inverse.\<close>

definition shuffle_ok :: "(bytes \<Rightarrow> nat \<Rightarrow> shuffler) \<Rightarrow> bool" where
  "shuffle_ok new \<longleftrightarrow>
     (\<forall>k n. \<exists>p. bij_betw p {..<n} {..<n} \<and>
        (\<forall>xs. length xs = n \<longrightarrow>
           Shuffle (new k n) xs = map (\<lambda>i. xs ! p i) [0..<n] \<and>
           Unshuffle (new k n) (map (\<lambda>i. xs ! p i) [0..<n]) = xs))"

type_synonym 'd net = "bytes \<rightharpoonup> 'd server"

definition on_server ::
  "'d net \<Rightarrow> bytes \<Rightarrow> ('d server \<Rightarrow> 'd server \<times> (mix_err, 'a) outcome) \<Rightarrow>
   'd net \<times> (mix_err, 'a) outcome" where
  "on_server net k h =
     (case net k of
        None \<Rightarrow> (net, Err DialError)
      | Some srv \<Rightarrow> (case h srv of (srv', r) \<Rightarrow> (net(k \<mapsto> srv'), r)))"

text \<open>
  A group of goroutines that each send their error on a channel: all of them run, and the first
  error is the error of the group.
\<close>

fun merge :: "(mix_err, 'b) outcome \<Rightarrow> (mix_err, 'b list) outcome \<Rightarrow> (mix_err, 'b list) outcome" where
  "merge (Ok b) r = obind r (\<lambda>bs. Ok (b # bs))"
| "merge (Err e) (Ok bs) = Err e"
| "merge (Err e) (Err e') = Err e"
| "merge (Err e) (Panic p) = Panic p"
| "merge (Err e) Hang = Hang"
| "merge (Panic p) r = Panic p"
| "merge Hang r = Hang"

fun run_all ::
  "('x \<Rightarrow> 's \<Rightarrow> 's \<times> (mix_err, 'b) outcome) \<Rightarrow> 'x list \<Rightarrow> 's \<Rightarrow> 's \<times> (mix_err, 'b list) outcome" where
  "run_all f [] s = (s, Ok [])"
| "run_all f (x # xs) s =
     (case f x s of (s', r) \<Rightarrow> (case run_all f xs s' of (s'', rs) \<Rightarrow> (s'', merge r rs)))"

section \<open>NewRound\<close>

fun conns_error :: "mix_env \<Rightarrow> public_server_config list \<Rightarrow> mix_err option" where
  "conns_error E [] = None"
| "conns_error E (server # servers) =
     (case Conns E server 1 of Some e \<Rightarrow> Some e | None \<Rightarrow> conns_error E servers)"

definition wrap_err :: "string \<Rightarrow> (mix_err, 'a) outcome \<Rightarrow> (mix_err, 'a) outcome" where
  "wrap_err what r = (case r of Err e \<Rightarrow> Err (Wrapped what e) | _ \<Rightarrow> r)"

text \<open>The two goroutines a server gets: create the round, then send it the settings.\<close>

definition newRound_on ::
  "mix_env \<Rightarrow> ctx_peer \<Rightarrow> new_round_request \<Rightarrow> public_server_config \<Rightarrow> 'd net \<Rightarrow>
   'd net \<times> (mix_err, bytes) outcome" where
  "newRound_on E ctx req server net =
     (case on_server net (Key server)
             (\<lambda>srv. newRound (Nacl E) srv ctx req (GenerateKey E (Key server))) of
        (net', r) \<Rightarrow> (net', wrap_err (''server '' @ Address server @ '': NewRound'')
                            (obind r (\<lambda>key. Ok (go_copy (replicate 32 0) key)))))"

definition setSettings_on ::
  "mix_env \<Rightarrow> settings_encoder \<Rightarrow> ctx_peer \<Rightarrow> 'd round_settings \<Rightarrow> public_server_config \<Rightarrow> 'd net \<Rightarrow>
   'd net \<times> (mix_err, bytes) outcome" where
  "setSettings_on E enc ctx s server net =
     (case on_server net (Key server)
             (\<lambda>srv. setRoundSettings (Nacl E) enc srv ctx (Some (settings_Proto s))) of
        (net', r) \<Rightarrow> (net', wrap_err (''server '' @ Address server @ '': SetRoundSettings'') r))"

text \<open>
  The settings are the caller's: the call writes \<open>OnionKeys\<close> whatever happens later. The result
  carries the settings and the servers' signatures.
\<close>

definition client_NewRound ::
  "mix_env \<Rightarrow> settings_encoder \<Rightarrow> 'd net \<Rightarrow> ctx_peer \<Rightarrow> public_server_config list \<Rightarrow>
   'd round_settings \<Rightarrow> 'd net \<times> (mix_err, 'd round_settings \<times> bytes list) outcome" where
  "client_NewRound E enc net ctx servers s =
     (let req = \<lparr>nr_Service = Service s, nr_Round = Round s, nr_Chain = map psc_Proto servers\<rparr> in
      case conns_error E servers of
        Some e \<Rightarrow> (net, Err e)
      | None \<Rightarrow>
        (case run_all (newRound_on E ctx req) servers net of
           (net1, r1) \<Rightarrow>
             sbind net1 r1 (\<lambda>keys.
               let s' = s\<lparr>OnionKeys := keys\<rparr> in
               case run_all (setSettings_on E enc ctx s') servers net1 of
                 (net2, r2) \<Rightarrow> sbind net2 r2 (\<lambda>sigs. (net2, Ok (s', sigs))))))"

section \<open>Sending onions\<close>

definition streamAddOnions ::
  "mix_env \<Rightarrow> 'd net \<Rightarrow> ctx_peer \<Rightarrow> public_server_config \<Rightarrow> grpc_metadata \<Rightarrow> nat \<Rightarrow> bytes list \<Rightarrow>
   'd net \<times> (mix_err, unit) outcome" where
  "streamAddOnions E net ctx server md offset onions =
     on_server net (Key server) (\<lambda>srv.
       addOnions srv md ctx
         (map (\<lambda>(s, c). Received \<lparr>Offset = word_of_nat (offset + s), Onions = slice s (s + c) onions\<rparr>)
            (Spans E (length onions) 16)))"

definition spanSize :: "nat \<Rightarrow> nat" where
  "spanSize numOnions = (let size = numOnions div 5 in if size = 0 then 1 else size)"

definition onions_metadata :: "string \<Rightarrow> u32 \<Rightarrow> nat \<Rightarrow> grpc_metadata" where
  "onions_metadata service round n =
     Some [''service'' \<mapsto> [service], ''round'' \<mapsto> [print_nat (unat round)],
           ''numincoming'' \<mapsto> [print_nat n]]"

text \<open>\<open>CloseRound\<close> of the called server is an argument; \<open>closeRound\<close> below ties the knot.\<close>

type_synonym 'd close_rpc =
  "'d net \<Rightarrow> bytes \<Rightarrow> ctx_peer \<Rightarrow> string \<Rightarrow> u32 \<Rightarrow> 'd net \<times> (mix_err, string) outcome"

definition client_addOnions ::
  "mix_env \<Rightarrow> 'd close_rpc \<Rightarrow> 'd net \<Rightarrow> ctx_peer \<Rightarrow> public_server_config \<Rightarrow> string \<Rightarrow> u32 \<Rightarrow>
   bytes list \<Rightarrow> 'd net \<times> (mix_err, string) outcome" where
  "client_addOnions E close net ctx server service round onions =
     (let md = onions_metadata service round (length onions);
          spans = Spans E (length onions) (spanSize (length onions));
          numConns = (if length spans < 1 then 1 else length spans) in
      case Conns E server numConns of
        Some e \<Rightarrow> (net, Err e)
      | None \<Rightarrow>
        (case run_all (\<lambda>(s, c) net.
                 streamAddOnions E net ctx server md s (slice s (s + c) onions)) spans net of
           (net1, r) \<Rightarrow>
             sbind net1 (wrap_err ''adding onions'' r) (\<lambda>_.
               close net1 (Key server) ctx service round)))"

definition delete_later ::
  "mix_env \<Rightarrow> 'd net \<Rightarrow> ctx_peer \<Rightarrow> public_server_config \<Rightarrow> string \<Rightarrow> u32 \<Rightarrow> 'd net" where
  "delete_later E net ctx server service round =
     (case Conns E server 1 of
        Some e \<Rightarrow> net
      | None \<Rightarrow> fst (on_server net (Key server) (\<lambda>srv. deleteRound srv ctx service round)))"

definition RunRoundUnidirectional ::
  "mix_env \<Rightarrow> 'd close_rpc \<Rightarrow> 'd net \<Rightarrow> ctx_peer \<Rightarrow> public_server_config \<Rightarrow> string \<Rightarrow> u32 \<Rightarrow>
   bytes list \<Rightarrow> 'd net \<times> (mix_err, string) outcome" where
  "RunRoundUnidirectional E close net ctx server service round onions =
     (case client_addOnions E close net ctx server service round onions of
        (net1, r) \<Rightarrow>
          (case r of
             Ok result \<Rightarrow> (delete_later E net1 ctx server service round, Ok result)
           | Err e \<Rightarrow> (delete_later E net1 ctx server service round, Err e)
           | Panic p \<Rightarrow> (net1, Panic p)
           | Hang \<Rightarrow> (net1, Hang)))"

section \<open>Fetching replies\<close>

text \<open>\<open>copy(replies[resp.Offset:], resp.Onions)\<close> for every message of the stream.\<close>

definition copy_reply ::
  "add_onions_request \<Rightarrow> bytes option list \<Rightarrow> (mix_err, bytes option list) outcome" where
  "copy_reply resp rs =
     (if length rs < unat (Offset resp) then Panic SliceOutOfRange
      else Ok (go_copy_at (unat (Offset resp)) rs (map Some (Onions resp))))"

definition fetch_span ::
  "mix_env \<Rightarrow> 'd net \<Rightarrow> ctx_peer \<Rightarrow> public_server_config \<Rightarrow> string \<Rightarrow> u32 \<Rightarrow> nat \<times> nat \<Rightarrow>
   bytes option list \<Rightarrow> bytes option list \<times> (mix_err, unit) outcome" where
  "fetch_span E net ctx server service round sp rs =
     (case sp of (s, c) \<Rightarrow>
        case net (Key server) of
          None \<Rightarrow> (rs, Err DialError)
        | Some srv \<Rightarrow>
          sbind rs (getOnions (Spans E) srv ctx
                 \<lparr>go_Service = service, go_Round = round, go_Offset = word_of_nat s,
                  go_Count = word_of_nat c\<rparr>) (\<lambda>ms.
            sbind rs (ofold copy_reply ms rs) (\<lambda>rs'. (rs', Ok ()))))"

definition RunRoundBidirectional ::
  "mix_env \<Rightarrow> 'd close_rpc \<Rightarrow> 'd net \<Rightarrow> ctx_peer \<Rightarrow> public_server_config \<Rightarrow> string \<Rightarrow> u32 \<Rightarrow>
   bytes list \<Rightarrow> 'd net \<times> (mix_err, bytes option list) outcome" where
  "RunRoundBidirectional E close net ctx server service round onions =
     (case client_addOnions E close net ctx server service round onions of
        (net1, r) \<Rightarrow>
          sbind net1 r (\<lambda>_.
            let spans = Spans E (length onions) (spanSize (length onions)) in
            case Conns E server (length spans) of
              Some e \<Rightarrow> (net1, Err e)
            | None \<Rightarrow>
              (case run_all (fetch_span E net1 ctx server service round) spans
                      (replicate (length onions) None) of
                 (rs, r2) \<Rightarrow>
                   sbind net1 (wrap_err ''fetching onions'' r2) (\<lambda>_.
                     (delete_later E net1 ctx server service round, Ok rs)))))"

section \<open>CloseRound\<close>

text \<open>Writing a round state that the handler holds a pointer to: nothing to see if it was deleted.\<close>

definition store_round :: "'d net \<Rightarrow> bytes \<Rightarrow> service_round \<Rightarrow> 'd round_state \<Rightarrow> 'd net" where
  "store_round net me k st =
     (case net me of
        None \<Rightarrow> net
      | Some srv \<Rightarrow> if rounds srv k = None then net else net(me \<mapsto> put_round srv k st))"

text \<open>
  The branch of a server that is not the last one: shuffle, run the round on the next server with
  the round's mutex held, undo the shuffle, drop the noise, encrypt.
\<close>

definition closeRound_forward ::
  "mix_env \<Rightarrow> 'd close_rpc \<Rightarrow> 'd net \<Rightarrow> bytes \<Rightarrow> 'd server \<Rightarrow> string \<Rightarrow> u32 \<Rightarrow> 'd round_state \<Rightarrow>
   bytes list \<Rightarrow> nat \<Rightarrow> 'd net \<times> (mix_err, string) outcome" where
  "closeRound_forward E close net me srv service round st outgoing numNonNoise =
     (let k = (service, round);
          sh = NewShuffler E me (length outgoing);
          batch = map the (Shuffle sh (map Some outgoing));
          next = chain st ! (myPos st + 1);
          myCtx = Some (TLSInfo [Ed25519Key (Ed25519Public (Nacl E) (SigningKey srv))]);
          net1 = store_round net me k (st\<lparr>muHeld := True\<rparr>) in
      if bidirectional st then
        (case RunRoundBidirectional E close net1 myCtx next service round batch of
           (net2, r) \<Rightarrow>
             (case r of
                Panic p \<Rightarrow> (net2, Panic p)
              | Hang \<Rightarrow> (net2, Hang)
              | Err e \<Rightarrow>
                  let e' = RunRoundError (myPos st) (myPos st + 1) e in
                  (store_round net2 me k (st\<lparr>roundErr := Some e'\<rparr>), Err e')
              | Ok rs \<Rightarrow>
                  let rs = Unshuffle sh rs in
                  if length rs < numNonNoise then (net2, Panic SliceOutOfRange)
                  else case Services srv service of
                    None \<Rightarrow> (net2, Panic NilDereference)
                  | Some svc \<Rightarrow>
                    sbind net2 (encryptReplies (Nacl E) (ReplyKeys E me) svc round (take numNonNoise rs) st)
                      (\<lambda>st'. (store_round net2 me k st', Ok []))))
      else
        (case RunRoundUnidirectional E close net1 myCtx next service round batch of
           (net2, r) \<Rightarrow>
             (case r of
                Panic p \<Rightarrow> (net2, Panic p)
              | Hang \<Rightarrow> (net2, Hang)
              | Err e \<Rightarrow>
                  let e' = RunRoundError (myPos st) (myPos st + 1) e in
                  (store_round net2 me k (st\<lparr>roundErr := Some e'\<rparr>), Err e')
              | Ok result \<Rightarrow> (store_round net2 me k (st\<lparr>closeResult := result\<rparr>), Ok result))))"

text \<open>
  The handler of server \<open>me\<close>. The fuel bounds the length of the chain of calls; a chain longer than
  the fuel is reported as a call that never returns.
\<close>

fun closeRound :: "nat \<Rightarrow> mix_env \<Rightarrow> 'd close_rpc" where
  "closeRound 0 E net me ctx service round = (net, Hang)"
| "closeRound (Suc fuel) E net me ctx service round =
     (case net me of
        None \<Rightarrow> (net, Err DialError)
      | Some srv \<Rightarrow>
        (case closeRound_check srv ctx service round of
           (srv1, r) \<Rightarrow>
             sbind (net(me \<mapsto> srv1)) r (\<lambda>s.
               case s of
                 AlreadyClosed result \<Rightarrow> (net(me \<mapsto> srv1), Ok result)
               | Proceed \<Rightarrow>
                 sbind (net(me \<mapsto> srv1)) (getRound srv1 service round) (\<lambda>st.
                 sbind (net(me \<mapsto> srv1)) (closeRound_collect (Nacl E) st)
                   (\<lambda>(st', outgoing, numNonNoise).
                      if myPos st' < length (chain st') - 1
                      then closeRound_forward E (closeRound fuel E) (net(me \<mapsto> srv1)) me srv1 service
                             round st' outgoing numNonNoise
                      else case closeRound_last (Nacl E) (ReplyKeys E me) (put_round srv1 (service, round) st')
                                  service round st' outgoing of
                        (srv2, r2) \<Rightarrow> (net(me \<mapsto> srv2), r2))))))"

section \<open>Connections\<close>

lemma dial_loop_conns:
  "dial_loop dial k i n c = (c', r) \<Longrightarrow>
   (\<forall>k'. k' \<noteq> k \<longrightarrow> conns c' k' = conns c k') \<and> conns c k \<le> conns c' k \<and>
   conns c' k \<le> conns c k + n \<and> (is_Ok r \<longrightarrow> conns c' k = conns c k + n) \<and> clientKey c' = clientKey c"
  by (induction dial k i n c rule: dial_loop.induct) (fastforce split: if_splits)+

text \<open>
  \<open>getConns\<close> keeps at most the connections anyone asked for: a successful call returns exactly
  the wanted number of clients, dials only the missing connections, and leaves the connections
  to every other server alone, also when a dial fails.
\<close>

theorem getConns_spec:
  assumes "getConns dial n server c = (c', r)"
  shows "(\<forall>k. k \<noteq> go_copy (replicate 32 0) (Key server) \<longrightarrow> conns c' k = conns c k) \<and>
    conns c' (go_copy (replicate 32 0) (Key server)) \<le> max n (conns c (go_copy (replicate 32 0) (Key server))) \<and>
    (\<forall>cs. r = Ok cs \<longrightarrow> length cs = n \<and>
       conns c' (go_copy (replicate 32 0) (Key server)) =
         max n (conns c (go_copy (replicate 32 0) (Key server))))"
proof -
  let ?k = "go_copy (replicate 32 0) (Key server)"
  obtain c1 r1 where d: "dial_loop dial ?k 0 (n - conns c ?k) c = (c1, r1)" by fastforce
  have "c' = c1" and "\<And>cs. r = Ok cs \<Longrightarrow> is_Ok r1 \<and> cs = [0..<n]"
    using assms d by (auto simp: getConns_def Let_def sbind_def split: outcome.splits)
  with dial_loop_conns [OF d] show ?thesis by (auto simp: max_def)
qed

theorem getConns_spec_witness:
  "\<exists>c'. getConns (\<lambda>i. i < 1) 3 \<lparr>Key = toy_key, Address = ''a''\<rparr> \<lparr>clientKey = toy_coord, conns = (\<lambda>_. 1)\<rparr> =
     (c', Err DialError) \<and> conns c' toy_key \<le> 3 \<and> conns c' toy_coord = 1"
proof -
  obtain c' r where run: "getConns (\<lambda>i. i < 1) 3 \<lparr>Key = toy_key, Address = ''a''\<rparr>
      \<lparr>clientKey = toy_coord, conns = (\<lambda>_. 1)\<rparr> = (c', r)" by fastforce
  have key: "go_copy (replicate 32 0) toy_key = toy_key" "toy_coord \<noteq> toy_key"
    by (simp_all add: toy_key_def toy_coord_def)
  have "r = Err DialError"
    using run by (simp add: getConns_def Let_def numeral_eq_Suc)
  with getConns_spec [OF run] run key show ?thesis by auto
qed

section \<open>A stream of onions\<close>

lemma parse_onions_metadata:
  "n < 2 ^ 32 \<Longrightarrow> parseMetadata (onions_metadata service r n) =
   Ok \<lparr>md_service = service, md_round = r, md_numIncoming = word_of_nat n\<rparr>"
  by (simp add: parseMetadata_def onions_metadata_def first_value_def ParseUint32_print_unat
      ParseUint32_print_nat [of n])

abbreviation add_jobs :: "u32 \<Rightarrow> add_onions_request list \<Rightarrow> 'd round_state \<Rightarrow> 'd round_state" where
  "add_jobs r reqs st \<equiv>
     st\<lparr>decryptJobs := decryptJobs st @ map (\<lambda>q. \<lparr>jobRound = r, jobReq = q\<rparr>) reqs\<rparr>"

lemma put_round_twice [simp]: "put_round (put_round srv k st) k st' = put_round srv k st'"
  by (simp add: put_round_def)

lemma put_round_same: "rounds srv k = Some st \<Longrightarrow> put_round srv k st = srv"
  by (simp add: put_round_def map_upd_triv)

definition req_fits :: "u32 \<Rightarrow> add_onions_request \<Rightarrow> bool" where
  "req_fits num q \<longleftrightarrow> unat (Offset q) + length (Onions q) \<le> unat num"

lemma addOnions_recv_fits:
  assumes "rounds srv (md_service m, md_round m) = Some st" and "\<not> muHeld st"
    and "acceptingOnions st" and "req_fits num q"
  shows "addOnions_recv m num q srv =
    Ok (put_round srv (md_service m, md_round m) (add_jobs (md_round m) [q] st))"
proof -
  have "unat num < 2 ^ 32" using unsigned_less [of num] by simp
  then have "unat (word_of_nat (length (Onions q)) :: u32) = length (Onions q)"
    using assms(4) by (intro unat32_of_nat) (simp add: req_fits_def)
  then have "unat (Offset q + word_of_nat (length (Onions q))) = unat (Offset q) + length (Onions q)"
    using unat_add_exact [of "Offset q" "word_of_nat (length (Onions q))"] assms(4) \<open>unat num < 2 ^ 32\<close>
    by (simp add: req_fits_def)
  then have "\<not> Offset q + word_of_nat (length (Onions q)) > num"
    using assms(4) by (simp add: word_less_nat_alt req_fits_def)
  then show ?thesis using assms by (simp add: addOnions_recv_def)
qed

lemma addOnions_loop_fits:
  assumes "rounds srv (md_service m, md_round m) = Some st" and "\<not> muHeld st"
    and "acceptingOnions st" and "list_all (req_fits num) reqs"
  shows "addOnions_loop m num (map Received reqs) srv =
    (put_round srv (md_service m, md_round m) (add_jobs (md_round m) reqs st), Ok ())"
  using assms
proof (induction reqs arbitrary: srv st)
  case (Cons q reqs)
  let ?k = "(md_service m, md_round m)"
  let ?st = "add_jobs (md_round m) [q] st"
  have "addOnions_recv m num q srv = Ok (put_round srv ?k ?st)"
    using Cons.prems by (intro addOnions_recv_fits) simp_all
  moreover have "addOnions_loop m num (map Received reqs) (put_round srv ?k ?st) =
      (put_round (put_round srv ?k ?st) ?k (add_jobs (md_round m) reqs ?st), Ok ())"
    using Cons.prems by (intro Cons.IH) simp_all
  ultimately show ?case by simp
qed (simp add: put_round_same)

text \<open>The state of a round whose slots the first stream allocates.\<close>

definition opened :: "u32 \<Rightarrow> 'd round_state \<Rightarrow> 'd round_state" where
  "opened num st = (if numIncoming st = 0 then alloc_slots num st else st)"

definition takes_onions :: "u32 \<Rightarrow> 'd round_state \<Rightarrow> bool" where
  "takes_onions num st \<longleftrightarrow>
     \<not> muHeld st \<and> (numIncoming st = 0 \<or> numIncoming st = num \<and> acceptingOnions st)"

lemma opened_simps [simp]:
  "num \<noteq> 0 \<Longrightarrow> opened num ((opened num st)\<lparr>decryptJobs := js\<rparr>) = (opened num st)\<lparr>decryptJobs := js\<rparr>"
  "takes_onions num st \<Longrightarrow> takes_onions num ((opened num st)\<lparr>decryptJobs := js\<rparr>)"
  "takes_onions num st \<Longrightarrow> acceptingOnions (opened num st)"
  "muHeld (opened num st) = muHeld st"
  "decryptJobs (opened num st) = decryptJobs st"
  by (auto simp: opened_def takes_onions_def alloc_slots_def)

lemma addOnions_fits:
  assumes "0 < n" and "n < 2 ^ 32" and "rounds srv (service, r) = Some st"
    and "authPrev srv ctx st = Ok ()" and "takes_onions (word_of_nat n) st"
    and "list_all (req_fits (word_of_nat n)) reqs"
  shows "addOnions srv (onions_metadata service r n) ctx (map Received reqs) =
    (put_round srv (service, r) (add_jobs r reqs (opened (word_of_nat n) st)), Ok ())"
proof -
  let ?m = "\<lparr>md_service = service, md_round = r, md_numIncoming = word_of_nat n\<rparr>"
  let ?srv = "put_round srv (service, r) (opened (word_of_nat n) st)"
  have "addOnions_open srv (onions_metadata service r n) ctx = (?srv, Ok (?m, word_of_nat n))"
    using assms
    by (auto simp: addOnions_open_def parse_onions_metadata getRound_def takes_onions_def opened_def
        put_round_same)
  then show ?thesis
    using assms addOnions_loop_fits [of ?srv ?m "opened (word_of_nat n) st" "word_of_nat n" reqs]
    by (simp add: addOnions_def takes_onions_def)
qed

text \<open>What the spans of one stream send.\<close>

definition span_reqs :: "mix_env \<Rightarrow> bytes list \<Rightarrow> nat \<times> nat \<Rightarrow> add_onions_request list" where
  "span_reqs E onions sp =
     (case sp of (s, c) \<Rightarrow>
        map (\<lambda>(s', c'). \<lparr>Offset = word_of_nat (s + s'), Onions = slice s' (s' + c') (slice s (s + c) onions)\<rparr>)
          (Spans E (length (slice s (s + c) onions)) 16))"

lemma streamAddOnions_fits:
  assumes "net (Key server) = Some srv" and "0 < n" and "n < 2 ^ 32"
    and "rounds srv (service, r) = Some st"
    and "authPrev srv ctx st = Ok ()" and "takes_onions (word_of_nat n) st"
    and "list_all (req_fits (word_of_nat n)) (span_reqs E onions (s, c))"
  shows "streamAddOnions E net ctx server (onions_metadata service r n) s (slice s (s + c) onions) =
    (net(Key server \<mapsto> put_round srv (service, r)
       (add_jobs r (span_reqs E onions (s, c)) (opened (word_of_nat n) st))), Ok ())"
proof -
  have "map (\<lambda>(s', c'). Received \<lparr>Offset = word_of_nat (s + s'),
          Onions = slice s' (s' + c') (slice s (s + c) onions)\<rparr>)
        (Spans E (length (slice s (s + c) onions)) 16) = map Received (span_reqs E onions (s, c))"
    by (simp add: span_reqs_def case_prod_unfold comp_def)
  then show ?thesis
    unfolding streamAddOnions_def on_server_def
    using assms(1) addOnions_fits [OF assms(2-7)] by simp
qed

lemma authPrev_frame:
  "CoordinatorKey srv' = CoordinatorKey srv \<Longrightarrow> myPos st' = myPos st \<Longrightarrow> chain st' = chain st \<Longrightarrow>
   authPrev srv' ctx st' = authPrev srv ctx st"
  by (simp add: authPrev_def)

lemma opened_chain [simp]: "myPos (opened n st) = myPos st" "chain (opened n st) = chain st"
  by (simp_all add: opened_def alloc_slots_def)

lemma run_streams:
  assumes "net (Key server) = Some srv" and "0 < n" and "n < 2 ^ 32"
    and "rounds srv (service, r) = Some st"
    and "authPrev srv ctx st = Ok ()" and "takes_onions (word_of_nat n) st"
    and "list_all (\<lambda>sp. list_all (req_fits (word_of_nat n)) (span_reqs E onions sp)) (sp # sps)"
  shows "\<exists>us. run_all (\<lambda>(s, c) net. streamAddOnions E net ctx server (onions_metadata service r n) s
           (slice s (s + c) onions)) (sp # sps) net =
    (net(Key server \<mapsto> put_round srv (service, r)
       (add_jobs r (concat (map (span_reqs E onions) (sp # sps))) (opened (word_of_nat n) st))), Ok us)"
  using assms
proof (induction sps arbitrary: sp net srv st)
  case Nil
  then show ?case by (cases sp) (simp add: streamAddOnions_fits fun_upd_def)
next
  case (Cons sp' sps)
  let ?f = "\<lambda>(s, c) net. streamAddOnions E net ctx server (onions_metadata service r n) s
    (slice s (s + c) onions)"
  let ?st1 = "add_jobs r (span_reqs E onions sp) (opened (word_of_nat n) st)"
  let ?srv1 = "put_round srv (service, r) ?st1"
  let ?net1 = "net(Key server \<mapsto> ?srv1)"
  have one: "?f sp net = (?net1, Ok ())"
    using Cons.prems by (cases sp) (simp add: streamAddOnions_fits)
  have "authPrev ?srv1 ctx ?st1 = Ok ()"
    using Cons.prems(5) authPrev_frame [of ?srv1 srv ?st1 st ctx] by simp
  then have "\<exists>us. run_all ?f (sp' # sps) ?net1 = (?net1(Key server \<mapsto> put_round ?srv1 (service, r)
       (add_jobs r (concat (map (span_reqs E onions) (sp' # sps))) (opened (word_of_nat n) ?st1))), Ok us)"
    using Cons.prems by (intro Cons.IH) simp_all
  then obtain us where rec: "run_all ?f (sp' # sps) ?net1 = (?net1(Key server \<mapsto> put_round ?srv1 (service, r)
       (add_jobs r (concat (map (span_reqs E onions) (sp' # sps))) (opened (word_of_nat n) ?st1))), Ok us)" ..
  have "(word_of_nat n :: u32) \<noteq> 0"
    using Cons.prems(2,3) unat32_of_nat [of n] by auto
  then show ?case
    unfolding run_all.simps(2) [of ?f sp] one using rec by (simp add: fun_eq_iff del: run_all.simps)
qed

lemma concat_spans:
  assumes "concat (map (\<lambda>(s, c). [s..<s + c]) sp) = [0..<n]"
  shows "concat (map (\<lambda>(s, c). map f [s..<s + c]) sp) = map f [0..<n]"
proof -
  have "concat (map (\<lambda>(s, c). map f [s..<s + c]) sp) = map f (concat (map (\<lambda>(s, c). [s..<s + c]) sp))"
    by (simp add: map_concat case_prod_unfold comp_def)
  then show ?thesis by (simp add: assms)
qed

lemma spans_okD:
  assumes "spans_ok S" and "0 < k"
  shows "concat (map (\<lambda>(s, c). [s..<s + c]) (S n k)) = [0..<n]"
    and "(s, c) \<in> set (S n k) \<Longrightarrow> 0 < c \<and> s + c \<le> n"
proof -
  show cover: "concat (map (\<lambda>(s, c). [s..<s + c]) (S n k)) = [0..<n]"
    using assms by (simp add: spans_ok_def)
  assume mem: "(s, c) \<in> set (S n k)"
  have "list_all (\<lambda>(s, c). 0 < c \<and> c \<le> k) (S n k)" using assms by (simp add: spans_ok_def)
  then have "0 < c" using mem by (auto simp: list_all_iff)
  then show "0 < c \<and> s + c \<le> n" using spans_bound [OF cover mem] by simp
qed

lemma spans_Nil_iff:
  assumes "spans_ok S" and "0 < k"
  shows "S n k = [] \<longleftrightarrow> n = 0"
proof
  assume "S n k = []"
  then have "[0..<n] = []" using spans_okD(1) [OF assms, of n] by simp
  then show "n = 0" by simp
next
  assume "n = 0"
  then have "(s, c) \<notin> set (S n k)" for s c using spans_okD(2) [OF assms, of s c n] by auto
  then show "S n k = []" by (metis list.set_intros(1) neq_Nil_conv surj_pair)
qed

lemma spanSize_pos [simp]: "0 < spanSize n"
  by (simp add: spanSize_def Let_def)

lemma slice_slice:
  "s' + c' \<le> c \<Longrightarrow> slice s' (s' + c') (slice s (s + c) xs) = slice (s + s') (s + s' + c') xs"
  by (simp add: slice_def take_drop min_def add.commute add.left_commute)

lemma slice_map_nth: "s + c \<le> length xs \<Longrightarrow> slice s (s + c) xs = map ((!) xs) [s..<s + c]"
  by (intro nth_equalityI) (auto simp: slice_def)

definition as_job :: "u32 \<Rightarrow> add_onions_request \<Rightarrow> decryption_job" where
  "as_job r q = \<lparr>jobRound = r, jobReq = q\<rparr>"

lemma req_pairs:
  assumes "s + c \<le> length onions" and "length onions < 2 ^ 32"
  shows "job_pairs (as_job r \<lparr>Offset = word_of_nat s, Onions = slice s (s + c) onions\<rparr>) =
    map (\<lambda>i. (i, onions ! i)) [s..<s + c]"
proof -
  have "unat (word_of_nat s :: u32) = s" using assms by (intro unat32_of_nat) simp
  then show ?thesis
    using assms(1) by (simp add: job_pairs_def as_job_def slice_map_nth zip_map2 zip_same_conv_map)
qed

lemma span_reqs_pairs:
  assumes "spans_ok (Spans E)" and "s + c \<le> length onions" and "length onions < 2 ^ 32"
  shows "concat (map (\<lambda>q. job_pairs (as_job r q)) (span_reqs E onions (s, c))) =
      map (\<lambda>i. (i, onions ! i)) [s..<s + c]"
    and "list_all (req_fits (word_of_nat (length onions))) (span_reqs E onions (s, c))"
proof -
  let ?sp = "Spans E c 16"
  have len: "length (slice s (s + c) onions) = c" using assms(2) by simp
  have reqs: "span_reqs E onions (s, c) =
      map (\<lambda>(s', c'). \<lparr>Offset = word_of_nat (s + s'), Onions = slice (s + s') (s + s' + c') onions\<rparr>) ?sp"
    unfolding span_reqs_def len prod.case
    using spans_okD(2) [OF assms(1), of 16 _ _ c] by (auto simp: slice_slice)
  have pairs: "job_pairs (as_job r \<lparr>Offset = word_of_nat (s + s'), Onions = slice (s + s') (s + s' + c') onions\<rparr>) =
      map (\<lambda>i. (s + i, onions ! (s + i))) [s'..<s' + c']" if "(s', c') \<in> set ?sp" for s' c'
  proof -
    have "s' + c' \<le> c" using spans_okD(2) [OF assms(1) _ that] by simp
    then have "job_pairs (as_job r \<lparr>Offset = word_of_nat (s + s'), Onions = slice (s + s') (s + s' + c') onions\<rparr>) =
        map (\<lambda>i. (i, onions ! i)) [s + s'..<s + s' + c']"
      using assms by (intro req_pairs) simp_all
    then show ?thesis by (auto intro!: nth_equalityI simp: add.assoc)
  qed
  have "concat (map (\<lambda>q. job_pairs (as_job r q)) (span_reqs E onions (s, c))) =
      concat (map (\<lambda>(s', c'). map (\<lambda>i. (s + i, onions ! (s + i))) [s'..<s' + c']) ?sp)"
    unfolding reqs map_map using pairs by (intro arg_cong [of _ _ concat] map_cong) auto
  also have "\<dots> = map (\<lambda>i. (s + i, onions ! (s + i))) [0..<c]"
    by (rule concat_spans) (rule spans_okD(1) [OF assms(1)], simp)
  finally show "concat (map (\<lambda>q. job_pairs (as_job r q)) (span_reqs E onions (s, c))) =
      map (\<lambda>i. (i, onions ! i)) [s..<s + c]"
    by (auto intro!: nth_equalityI)
  show "list_all (req_fits (word_of_nat (length onions))) (span_reqs E onions (s, c))"
    unfolding reqs list_all_iff
  proof clarsimp
    fix s' c' assume "(s', c') \<in> set ?sp"
    then have "s' + c' \<le> c" using spans_okD(2) [OF assms(1), of 16] by simp
    then have "unat (word_of_nat (s + s') :: u32) = s + s'" using assms(2,3) by (intro unat32_of_nat) simp
    then show "req_fits (word_of_nat (length onions)) \<lparr>Offset = word_of_nat s + word_of_nat s',
        Onions = slice (s + s') (s + s' + c') onions\<rparr>"
      using \<open>s' + c' \<le> c\<close> assms(2,3) by (simp add: req_fits_def unat32_of_nat)
  qed
qed

lemma concat_map_concat: "concat (map f (concat xss)) = concat (map (\<lambda>xs. concat (map f xs)) xss)"
  by (induction xss) simp_all

text \<open>The jobs of all streams of a round, and the state they leave.\<close>

definition stream_reqs :: "mix_env \<Rightarrow> bytes list \<Rightarrow> add_onions_request list" where
  "stream_reqs E onions =
     concat (map (span_reqs E onions) (Spans E (length onions) (spanSize (length onions))))"

definition loaded :: "mix_env \<Rightarrow> u32 \<Rightarrow> bytes list \<Rightarrow> 'd round_state \<Rightarrow> 'd round_state" where
  "loaded E r onions st =
     (if onions = [] then st
      else add_jobs r (stream_reqs E onions) (opened (word_of_nat (length onions)) st))"

lemma stream_reqs_pairs:
  assumes "spans_ok (Spans E)" and "length onions < 2 ^ 32"
  shows "concat (map (\<lambda>q. job_pairs (as_job r q)) (stream_reqs E onions)) =
    zip [0..<length onions] onions"
proof -
  let ?sp = "Spans E (length onions) (spanSize (length onions))"
  have "concat (map (\<lambda>q. job_pairs (as_job r q)) (stream_reqs E onions)) =
      concat (map (\<lambda>sp. concat (map (\<lambda>q. job_pairs (as_job r q)) (span_reqs E onions sp))) ?sp)"
    unfolding stream_reqs_def by (simp add: concat_map_concat comp_def)
  also have "\<dots> = concat (map (\<lambda>(s, c). map (\<lambda>i. (i, onions ! i)) [s..<s + c]) ?sp)"
    using span_reqs_pairs(1) [OF assms(1) _ assms(2)] spans_okD(2) [OF assms(1) spanSize_pos]
    by (intro arg_cong [of _ _ concat] map_cong) auto
  also have "\<dots> = map (\<lambda>i. (i, onions ! i)) [0..<length onions]"
    by (rule concat_spans) (rule spans_okD(1) [OF assms(1)], simp)
  also have "\<dots> = zip [0..<length onions] onions"
    by (auto intro!: nth_equalityI)
  finally show ?thesis .
qed

lemma client_addOnions_loads:
  assumes "spans_ok (Spans E)" and "\<And>s n. Conns E s n = None"
    and "net (Key server) = Some srv" and "length onions < 2 ^ 32"
    and "rounds srv (service, r) = Some st" and "authPrev srv ctx st = Ok ()"
    and "\<not> muHeld st" and "numIncoming st = 0"
  shows "client_addOnions E close net ctx server service r onions =
    close (net(Key server \<mapsto> put_round srv (service, r) (loaded E r onions st)))
      (Key server) ctx service r"
proof (cases "onions = []")
  case True
  then have "Spans E (length onions) (spanSize (length onions)) = []"
    using spans_Nil_iff [OF assms(1) spanSize_pos] by simp
  then show ?thesis
    using True assms(2,3,5)
    by (simp add: client_addOnions_def Let_def wrap_err_def loaded_def put_round_same map_upd_triv)
next
  case False
  let ?n = "length onions"
  let ?sp = "Spans E ?n (spanSize ?n)"
  obtain sp sps where sp: "?sp = sp # sps"
    using False spans_Nil_iff [OF assms(1) spanSize_pos, of ?n ?n] by (cases ?sp) auto
  have "list_all (\<lambda>sp. list_all (req_fits (word_of_nat ?n)) (span_reqs E onions sp)) ?sp"
    using span_reqs_pairs(2) [OF assms(1) _ assms(4)] spans_okD(2) [OF assms(1) spanSize_pos]
    unfolding list_all_iff [of _ ?sp] by (metis prod.collapse)
  then have "\<exists>us. run_all (\<lambda>(s, c) net. streamAddOnions E net ctx server (onions_metadata service r ?n) s
           (slice s (s + c) onions)) ?sp net =
    (net(Key server \<mapsto> put_round srv (service, r)
       (add_jobs r (concat (map (span_reqs E onions) ?sp)) (opened (word_of_nat ?n) st))), Ok us)"
    unfolding sp using False assms by (intro run_streams) (simp_all add: takes_onions_def)
  then show ?thesis
    using False assms(2)
    by (auto simp: client_addOnions_def Let_def wrap_err_def loaded_def stream_reqs_def)
qed

section \<open>Fetching the replies\<close>

definition covers :: "add_onions_request \<Rightarrow> nat \<Rightarrow> bool" where
  "covers m i \<longleftrightarrow> unat (Offset m) \<le> i \<and> i < unat (Offset m) + length (Onions m)"

definition chunk_of :: "bytes list \<Rightarrow> add_onions_request \<Rightarrow> bool" where
  "chunk_of R m \<longleftrightarrow> unat (Offset m) + length (Onions m) \<le> length R \<and>
     (\<forall>i. covers m i \<longrightarrow> Onions m ! (i - unat (Offset m)) = R ! i)"

lemma copy_reply_chunk:
  assumes "chunk_of R m" and "length acc = length R"
  shows "\<exists>acc'. copy_reply m acc = Ok acc' \<and> length acc' = length R \<and>
    (\<forall>i < length R. acc' ! i = (if covers m i then Some (R ! i) else acc ! i))"
  using assms
  by (auto simp: copy_reply_def chunk_of_def covers_def go_copy_at_def go_copy_def nth_append min_def)

lemma copy_replies_chunks:
  assumes "list_all (chunk_of R) ms" and "length acc = length R"
  shows "\<exists>acc'. ofold copy_reply ms acc = Ok acc' \<and> length acc' = length R \<and>
    (\<forall>i < length R. acc' ! i = (if \<exists>m \<in> set ms. covers m i then Some (R ! i) else acc ! i))"
  using assms
proof (induction ms arbitrary: acc)
  case (Cons m ms)
  from copy_reply_chunk [of R m acc] Cons.prems obtain acc1 where
    1: "copy_reply m acc = Ok acc1" "length acc1 = length R"
    "\<forall>i < length R. acc1 ! i = (if covers m i then Some (R ! i) else acc ! i)" by auto
  from Cons.IH [of acc1] Cons.prems 1(2) obtain acc2 where
    2: "ofold copy_reply ms acc1 = Ok acc2" "length acc2 = length R"
    "\<forall>i < length R. acc2 ! i = (if \<exists>m \<in> set ms. covers m i then Some (R ! i) else acc1 ! i)" by auto
  show ?case using 1 2 by (intro exI [of _ acc2]) auto
qed simp

lemma fetch_span_Ok:
  assumes "spans_ok (Spans E)" and "net (Key server) = Some srv"
    and "rounds srv (service, r) = Some st" and "bidirectional st" and "authPrev srv ctx st = Ok ()"
    and "encryptDone st" and "length (replies st) < 2 ^ 32"
    and "s + c \<le> length (replies st)" and "length acc = length (replies st)"
  shows "\<exists>acc'. fetch_span E net ctx server service r (s, c) acc = (acc', Ok ()) \<and>
    length acc' = length (replies st) \<and>
    (\<forall>i < length (replies st). acc' ! i =
       (if s \<le> i \<and> i < s + c then Some (replies st ! i) else acc ! i))"
proof -
  let ?R = "replies st"
  let ?g = "\<lparr>go_Service = service, go_Round = r, go_Offset = word_of_nat s, go_Count = word_of_nat c\<rparr>"
  let ?ms = "map (\<lambda>(s', c'). \<lparr>Offset = word_of_nat (s + s'), Onions = slice s' (s' + c') (slice s (s + c) ?R)\<rparr>)
    (Spans E c 16)"
  have u: "unat (word_of_nat s :: u32) = s" "unat (word_of_nat c :: u32) = c"
    using assms(7,8) by (auto intro!: unat32_of_nat)
  have get: "getOnions (Spans E) srv ctx ?g = Ok ?ms"
    using getOnions_Ok [of srv ?g st ctx "Spans E"] assms(3-8) u by simp
  have m: "unat (word_of_nat (s + s') :: u32) = s + s'" "s' + c' \<le> c" if "(s', c') \<in> set (Spans E c 16)" for s' c'
    using spans_okD(2) [OF assms(1) _ that] assms(7,8) unat32_of_nat [of "s + s'"] by auto
  have "chunk_of ?R \<lparr>Offset = word_of_nat (s + s'), Onions = slice s' (s' + c') (slice s (s + c) ?R)\<rparr>"
    "covers \<lparr>Offset = word_of_nat (s + s'), Onions = slice s' (s' + c') (slice s (s + c) ?R)\<rparr> i \<longleftrightarrow>
       i \<in> (\<lambda>x. s + x) ` set [s'..<s' + c']"
    if "(s', c') \<in> set (Spans E c 16)" for s' c' i
    using m [OF that] assms(8)
    by (auto simp: chunk_of_def covers_def slice_slice nth_slice image_iff intro: exI [of _ "i - s"])
  note chunk = this
  have chunks: "list_all (chunk_of ?R) ?ms" using chunk(1) by (auto simp: list_all_iff)
  have "(\<exists>q \<in> set ?ms. covers q i) \<longleftrightarrow>
      i \<in> (\<lambda>x. s + x) ` set (concat (map (\<lambda>(s', c'). [s'..<s' + c']) (Spans E c 16)))" for i
  proof -
    have "(\<exists>q \<in> set ?ms. covers q i) \<longleftrightarrow>
        (\<exists>x \<in> set (Spans E c 16). i \<in> (\<lambda>x. s + x) ` set [fst x..<fst x + snd x])"
      unfolding set_map bex_simps
      using chunk(2) [of _ _ i] by (intro bex_cong refl) (simp add: case_prod_unfold)
    moreover have "set (concat (map (\<lambda>(s', c'). [s'..<s' + c']) (Spans E c 16))) =
        (\<Union>x \<in> set (Spans E c 16). set [fst x..<fst x + snd x])" by (auto simp: case_prod_unfold)
    ultimately show ?thesis by (simp only: image_UN UN_iff)
  qed
  then have cov: "(\<exists>q \<in> set ?ms. covers q i) \<longleftrightarrow> s \<le> i \<and> i < s + c" for i
    unfolding spans_okD(1) [OF assms(1), of 16 c, simplified]
    by (auto simp: image_iff intro: bexI [of _ "i - s"])
  from copy_replies_chunks [OF chunks assms(9)] obtain acc' where
    "ofold copy_reply ?ms acc = Ok acc'" "length acc' = length ?R"
    "\<forall>i < length ?R. acc' ! i = (if \<exists>m \<in> set ?ms. covers m i then Some (?R ! i) else acc ! i)" by auto
  then show ?thesis unfolding cov using assms(2) get by (auto simp: fetch_span_def)
qed

lemma run_fetch:
  assumes "spans_ok (Spans E)" and "net (Key server) = Some srv"
    and "rounds srv (service, r) = Some st" and "bidirectional st" and "authPrev srv ctx st = Ok ()"
    and "encryptDone st" and "length (replies st) < 2 ^ 32"
    and "\<forall>(s, c) \<in> set sps. s + c \<le> length (replies st)" and "length acc = length (replies st)"
  shows "\<exists>acc' us. run_all (fetch_span E net ctx server service r) sps acc = (acc', Ok us) \<and>
    length acc' = length (replies st) \<and>
    (\<forall>i < length (replies st). acc' ! i =
       (if \<exists>(s, c) \<in> set sps. s \<le> i \<and> i < s + c then Some (replies st ! i) else acc ! i))"
  using assms(8,9)
proof (induction sps arbitrary: acc)
  case (Cons sp sps)
  obtain s c where sp: "sp = (s, c)" by (cases sp)
  from fetch_span_Ok [where net = net and server = server, OF assms(1-7), of s c acc] Cons.prems sp obtain acc1 where
    1: "fetch_span E net ctx server service r sp acc = (acc1, Ok ())" "length acc1 = length (replies st)"
    "\<forall>i < length (replies st). acc1 ! i = (if s \<le> i \<and> i < s + c then Some (replies st ! i) else acc ! i)"
    by auto
  from Cons.IH [of acc1] Cons.prems 1(2) obtain acc2 us where
    2: "run_all (fetch_span E net ctx server service r) sps acc1 = (acc2, Ok us)"
    "length acc2 = length (replies st)"
    "\<forall>i < length (replies st). acc2 ! i =
       (if \<exists>(s, c) \<in> set sps. s \<le> i \<and> i < s + c then Some (replies st ! i) else acc1 ! i)" by auto
  show ?case using 1 2 sp by (intro exI [of _ acc2] exI [of _ "() # us"]) auto
qed simp

lemma RunRoundBidirectional_fetches:
  assumes "spans_ok (Spans E)" and "\<And>s n. Conns E s n = None"
    and "client_addOnions E close net ctx server service r onions = (net1, Ok result)"
    and "net1 (Key server) = Some srv"
    and "rounds srv (service, r) = Some st" and "bidirectional st" and "authPrev srv ctx st = Ok ()"
    and "encryptDone st" and "length onions < 2 ^ 32" and "length (replies st) = length onions"
  shows "RunRoundBidirectional E close net ctx server service r onions =
    (net1(Key server \<mapsto> srv\<lparr>rounds := (rounds srv)((service, r) := None)\<rparr>), Ok (map Some (replies st)))"
proof -
  let ?sp = "Spans E (length onions) (spanSize (length onions))"
  have "\<forall>(s, c) \<in> set ?sp. s + c \<le> length (replies st)"
    using spans_okD(2) [OF assms(1) spanSize_pos] assms(10) by auto
  from run_fetch [where net = net1 and server = server, OF assms(1,4-8) _ this, of "replicate (length onions) None"] assms(9,10)
  obtain acc us where run: "run_all (fetch_span E net1 ctx server service r) ?sp (replicate (length onions) None) = (acc, Ok us)"
    "length acc = length (replies st)"
    "\<forall>i < length (replies st). acc ! i =
      (if \<exists>(s, c) \<in> set ?sp. s \<le> i \<and> i < s + c then Some (replies st ! i) else None)" by auto
  have "\<exists>(s, c) \<in> set ?sp. s \<le> i \<and> i < s + c" if "i < length (replies st)" for i
  proof -
    have "i \<in> set (concat (map (\<lambda>(s, c). [s..<s + c]) ?sp))"
      unfolding spans_okD(1) [OF assms(1) spanSize_pos] using that assms(10) by simp
    then show ?thesis by auto
  qed
  then have "acc = map Some (replies st)" using run by (intro nth_equalityI) auto
  then show ?thesis
    using run(1) assms(2-5,7)
    by (simp add: RunRoundBidirectional_def Let_def wrap_err_def delete_later_def on_server_def
        deleteRound_def getRound_def)
qed

section \<open>The settings of a new round\<close>

lemma run_all_invariant:
  assumes "run_all f xs s = (s', rs)" and "I s"
    and "\<And>x s s' r. x \<in> set xs \<Longrightarrow> I s \<Longrightarrow> f x s = (s', r) \<Longrightarrow> I s' \<and> (\<forall>b. r = Ok b \<longrightarrow> R x b)"
  shows "I s' \<and> (\<forall>bs. rs = Ok bs \<longrightarrow> list_all2 R xs bs)"
  using assms
proof (induction xs arbitrary: s s' rs)
  case (Cons x xs)
  obtain s1 r where 1: "f x s = (s1, r)" by fastforce
  obtain s2 rs2 where 2: "run_all f xs s1 = (s2, rs2)" by fastforce
  have "I s1 \<and> (\<forall>b. r = Ok b \<longrightarrow> R x b)" using Cons.prems(2,3) 1 by auto
  moreover from this have "I s2 \<and> (\<forall>bs. rs2 = Ok bs \<longrightarrow> list_all2 R xs bs)"
    using Cons.IH [OF 2] Cons.prems(3) by auto
  moreover have "s' = s2" "rs = merge r rs2" using Cons.prems(1) 1 2 by auto
  ultimately show ?case by (cases r; cases rs2) auto
qed simp

text \<open>The signing keys of a network and the signatures it may hold for a round.\<close>

definition signers :: "'d net \<Rightarrow> bytes \<rightharpoonup> bytes" where
  "signers net k = map_option SigningKey (net k)"

definition net_sigs :: "'d net \<Rightarrow> service_round \<Rightarrow> (bytes \<Rightarrow> bytes option \<Rightarrow> bool) \<Rightarrow> bool" where
  "net_sigs net k Q \<longleftrightarrow> (\<forall>a srv st. net a = Some srv \<longrightarrow> rounds srv k = Some st \<longrightarrow>
     Q (SigningKey srv) (settingsSignature st))"

lemma on_server_inv:
  assumes "on_server net a h = (net', r)" and "signers net = sg" and "net_sigs net k Q"
    and "\<And>srv srv' r. net a = Some srv \<Longrightarrow> h srv = (srv', r) \<Longrightarrow>
      SigningKey srv' = SigningKey srv \<and>
      (\<forall>st. rounds srv' k = Some st \<longrightarrow> Q (SigningKey srv') (settingsSignature st)) \<and>
      (\<forall>b. r = Ok b \<longrightarrow> R (SigningKey srv) b)"
  shows "signers net' = sg \<and> net_sigs net' k Q \<and> (\<forall>b. r = Ok b \<longrightarrow> (\<exists>sk. sg a = Some sk \<and> R sk b))"
proof (cases "net a")
  case (Some srv)
  obtain srv' r' where h: "h srv = (srv', r')" by fastforce
  then have "net' = net(a \<mapsto> srv')" "r = r'" using assms(1) Some by (auto simp: on_server_def)
  moreover have "sg a = Some (SigningKey srv)" using assms(2) Some by (auto simp: signers_def)
  ultimately show ?thesis
    using assms(2,3) assms(4) [OF Some h] Some by (auto simp: signers_def net_sigs_def fun_eq_iff)
qed (use assms(1-3) in \<open>auto simp: on_server_def\<close>)

lemma newRound_sigs:
  assumes "newRound P srv ctx req kp = (srv', r)" and "rounds srv' k = Some st"
  shows "SigningKey srv' = SigningKey srv \<and> (rounds srv k = Some st \<or> settingsSignature st = None)"
  using assms
  by (auto simp: newRound_def sbind_def new_round_state_def split: outcome.splits option.splits prod.splits if_splits)

lemma newRound_key: "newRound P srv ctx req kp = (srv', r) \<Longrightarrow> SigningKey srv' = SigningKey srv"
  by (auto simp: newRound_def sbind_def split: outcome.splits option.splits prod.splits)

lemma setRoundSettings_sigs:
  assumes "setRoundSettings P enc srv ctx (Some (settings_Proto s)) = (srv', r)"
    and "\<forall>k \<in> set (OnionKeys s). length k = 32"
    and sig: "sig = Ed25519Sign P (SigningKey srv) (SigningMessage enc s)"
    and old: "\<And>st. rounds srv (Service s, Round s) = Some st \<Longrightarrow> settingsSignature st \<in> {None, Some sig}"
  shows "SigningKey srv' = SigningKey srv \<and>
    (\<forall>st. rounds srv' (Service s, Round s) = Some st \<longrightarrow> settingsSignature st \<in> {None, Some sig}) \<and>
    (\<forall>b. r = Ok b \<longrightarrow> b = sig)"
  using assms(1)
proof (cases rule: setRoundSettings_cases)
  case failed
  then show ?thesis using old by auto
next
  case (locked pbs s' st service)
  have "OnionKeys s' = OnionKeys s"
    using locked(1,8) assms(2) by (auto simp: settings_Proto_def intro!: map_idI)
  then have msg: "SigningMessage enc s' = SigningMessage enc s" "Service s' = Service s" "Round s' = Round s"
    using locked by (auto simp: SigningMessage_def settings_Proto_def)
  from locked(7) show ?thesis
    by (cases rule: sign_settings_cases) (use old locked msg sig in auto)
qed

abbreviation unsigned_sig :: "bytes \<Rightarrow> bytes option \<Rightarrow> bool" where
  "unsigned_sig \<equiv> \<lambda>_ sg. sg = None"

abbreviation sig_for :: "nacl \<Rightarrow> bytes \<Rightarrow> bytes \<Rightarrow> bytes option \<Rightarrow> bool" where
  "sig_for P msg \<equiv> \<lambda>sk sg. sg \<in> {None, Some (Ed25519Sign P sk msg)}"

lemma newRound_phase:
  assumes "run_all (newRound_on E ctx req) servers net = (net1, Ok keys)" and "net_sigs net k unsigned_sig"
  shows "(signers net1 = signers net \<and> net_sigs net1 k unsigned_sig) \<and>
    (\<forall>bs. (Ok keys :: (mix_err, bytes list) outcome) = Ok bs \<longrightarrow> list_all2 (\<lambda>_ b. length b = 32) servers bs)"
proof (rule run_all_invariant [OF assms(1)])
  fix server n n' r
  assume I: "signers n = signers net \<and> net_sigs n k unsigned_sig"
    and f: "newRound_on E ctx req server n = (n', r)"
  obtain r0 where on: "on_server n (Key server)
      (\<lambda>srv. newRound (Nacl E) srv ctx req (GenerateKey E (Key server))) = (n', r0)"
    and r: "r = wrap_err (''server '' @ Address server @ '': NewRound'')
                   (obind r0 (\<lambda>key. Ok (go_copy (replicate 32 0) key)))"
    using f by (auto simp: newRound_on_def split: prod.splits)
  have "signers n' = signers net \<and> net_sigs n' k unsigned_sig \<and>
      (\<forall>b. r0 = Ok b \<longrightarrow> (\<exists>sk. signers net (Key server) = Some sk \<and> True))"
  proof (rule on_server_inv [OF on])
    fix srv srv' r'
    assume srv: "n (Key server) = Some srv" and new: "newRound (Nacl E) srv ctx req (GenerateKey E (Key server)) = (srv', r')"
    have "settingsSignature st = None" if "rounds srv' k = Some st" for st
      using newRound_sigs [OF new that] I srv unfolding net_sigs_def by blast
    then show "SigningKey srv' = SigningKey srv \<and>
        (\<forall>st. rounds srv' k = Some st \<longrightarrow> settingsSignature st = None) \<and> (\<forall>b. r' = Ok b \<longrightarrow> True)"
      using newRound_key [OF new] by auto
  qed (use I in auto)
  then show "(signers n' = signers net \<and> net_sigs n' k unsigned_sig) \<and> (\<forall>b. r = Ok b \<longrightarrow> length b = 32)"
    using r by (cases r0) (auto simp: wrap_err_def)
qed (use assms(2) in simp)

lemma setSettings_phase:
  assumes "run_all (setSettings_on E enc ctx s) servers net1 = (net2, Ok sigs)"
    and "signers net1 = sg" and "net_sigs net1 (Service s, Round s) unsigned_sig"
    and "\<forall>k \<in> set (OnionKeys s). length k = 32"
  shows "list_all2 (\<lambda>server sig. \<exists>sk. sg (Key server) = Some sk \<and>
    sig = Ed25519Sign (Nacl E) sk (SigningMessage enc s)) servers sigs"
proof -
  let ?Q = "sig_for (Nacl E) (SigningMessage enc s)" and ?k = "(Service s, Round s)"
  let ?R = "\<lambda>server sig. \<exists>sk. sg (Key server) = Some sk \<and>
    sig = Ed25519Sign (Nacl E) sk (SigningMessage enc s)"
  have "(signers net2 = sg \<and> net_sigs net2 ?k ?Q) \<and>
      (\<forall>bs. (Ok sigs :: (mix_err, bytes list) outcome) = Ok bs \<longrightarrow> list_all2 ?R servers bs)"
  proof (rule run_all_invariant [OF assms(1)])
    show "signers net1 = sg \<and> net_sigs net1 ?k ?Q"
      using assms(2,3) by (auto simp: net_sigs_def)
  next
    fix server n n' r
    assume I: "signers n = sg \<and> net_sigs n ?k ?Q" and g: "setSettings_on E enc ctx s server n = (n', r)"
    obtain r0 where on: "on_server n (Key server)
        (\<lambda>srv. setRoundSettings (Nacl E) enc srv ctx (Some (settings_Proto s))) = (n', r0)"
      and r: "r = wrap_err (''server '' @ Address server @ '': SetRoundSettings'') r0"
      using g by (auto simp: setSettings_on_def split: prod.splits)
    have "signers n' = sg \<and> net_sigs n' ?k ?Q \<and> (\<forall>b. r0 = Ok b \<longrightarrow> ?R server b)"
    proof (rule on_server_inv [OF on])
      fix srv srv' r' assume "n (Key server) = Some srv"
        and set: "setRoundSettings (Nacl E) enc srv ctx (Some (settings_Proto s)) = (srv', r')"
      then have "\<And>st. rounds srv ?k = Some st \<Longrightarrow> ?Q (SigningKey srv) (settingsSignature st)"
        using I unfolding net_sigs_def by blast
      from setRoundSettings_sigs [OF set assms(4) refl this]
      show "SigningKey srv' = SigningKey srv \<and>
          (\<forall>st. rounds srv' ?k = Some st \<longrightarrow> ?Q (SigningKey srv') (settingsSignature st)) \<and>
          (\<forall>b. r' = Ok b \<longrightarrow> b = Ed25519Sign (Nacl E) (SigningKey srv) (SigningMessage enc s))"
        by auto
    qed (use I in auto)
    then show "(signers n' = sg \<and> net_sigs n' ?k ?Q) \<and> (\<forall>b. r = Ok b \<longrightarrow> ?R server b)"
      using r by (cases r0) (auto simp: wrap_err_def)
  qed
  then show ?thesis by auto
qed

lemma NewRound_signatures:
  assumes "client_NewRound E enc net ctx servers s = (net', Ok (s', sigs))"
    and "ed25519_correct (Nacl E)"
    and "\<forall>server srv. server \<in> set servers \<longrightarrow> net (Key server) = Some srv \<longrightarrow>
      Ed25519Public (Nacl E) (SigningKey srv) = Key server"
    and "\<forall>k srv. net k = Some srv \<longrightarrow> rounds srv (Service s, Round s) = None"
  shows "s' = s\<lparr>OnionKeys := OnionKeys s'\<rparr> \<and> length (OnionKeys s') = length servers \<and>
    list_all2 (\<lambda>server sig. Ed25519Verify (Nacl E) (Key server) (SigningMessage enc s') sig) servers sigs"
proof -
  let ?req = "\<lparr>nr_Service = Service s, nr_Round = Round s, nr_Chain = map psc_Proto servers\<rparr>"
  obtain net1 keys where run1: "run_all (newRound_on E ctx ?req) servers net = (net1, Ok keys)"
    and s': "s' = s\<lparr>OnionKeys := keys\<rparr>"
    and run2: "run_all (setSettings_on E enc ctx s') servers net1 = (net', Ok sigs)"
    using assms(1)
    by (auto simp: client_NewRound_def Let_def sbind_def split: option.splits prod.splits outcome.splits)
  have "net_sigs net (Service s, Round s) unsigned_sig" using assms(4) by (simp add: net_sigs_def)
  from newRound_phase [OF run1 this] have I1: "signers net1 = signers net"
    "net_sigs net1 (Service s, Round s) unsigned_sig" and keys: "list_all2 (\<lambda>_ b. length b = 32) servers keys"
    by auto
  have "list_all2 (\<lambda>server sig. \<exists>sk. signers net (Key server) = Some sk \<and>
      sig = Ed25519Sign (Nacl E) sk (SigningMessage enc s')) servers sigs"
    using I1 keys s'
    by (intro setSettings_phase [OF run2]) (auto simp: list_all2_conv_all_nth in_set_conv_nth)
  then have "list_all2 (\<lambda>server sig. Ed25519Verify (Nacl E) (Key server) (SigningMessage enc s') sig) servers sigs"
  proof (rule list.rel_mono_strong)
    fix server sig assume "server \<in> set servers"
      and "\<exists>sk. signers net (Key server) = Some sk \<and> sig = Ed25519Sign (Nacl E) sk (SigningMessage enc s')"
    then obtain srv where "net (Key server) = Some srv"
      "sig = Ed25519Sign (Nacl E) (SigningKey srv) (SigningMessage enc s')" by (auto simp: signers_def)
    moreover from this have "Key server = Ed25519Public (Nacl E) (SigningKey srv)"
      using \<open>server \<in> set servers\<close> assms(3) by auto
    ultimately show "Ed25519Verify (Nacl E) (Key server) (SigningMessage enc s') sig"
      using assms(2) by (simp add: ed25519_correct_def)
  qed
  then show ?thesis using s' keys by (auto dest: list_all2_lengthD)
qed

text \<open>
  C13. The coordinator's \<open>NewRound\<close> either fails or returns settings with one onion key per server,
  otherwise equal to the caller's, and one signature per server that verifies under that
  server's key for exactly these settings, for a round the servers have not seen before.
\<close>

theorem client_NewRound_signatures:
  assumes "client_NewRound E enc net ctx servers s = (net', Ok (s', sigs))"
    and "ed25519_correct (Nacl E)"
    and "\<forall>server srv. server \<in> set servers \<longrightarrow> net (Key server) = Some srv \<longrightarrow>
      Ed25519Public (Nacl E) (SigningKey srv) = Key server"
    and "\<forall>k srv. net k = Some srv \<longrightarrow> rounds srv (Service s, Round s) = None"
  shows "s' = s\<lparr>OnionKeys := OnionKeys s'\<rparr> \<and> length (OnionKeys s') = length servers \<and>
    list_all2 (\<lambda>server sig. Ed25519Verify (Nacl E) (Key server) (SigningMessage enc s') sig) servers sigs"
  using assms by (rule NewRound_signatures)

definition toy_env :: mix_env where
  "toy_env = \<lparr>Nacl = toy_nacl, Spans = unit_spans,
     NewShuffler = (\<lambda>_ _. \<lparr>Shuffle = rev, Unshuffle = rev\<rparr>), ReplyKeys = (\<lambda>_. toy_keys),
     GenerateKey = (\<lambda>_. Some (toy_public, toy_private)), Conns = (\<lambda>_ _. None)\<rparr>"

theorem client_NewRound_signatures_witness:
  "\<exists>net' s' sigs. client_NewRound toy_env toy_enc [toy_key \<mapsto> toy_server] toy_ctx
       [\<lparr>Key = toy_key, Address = ''a''\<rparr>] (empty_settings\<lparr>Service := ''Echo'', Round := 7\<rparr>) =
     (net', Ok (s', sigs)) \<and>
   list_all2 (\<lambda>server sig. Ed25519Verify toy_nacl (Key server) (SigningMessage toy_enc s') sig)
     [\<lparr>Key = toy_key, Address = ''a''\<rparr>] sigs"
proof -
  let ?run = "client_NewRound toy_env toy_enc [toy_key \<mapsto> toy_server] toy_ctx
    [\<lparr>Key = toy_key, Address = ''a''\<rparr>] (empty_settings\<lparr>Service := ''Echo'', Round := 7\<rparr>)"
  have new: "newRound toy_nacl toy_server toy_ctx \<lparr>nr_Service = ''Echo'', nr_Round = 7,
      nr_Chain = [psc_Proto \<lparr>Key = toy_key, Address = ''a''\<rparr>]\<rparr> (Some (toy_public, toy_private)) =
    (put_round toy_server toy_k toy_round, Ok toy_public)"
    using toy_newRound by (simp add: toy_new_def psc_Proto_def)
  have "length toy_public = 32" by (simp add: toy_public_def)
  then obtain net' s' sigs where run: "?run = (net', Ok (s', sigs))"
    using new toy_setRoundSettings
    by (simp add: client_NewRound_def Let_def toy_env_def newRound_on_def setSettings_on_def on_server_def
        empty_settings_def wrap_err_def settings_Proto_def toy_settings_def)
  moreover have "list_all2 (\<lambda>server sig. Ed25519Verify (Nacl toy_env) (Key server) (SigningMessage toy_enc s') sig)
      [\<lparr>Key = toy_key, Address = ''a''\<rparr>] sigs"
    using client_NewRound_signatures [OF run] toy_nacl_ok(3)
    by (auto simp: toy_env_def toy_nacl_def toy_server_def split: if_splits)
  ultimately show ?thesis by (auto simp: toy_env_def)
qed

end
