(* ===== verification/Mix_Chain.thy ===== *)
theory Mix_Chain
  imports Mix_Client
begin

text \<open>
  A round through a whole chain of servers. \<open>chain_replies\<close> says as a function what the servers do
  with a batch; \<open>bidirectional_service\<close> is the contract of the service at the end of the chain; the
  lemmas show that \<open>RunRoundBidirectional\<close> on the model of the servers computes \<open>chain_replies\<close>, and
  that each slot of it unwraps, under the keys its onion met, to the service's reply to its message.
\<close>

section \<open>One hop\<close>

definition hop_msg :: "nacl \<Rightarrow> u32 \<Rightarrow> 'd round_state \<Rightarrow> bytes \<Rightarrow> bytes option" where
  "hop_msg P r st onion = (if right_size st onion then slot_msg P r st onion else None)"

definition hop_key :: "nacl \<Rightarrow> 'd round_state \<Rightarrow> bytes \<Rightarrow> bytes" where
  "hop_key P st onion = (if right_size st onion then slot_key P st onion else replicate 32 0)"

text \<open>A round of a bidirectional service at position \<open>p\<close> of a chain that waits for its onions.\<close>

definition ready_round ::
  "'d mix_service \<Rightarrow> public_server_config list \<Rightarrow> nat \<Rightarrow> 'd round_state \<Rightarrow> bool" where
  "ready_round svc ch p st \<longleftrightarrow>
     \<not> muHeld st \<and> numIncoming st = 0 \<and> incoming st = [] \<and> sharedKeys st = [] \<and>
     decryptJobs st = [] \<and> \<not> closed st \<and> \<not> encryptDone st \<and> noiseDone st = Some True \<and>
     bidirectional st \<and> chain st = ch \<and> myPos st = p \<and> p < length ch \<and>
     incomingOnionSize st = (length ch - p) * onionbox_Overhead + SizeIncomingMessage svc"

text \<open>The state of such a round after \<open>CloseRound\<close> collected its batch.\<close>

definition collected :: "nacl \<Rightarrow> u32 \<Rightarrow> bytes list \<Rightarrow> 'd round_state \<Rightarrow> 'd round_state" where
  "collected P r onions st =
     st\<lparr>acceptingOnions := False, numIncoming := word_of_nat (length onions),
        sharedKeys := map (hop_key P st) onions,
        incomingIndex := kept_index {} 0 (map (hop_msg P r st) onions),
        closed := True, noise := [], incoming := []\<rparr>"

lemma hop_frame:
  assumes "bidirectional st' = bidirectional st" "incomingOnionSize st' = incomingOnionSize st"
    "onionPrivateKey st' = onionPrivateKey st"
  shows "hop_msg P r st' = hop_msg P r st" "hop_key P st' = hop_key P st"
    "slot_msg P r st' = slot_msg P r st" "slot_key P st' = slot_key P st"
  using assms by (auto simp: hop_msg_def hop_key_def slot_msg_def slot_key_def right_size_def)

lemma hop_msg_length:
  assumes "box_length P" and "bidirectional st" and "hop_msg P r st onion = Some m"
  shows "length m + 48 = incomingOnionSize st" and "right_size st onion"
    and "OpenAfterPrecomputation P (drop 32 onion) (ForwardNonce r) (slot_key P st onion) = Some m"
  using assms
  by (auto simp: hop_msg_def slot_msg_def right_size_def box_length_def box_Overhead_def split: if_splits)
    fastforce+

lemma drain_loaded:
  assumes "spans_ok (Spans E)" and "length onions < 2 ^ 32" and "ready_round svc ch p st"
  shows "drain_jobs P ((loaded E r onions st)\<lparr>acceptingOnions := False\<rparr>) =
    Ok (st\<lparr>acceptingOnions := False, numIncoming := word_of_nat (length onions),
           sharedKeys := map (hop_key P st) onions, incoming := map (hop_msg P r st) onions\<rparr>)"
proof (cases "onions = []")
  case True
  with assms(3) show ?thesis by (simp add: drain_jobs_def loaded_def ready_round_def)
next
  case False
  let ?st = "(loaded E r onions st)\<lparr>acceptingOnions := False\<rparr>"
  let ?n = "length onions"
  have jobs: "decryptJobs ?st = map (as_job r) (stream_reqs E onions)"
    using False assms(3) by (simp add: loaded_def ready_round_def as_job_def)
  have pairs: "concat (map job_pairs (decryptJobs ?st)) = zip [0..<?n] onions"
    unfolding jobs using stream_reqs_pairs [OF assms(1,2), of r] by (simp add: comp_def)
  have alloc: "incoming ?st = replicate ?n None" "sharedKeys ?st = replicate ?n (replicate 32 0)"
    "bidirectional ?st" "incomingOnionSize ?st = incomingOnionSize st"
    "onionPrivateKey ?st = onionPrivateKey st"
    using False assms(2,3) unat32_of_nat [OF assms(2)]
    by (simp_all add: loaded_def opened_def alloc_slots_def ready_round_def)
  have "48 \<le> (length ch - p) * 48" if "p < length ch" using that by simp
  then have "slots_alloc ?st"
    using alloc assms(3) by (simp add: slots_alloc_def ready_round_def onionbox_Overhead_def)
  then have drained: "drain_jobs P ?st = Ok (?st\<lparr>decryptJobs := [],
    sharedKeys := (if bidirectional ?st
      then map (\<lambda>(x, old). if length x = incomingOnionSize ?st then slot_key P ?st x else old)
             (zip onions (sharedKeys ?st)) else sharedKeys ?st),
    incoming := map (\<lambda>(x, old). if length x = incomingOnionSize ?st then slot_msg P r ?st x else old)
             (zip onions (incoming ?st))\<rparr>)"
    using alloc pairs
    by (intro drain_jobs_all) (simp_all add: jobs as_job_def list_all_iff)
  have keys: "map (\<lambda>(x, old). if length x = incomingOnionSize ?st then slot_key P ?st x else old)
      (zip onions (sharedKeys ?st)) = map (hop_key P st) onions"
    using alloc hop_frame(4) [of ?st st P] assms(3)
    by (auto intro!: nth_equalityI simp: hop_key_def right_size_def ready_round_def)
  have msgs: "map (\<lambda>(x, old). if length x = incomingOnionSize ?st then slot_msg P r ?st x else old)
      (zip onions (incoming ?st)) = map (hop_msg P r st) onions"
    using alloc hop_frame(3) [of ?st st P r] assms(3)
    by (auto intro!: nth_equalityI simp: hop_msg_def right_size_def ready_round_def)
  show ?thesis
    unfolding drained keys msgs using False assms(3) alloc(3)
    by (cases st) (simp add: loaded_def opened_def alloc_slots_def ready_round_def)
qed

lemma collect_loaded:
  assumes "spans_ok (Spans E)" and "length onions < 2 ^ 32" and "ready_round svc ch p st"
    and "box_length P" and "8 \<le> SizeIncomingMessage svc"
  shows "closeRound_collect P ((loaded E r onions st)\<lparr>acceptingOnions := False\<rparr>) =
    Ok (collected P r onions st, kept {} (map (hop_msg P r st) onions) @ noise st,
        length (kept {} (map (hop_msg P r st) onions)))"
proof -
  let ?ms = "map (hop_msg P r st) onions"
  have "bidirectional st" using assms(3) by (simp add: ready_round_def)
  moreover have "56 \<le> incomingOnionSize st"
    using assms(3,5) mult_le_mono1 [of 1 "length ch - p" 48]
    by (auto simp: ready_round_def onionbox_Overhead_def)
  ultimately have "8 \<le> length m" if "hop_msg P r st x = Some m" for x m
    using hop_msg_length(1) [OF assms(4) _ that] by simp
  then have long: "long_msgs ?ms" by (auto dest: sym)
  show ?thesis
    unfolding closeRound_collect_def drain_loaded [OF assms(1-3)] obind.simps
    using assms(3) long
    by (simp add: filterIncoming_kept collected_def ready_round_def comp_def Let_def)
qed

section \<open>The chain as a function\<close>

locale bidirectional_service =
  fixes svc :: "'d mix_service"
  assumes two_way: "Bidirectional svc"
    and incoming_size: "8 \<le> SizeIncomingMessage svc"
    and reply_size: "0 < SizeReplyMessage svc"
    and handles: "list_all (\<lambda>m. length m = SizeIncomingMessage svc) ms \<Longrightarrow>
      \<exists>rs. HandleMessages svc s ms = Ok (HandledReplies rs) \<and> length rs = length ms"

text \<open>The replies of a bidirectional service.\<close>

definition served :: "'d mix_service \<Rightarrow> 'd round_settings \<Rightarrow> bytes list \<Rightarrow> bytes option list" where
  "served svc s ms = (case HandleMessages svc s ms of Ok (HandledReplies rs) \<Rightarrow> rs | _ \<Rightarrow> [])"

text \<open>
  What a chain of servers returns for a batch of onions, as a function: each hop peels the onions,
  drops duplicates, adds its noise and shuffles; the last one asks the service; on the way back each
  hop undoes the shuffle, drops the noise and seals the reply of every slot.
\<close>

definition hop_valid :: "mix_env \<Rightarrow> u32 \<Rightarrow> 'd round_state \<Rightarrow> bytes list \<Rightarrow> bytes list" where
  "hop_valid E r st onions = kept {} (map (hop_msg (Nacl E) r st) onions)"

definition hop_index :: "mix_env \<Rightarrow> u32 \<Rightarrow> 'd round_state \<Rightarrow> bytes list \<Rightarrow> int list" where
  "hop_index E r st onions = kept_index {} 0 (map (hop_msg (Nacl E) r st) onions)"

definition hop_batch :: "mix_env \<Rightarrow> bytes \<Rightarrow> bytes list \<Rightarrow> bytes list" where
  "hop_batch E k out = map the (Shuffle (NewShuffler E k (length out)) (map Some out))"

definition hop_seal ::
  "mix_env \<Rightarrow> 'd mix_service \<Rightarrow> u32 \<Rightarrow> bytes \<Rightarrow> 'd round_state \<Rightarrow> bytes list \<Rightarrow> bytes option list \<Rightarrow> bytes list"
  where
  "hop_seal E svc r k st onions rs =
     map (\<lambda>(i, v). reply_slot (Nacl E) r (replyMsgSize svc st) (ReplyKeys E k)
            (map (hop_key (Nacl E) st) onions) rs i v)
       (zip [0..<length onions] (hop_index E r st onions))"

fun chain_replies ::
  "mix_env \<Rightarrow> 'd mix_service \<Rightarrow> u32 \<Rightarrow> (bytes \<times> 'd round_state) list \<Rightarrow> bytes list \<Rightarrow> bytes list" where
  "chain_replies E svc r [] onions = []"
| "chain_replies E svc r ((k, st) # hs) onions =
     (let out = hop_valid E r st onions @ noise st in
      hop_seal E svc r k st onions
        (if hs = [] then served svc (settings st) out
         else take (length (hop_valid E r st onions))
                (Unshuffle (NewShuffler E k (length out))
                   (map Some (chain_replies E svc r hs (hop_batch E k out))))))"

lemma length_chain_replies: "hops \<noteq> [] \<Longrightarrow> length (chain_replies E svc r hops onions) = length onions"
  by (cases hops) (auto simp: Let_def hop_seal_def hop_index_def)

text \<open>The servers of a chain, from position \<open>p\<close> on, wait for the onions of a round.\<close>

fun ready_hops ::
  "mix_env \<Rightarrow> 'd net \<Rightarrow> 'd mix_service \<Rightarrow> string \<Rightarrow> u32 \<Rightarrow> public_server_config list \<Rightarrow> nat \<Rightarrow>
   (bytes \<times> 'd round_state) list \<Rightarrow> bool" where
  "ready_hops E net svc service r ch p [] \<longleftrightarrow> p = length ch"
| "ready_hops E net svc service r ch p ((k, st) # hs) \<longleftrightarrow>
     (case net k of None \<Rightarrow> False | Some srv \<Rightarrow>
        Ed25519Public (Nacl E) (SigningKey srv) = k \<and> rounds srv (service, r) = Some st \<and>
        Services srv service = Some svc) \<and>
     ready_round svc ch p st \<and> Key (ch ! p) = k \<and> (hs = [] \<longrightarrow> noise st = []) \<and>
     k \<notin> fst ` set hs \<and> ready_hops E net svc service r ch (Suc p) hs"

lemma ready_hops_frame:
  "(\<And>k. k \<in> fst ` set hs \<Longrightarrow> net' k = net k) \<Longrightarrow>
   ready_hops E net' svc service r ch p hs = ready_hops E net svc service r ch p hs"
  by (induction hs arbitrary: p) auto

lemma ready_hops_length: "ready_hops E net svc service r ch p hs \<Longrightarrow> length ch = p + length hs"
  by (induction hs arbitrary: p) auto

lemma index_bounded_kept: "length (kept {} ms) \<le> n \<Longrightarrow> index_bounded (kept_index {} 0 ms) n"
  unfolding index_bounded_def list_all_length
  using kept_index_spec [where S = "{}" and n = 0 and ms = ms]
  by (auto split: if_splits) (metis diff_zero order_less_le_trans)+

lemma hop_batch_perm:
  assumes "shuffle_ok (NewShuffler E)"
  obtains p where "bij_betw p {..<length out} {..<length out}"
    and "hop_batch E k out = map (\<lambda>i. out ! p i) [0..<length out]"
    and "\<And>xs. length xs = length out \<Longrightarrow>
      Unshuffle (NewShuffler E k (length out)) (map (\<lambda>i. xs ! p i) [0..<length out]) = xs"
proof -
  obtain p where p: "bij_betw p {..<length out} {..<length out}"
    "\<And>xs. length xs = length out \<Longrightarrow>
       Shuffle (NewShuffler E k (length out)) xs = map (\<lambda>i. xs ! p i) [0..<length out] \<and>
       Unshuffle (NewShuffler E k (length out)) (map (\<lambda>i. xs ! p i) [0..<length out]) = xs"
    using assms unfolding shuffle_ok_def by metis
  have "p i < length out" if "i < length out" for i using p(1) that by (auto simp: bij_betw_def)
  then have "hop_batch E k out = map (\<lambda>i. out ! p i) [0..<length out]"
    unfolding hop_batch_def by (simp add: p(2))
  with p that show thesis by blast
qed

lemma Unshuffle_length:
  fixes E :: mix_env and out :: "bytes list"
  assumes "shuffle_ok (NewShuffler E)" and "length ys = length out"
  shows "length (Unshuffle (NewShuffler E k (length out)) ys) = length out"
proof -
  obtain p where p: "bij_betw p {..<length out} {..<length out}"
    "\<And>xs. length xs = length out \<Longrightarrow>
      Unshuffle (NewShuffler E k (length out)) (map (\<lambda>i. xs ! p i) [0..<length out]) = xs"
    using hop_batch_perm [OF assms(1), of out k] by metis
  define q where "q = inv_into {..<length out} p"
  have q: "q (p i) = i" "p i < length out" if "i < length out" for i
    using p(1) that unfolding q_def by (auto simp: bij_betw_def)
  let ?xs = "map (\<lambda>i. ys ! q i) [0..<length out]"
  have "map (\<lambda>i. ?xs ! p i) [0..<length out] = ys"
    using q assms(2) by (intro nth_equalityI) auto
  with p(2) [of ?xs] show ?thesis by simp
qed

lemma hop_batch_length: "shuffle_ok (NewShuffler E) \<Longrightarrow> length (hop_batch E k out) = length out"
  by (rule hop_batch_perm [of E out k]) auto

lemma length_kept: "length (kept S ms) \<le> length ms"
  by (induction S ms rule: kept.induct) auto

lemma set_kept: "m \<in> set (kept S ms) \<Longrightarrow> Some m \<in> set ms"
  by (induction S ms rule: kept.induct) (auto split: if_splits)

lemma closeRound_loaded:
  assumes "spans_ok (Spans E)" and "box_length (Nacl E)" and "8 \<le> SizeIncomingMessage svc"
    and "length onions < 2 ^ 32" and "ready_round svc ch p st"
    and "net me = Some (put_round srv (service, r) (loaded E r onions st))"
    and "authPrev srv ctx st = Ok ()"
    and "srv1 = put_round srv (service, r) ((loaded E r onions st)\<lparr>acceptingOnions := False\<rparr>)"
    and "st' = collected (Nacl E) r onions st"
  shows "closeRound (Suc fuel) E net me ctx service r =
    (if p < length ch - 1
     then closeRound_forward E (closeRound fuel E) (net(me \<mapsto> srv1)) me srv1 service r st'
            (hop_valid E r st onions @ noise st) (length (hop_valid E r st onions))
     else case closeRound_last (Nacl E) (ReplyKeys E me) (put_round srv1 (service, r) st')
                 service r st' (hop_valid E r st onions @ noise st) of
       (srv2, r2) \<Rightarrow> (net(me \<mapsto> srv2), r2))"
proof -
  have fields: "\<not> muHeld (loaded E r onions st)" "\<not> closed (loaded E r onions st)"
    "myPos (loaded E r onions st) = p" "chain (loaded E r onions st) = ch"
    using assms(5) by (auto simp: loaded_def opened_def alloc_slots_def ready_round_def)
  have "authPrev (put_round srv (service, r) (loaded E r onions st)) ctx (loaded E r onions st) = Ok ()"
    using assms(5,7) authPrev_frame [of _ srv "loaded E r onions st" st ctx] fields
    by (simp add: ready_round_def)
  then have "closeRound_check (put_round srv (service, r) (loaded E r onions st)) ctx service r =
      (srv1, Ok Proceed)"
    using fields assms(8) by (simp add: closeRound_check_def getRound_def)
  moreover have "myPos st' = p" "chain st' = ch"
    using assms(5,9) by (simp_all add: collected_def ready_round_def)
  ultimately show ?thesis
    using assms(6,8,9) collect_loaded [OF assms(1,4,5,2,3), of r]
    by (simp add: getRound_def hop_valid_def)
qed

section \<open>The servers implement it\<close>

definition hops_size :: "(bytes \<times> 'd round_state) list \<Rightarrow> nat" where
  "hops_size hops = sum_list (map (\<lambda>h. length (noise (snd h))) hops)"

definition replied :: "mix_env \<Rightarrow> u32 \<Rightarrow> bytes list \<Rightarrow> 'd round_state \<Rightarrow> bytes list \<Rightarrow> 'd round_state" where
  "replied E r onions st out = (collected (Nacl E) r onions st)\<lparr>replies := out, encryptDone := True\<rparr>"

lemma replied_fields:
  "bidirectional (replied E r onions st out) = bidirectional st"
  "encryptDone (replied E r onions st out)" "replies (replied E r onions st out) = out"
  "myPos (replied E r onions st out) = myPos st" "chain (replied E r onions st out) = chain st"
  by (simp_all add: replied_def collected_def)

lemma encryptReplies_collected:
  assumes "ready_round svc ch p st" and "0 < SizeReplyMessage svc"
    and "length (hop_valid E r st onions) \<le> length rs"
  shows "encryptReplies (Nacl E) (ReplyKeys E k) svc r rs (collected (Nacl E) r onions st) =
    Ok (replied E r onions st (hop_seal E svc r k st onions rs))"
proof -
  let ?st = "collected (Nacl E) r onions st"
  have ix: "incomingIndex ?st = hop_index E r st onions" by (simp add: collected_def hop_index_def)
  have "replyMsgSize svc ?st = replyMsgSize svc st" by (simp add: replyMsgSize_def collected_def)
  moreover have "index_bounded (incomingIndex ?st) (length rs)"
    unfolding ix hop_index_def using assms(3) by (intro index_bounded_kept) (simp add: hop_valid_def)
  moreover have "0 < replyMsgSize svc st" using assms(2) by (simp add: replyMsgSize_def)
  moreover have "length (incomingIndex ?st) \<le> length (sharedKeys ?st)"
    by (simp add: collected_def)
  moreover have "\<not> encryptDone ?st" using assms(1) by (simp add: collected_def ready_round_def)
  ultimately show ?thesis
    by (simp add: encryptReplies_Ok hop_seal_def ix replied_def)
      (simp add: hop_index_def collected_def)
qed

lemma RunRound_hop:
  assumes "spans_ok (Spans E)" and "\<And>s n. Conns E s n = None"
    and "net (Key server) = Some srv" and "length onions < 2 ^ 32"
    and "rounds srv (service, r) = Some st" and "ready_round svc ch p st"
    and "authPrev srv ctx st = Ok ()"
    and "close (net(Key server \<mapsto> put_round srv (service, r) (loaded E r onions st)))
           (Key server) ctx service r = (net1, Ok result)"
    and "net1 (Key server) = Some (put_round srv (service, r) (replied E r onions st out))"
    and "length out = length onions"
  shows "RunRoundBidirectional E close net ctx server service r onions =
    (net1(Key server \<mapsto> srv\<lparr>rounds := (rounds srv)((service, r) := None)\<rparr>), Ok (map Some out))"
proof -
  let ?srv = "put_round srv (service, r) (replied E r onions st out)"
  have "client_addOnions E close net ctx server service r onions = (net1, Ok result)"
    using client_addOnions_loads [where net = net and server = server and close = close, OF assms(1,2,3,4,5,7)] assms(6,8)
    by (simp add: ready_round_def)
  moreover have "authPrev ?srv ctx (replied E r onions st out) = Ok ()"
    using assms(7) authPrev_frame [of ?srv srv "replied E r onions st out" st ctx]
    by (simp add: replied_fields)
  ultimately have "RunRoundBidirectional E close net ctx server service r onions =
     (net1(Key server \<mapsto> ?srv\<lparr>rounds := (rounds ?srv)((service, r) := None)\<rparr>),
      Ok (map Some (replies (replied E r onions st out))))"
    using assms(1,2,4,6,9,10)
    by (intro RunRoundBidirectional_fetches) (simp_all add: replied_fields ready_round_def)
  then show ?thesis by (simp add: replied_fields put_round_def)
qed

context bidirectional_service
begin

lemma handled_last:
  assumes "box_length (Nacl E)" and "ready_round svc ch p st" and "Suc p = length ch" and "noise st = []"
  shows "HandleMessages svc (settings st) (hop_valid E r st onions @ noise st) =
      Ok (HandledReplies (served svc (settings st) (hop_valid E r st onions @ noise st)))"
    and "length (served svc (settings st) (hop_valid E r st onions @ noise st)) =
      length (hop_valid E r st onions)"
proof -
  have "length m = SizeIncomingMessage svc" if "m \<in> set (hop_valid E r st onions)" for m
  proof -
    have "Some m \<in> set (map (hop_msg (Nacl E) r st) onions)"
      using that unfolding hop_valid_def by (rule set_kept)
    then obtain x where "hop_msg (Nacl E) r st x = Some m" by (auto dest: sym)
    moreover have "length ch - p = 1" using assms(3) by simp
    ultimately show ?thesis
      using hop_msg_length(1) [OF assms(1), of st r x m] assms(2,3)
      by (auto simp: ready_round_def onionbox_Overhead_def)
  qed
  then have "list_all (\<lambda>m. length m = SizeIncomingMessage svc) (hop_valid E r st onions @ noise st)"
    using assms(4) by (simp add: list_all_iff)
  from handles [OF this, of "settings st"]
  show "HandleMessages svc (settings st) (hop_valid E r st onions @ noise st) =
      Ok (HandledReplies (served svc (settings st) (hop_valid E r st onions @ noise st)))"
    and "length (served svc (settings st) (hop_valid E r st onions @ noise st)) =
      length (hop_valid E r st onions)"
    using assms(4) by (auto simp: served_def)
qed

lemma close_last:
  assumes env: "spans_ok (Spans E)" "box_length (Nacl E)"
    and "length onions < 2 ^ 32" and "ready_round svc ch p st" and "Suc p = length ch" and "noise st = []"
    and "net me = Some (put_round srv (service, r) (loaded E r onions st))"
    and "Services srv service = Some svc" and "authPrev srv ctx st = Ok ()"
  shows "closeRound (Suc fuel) E net me ctx service r =
    (net(me \<mapsto> put_round srv (service, r)
       (replied E r onions st (chain_replies E svc r [(me, st)] onions))), Ok [])"
proof -
  let ?out = "hop_valid E r st onions @ noise st"
  have bid: "bidirectional (collected (Nacl E) r onions st)" "settings (collected (Nacl E) r onions st) = settings st"
    using assms(4) by (simp_all add: collected_def ready_round_def)
  note h = handled_last [OF env(2) assms(4,5,6), of r onions]
  have "encryptReplies (Nacl E) (ReplyKeys E me) svc r (served svc (settings st) ?out)
      (collected (Nacl E) r onions st) =
    Ok (replied E r onions st (hop_seal E svc r me st onions (served svc (settings st) ?out)))"
    using assms(4) reply_size h(2) by (intro encryptReplies_collected) simp_all
  then show ?thesis
    unfolding closeRound_loaded [where net = net and me = me, OF env incoming_size assms(3,4,7,9) refl refl]
    using assms(8) h(1) bid
    by (simp add: closeRound_last_def Let_def assms(5) [symmetric])
qed

end

lemma hop_out_length:
  "length (hop_valid E r st onions @ noise st) \<le> length onions + length (noise st)"
  using length_kept [of "{}" "map (hop_msg (Nacl E) r st) onions"] by (simp add: hop_valid_def)

lemma ready_hops_Cons:
  assumes "ready_hops E net svc service r ch p ((k, st) # hs)"
  obtains srv where "net k = Some srv" "Ed25519Public (Nacl E) (SigningKey srv) = k"
    "rounds srv (service, r) = Some st" "Services srv service = Some svc"
    "ready_round svc ch p st" "Key (ch ! p) = k" "hs = [] \<Longrightarrow> noise st = []"
    "k \<notin> fst ` set hs" "ready_hops E net svc service r ch (Suc p) hs"
  using assms by (auto split: option.splits)

text \<open>The next server accepts its predecessor.\<close>

lemma next_authPrev:
  assumes "ready_round svc ch (Suc p) st" and "Key (ch ! p) = k"
  shows "authPrev srv (Some (TLSInfo [Ed25519Key k])) st = Ok ()"
  using assms by (simp add: authPrev_Ok_iff ready_round_def prev_key_def)

context bidirectional_service
begin

lemma close_forward:
  assumes env: "spans_ok (Spans E)" "box_length (Nacl E)" "shuffle_ok (NewShuffler E)"
    and "length onions < 2 ^ 32" and "ready_round svc ch p st" and "p < length ch - 1"
    and "net me = Some (put_round srv (service, r) (loaded E r onions st))"
    and "Services srv service = Some svc" and "authPrev srv ctx st = Ok ()"
    and "Ed25519Public (Nacl E) (SigningKey srv) = me"
    and "RunRoundBidirectional E (closeRound fuel E)
           (net(me \<mapsto> put_round srv (service, r) ((collected (Nacl E) r onions st)\<lparr>muHeld := True\<rparr>)))
           (Some (TLSInfo [Ed25519Key me])) (ch ! Suc p) service r
           (hop_batch E me (hop_valid E r st onions @ noise st)) =
         (net2, Ok (map Some (chain_replies E svc r hs (hop_batch E me (hop_valid E r st onions @ noise st)))))"
    and "net2 me = Some (put_round srv (service, r) ((collected (Nacl E) r onions st)\<lparr>muHeld := True\<rparr>))"
    and "hs \<noteq> []"
  shows "closeRound (Suc fuel) E net me ctx service r =
    (net2(me \<mapsto> put_round srv (service, r)
       (replied E r onions st (chain_replies E svc r ((me, st) # hs) onions))), Ok [])"
proof -
  let ?st = "collected (Nacl E) r onions st"
  let ?out = "hop_valid E r st onions @ noise st"
  let ?srv1 = "put_round srv (service, r) ((loaded E r onions st)\<lparr>acceptingOnions := False\<rparr>)"
  let ?rs = "Unshuffle (NewShuffler E me (length ?out))
    (map Some (chain_replies E svc r hs (hop_batch E me ?out)))"
  have st: "bidirectional ?st" "myPos ?st = p" "chain ?st = ch"
    using assms(5) by (simp_all add: collected_def ready_round_def)
  have store: "store_round (net(me \<mapsto> ?srv1)) me (service, r) (?st\<lparr>muHeld := True\<rparr>) =
      net(me \<mapsto> put_round srv (service, r) (?st\<lparr>muHeld := True\<rparr>))"
    by (simp add: store_round_def)
  have "length ?rs = length ?out"
    using assms(13) hop_batch_length [OF env(3)] length_chain_replies [of hs E svc r]
    by (intro Unshuffle_length [OF env(3)]) simp
  then have rs: "\<not> length ?rs < length (hop_valid E r st onions)" by simp
  then have "encryptReplies (Nacl E) (ReplyKeys E me) svc r (take (length (hop_valid E r st onions)) ?rs) ?st =
    Ok (replied E r onions st (hop_seal E svc r me st onions (take (length (hop_valid E r st onions)) ?rs)))"
    using assms(5) reply_size by (intro encryptReplies_collected) simp_all
  moreover have "map the (Shuffle (NewShuffler E me (length ?out)) (map Some ?out)) = hop_batch E me ?out"
    by (simp add: hop_batch_def)
  ultimately show ?thesis
    unfolding closeRound_loaded [where net = net and me = me, OF env(1,2) incoming_size assms(4,5,7,9) refl refl]
      closeRound_forward_def Let_def store
    using assms(6,8,10-13) rs st by (simp add: store_round_def Let_def)
qed

text \<open>
  Closing a round at one server of the chain, given that the rest of the chain returns the replies
  to the batch this server forwards.
\<close>

lemma close_hop:
  assumes env: "spans_ok (Spans E)" "box_length (Nacl E)" "shuffle_ok (NewShuffler E)"
    and ready: "ready_hops E net svc service r ch p ((k, st) # hs)" "net k = Some srv" "authPrev srv ctx st = Ok ()"
    and n: "length onions < 2 ^ 32"
    and rest: "hs \<noteq> [] \<Longrightarrow> \<exists>net'.
      RunRoundBidirectional E (closeRound f E)
          (net(k \<mapsto> put_round srv (service, r) ((collected (Nacl E) r onions st)\<lparr>muHeld := True\<rparr>)))
          (Some (TLSInfo [Ed25519Key k])) (ch ! Suc p) service r (hop_batch E k (hop_valid E r st onions @ noise st)) =
        (net', Ok (map Some (chain_replies E svc r hs (hop_batch E k (hop_valid E r st onions @ noise st))))) \<and>
      (\<forall>k'. k' \<notin> fst ` set hs \<longrightarrow>
        net' k' = (net(k \<mapsto> put_round srv (service, r) ((collected (Nacl E) r onions st)\<lparr>muHeld := True\<rparr>))) k')"
  shows "\<exists>net2. closeRound (Suc f) E (net(k \<mapsto> put_round srv (service, r) (loaded E r onions st))) k ctx service r =
      (net2(k \<mapsto> put_round srv (service, r) (replied E r onions st (chain_replies E svc r ((k, st) # hs) onions))), Ok []) \<and>
    (\<forall>k'. k' \<notin> insert k (fst ` set hs) \<longrightarrow> net2 k' = net k')"
proof -
  let ?net1 = "net(k \<mapsto> put_round srv (service, r) (loaded E r onions st))"
  have hop: "Ed25519Public (Nacl E) (SigningKey srv) = k" "rounds srv (service, r) = Some st"
    "Services srv service = Some svc" "ready_round svc ch p st" "hs = [] \<Longrightarrow> noise st = []"
    "k \<notin> fst ` set hs" "ready_hops E net svc service r ch (Suc p) hs"
    using ready(1,2) by simp_all
  show ?thesis
  proof (cases "hs = []")
    case True
    then have "Suc p = length ch" using hop(7) by simp
    then show ?thesis
      using close_last [OF env(1,2) n hop(4) _ hop(5), where net = ?net1 and me = k] True hop(3) ready(3)
      by (intro exI [of _ net]) simp
  next
    case False
    have p: "p < length ch - 1" using ready_hops_length [OF hop(7)] False by (cases hs) auto
    from rest [OF False] obtain net2 where net2:
      "RunRoundBidirectional E (closeRound f E)
          (net(k \<mapsto> put_round srv (service, r) ((collected (Nacl E) r onions st)\<lparr>muHeld := True\<rparr>)))
          (Some (TLSInfo [Ed25519Key k])) (ch ! Suc p) service r (hop_batch E k (hop_valid E r st onions @ noise st)) =
        (net2, Ok (map Some (chain_replies E svc r hs (hop_batch E k (hop_valid E r st onions @ noise st)))))"
      "\<And>k'. k' \<notin> fst ` set hs \<Longrightarrow>
        net2 k' = (net(k \<mapsto> put_round srv (service, r) ((collected (Nacl E) r onions st)\<lparr>muHeld := True\<rparr>))) k'" by blast
    have "closeRound (Suc f) E ?net1 k ctx service r =
        (net2(k \<mapsto> put_round srv (service, r) (replied E r onions st (chain_replies E svc r ((k, st) # hs) onions))), Ok [])"
      using net2 hop False by (intro close_forward [OF env n hop(4) p]) (simp_all add: ready(3))
    then show ?thesis using net2(2) by (intro exI [of _ net2]) auto
  qed
qed

lemma chain_round:
  assumes env: "spans_ok (Spans E)" "box_length (Nacl E)" "shuffle_ok (NewShuffler E)"
    "\<And>s n. Conns E s n = None"
    and "ready_hops E net svc service r ch p hops" and "hops \<noteq> []" and "length hops \<le> fuel"
    and "length onions + hops_size hops < 2 ^ 32"
    and "net (fst (hd hops)) = Some srv" and "authPrev srv ctx (snd (hd hops)) = Ok ()"
  shows "\<exists>net'. RunRoundBidirectional E (closeRound fuel E) net ctx (ch ! p) service r onions =
      (net', Ok (map Some (chain_replies E svc r hops onions))) \<and>
    (\<forall>k. k \<notin> fst ` set hops \<longrightarrow> net' k = net k)"
  using assms(5-)
proof (induction hops arbitrary: net p fuel onions srv ctx)
  case (Cons h hs)
  obtain k st where h: "h = (k, st)" by (cases h)
  obtain f where fuel: "fuel = Suc f" using Cons.prems(3) by (cases fuel) auto
  have ready: "net k = Some srv" "rounds srv (service, r) = Some st" "Services srv service = Some svc"
    "Key (ch ! p) = k" "k \<notin> fst ` set hs" "ready_hops E net svc service r ch (Suc p) hs"
    "Ed25519Public (Nacl E) (SigningKey srv) = k" "ready_round svc ch p st"
    using Cons.prems(1,5) h by simp_all
  have auth: "authPrev srv ctx st = Ok ()" and n: "length onions < 2 ^ 32" using Cons.prems(4,6) h by auto
  let ?out = "hop_valid E r st onions @ noise st"
  let ?netA = "net(k \<mapsto> put_round srv (service, r) ((collected (Nacl E) r onions st)\<lparr>muHeld := True\<rparr>))"
  have rest: "\<exists>net'. RunRoundBidirectional E (closeRound f E) ?netA (Some (TLSInfo [Ed25519Key k]))
        (ch ! Suc p) service r (hop_batch E k ?out) =
      (net', Ok (map Some (chain_replies E svc r hs (hop_batch E k ?out)))) \<and>
    (\<forall>k'. k' \<notin> fst ` set hs \<longrightarrow> net' k' = ?netA k')" if ne: "hs \<noteq> []"
  proof -
    obtain k2 st2 hs2 where hs: "hs = (k2, st2) # hs2" using ne by (cases hs) auto
    obtain srv2 where srv2: "net k2 = Some srv2" "ready_round svc ch (Suc p) st2"
      using ready(6) unfolding hs by (rule ready_hops_Cons)
    have size: "length (hop_batch E k ?out) + hops_size hs < 2 ^ 32"
      using Cons.prems(4) hop_out_length [of E r st onions] hop_batch_length [OF env(3), of k ?out] h
      by (simp add: hops_size_def)
    have readyA: "ready_hops E ?netA svc service r ch (Suc p) hs"
      using ready(5) by (intro ready_hops_frame [THEN iffD2, OF _ ready(6)]) auto
    show ?thesis
      using Cons.prems(3) fuel srv2 ready(5) hs next_authPrev [OF srv2(2) ready(4)]
      by (intro Cons.IH [OF readyA ne _ size, of f srv2]) auto
  qed
  obtain net2 where net2: "closeRound (Suc f) E (net(k \<mapsto> put_round srv (service, r) (loaded E r onions st))) k ctx service r =
      (net2(k \<mapsto> put_round srv (service, r) (replied E r onions st (chain_replies E svc r (h # hs) onions))), Ok [])"
    "\<And>k'. k' \<notin> insert k (fst ` set hs) \<Longrightarrow> net2 k' = net k'"
    using close_hop [OF env(1-3) _ ready(1) auth n rest] Cons.prems(1) h by blast
  have "RunRoundBidirectional E (closeRound fuel E) net ctx (ch ! p) service r onions =
    ((net2(k \<mapsto> put_round srv (service, r) (replied E r onions st (chain_replies E svc r (h # hs) onions))))
       (Key (ch ! p) \<mapsto> srv\<lparr>rounds := (rounds srv)((service, r) := None)\<rparr>),
     Ok (map Some (chain_replies E svc r (h # hs) onions)))"
    using ready n auth net2(1) fuel length_chain_replies [of "h # hs" E svc r onions]
    by (intro RunRound_hop [OF env(1,4)]) simp_all
  then show ?case using net2(2) h ready(4) by auto
qed simp

end

section \<open>Each slot gets the reply to its message\<close>

text \<open>How one onion travels: the keys it meets and the message that reaches the service.\<close>

fun onion_path ::
  "nacl \<Rightarrow> u32 \<Rightarrow> (bytes \<times> 'd round_state) list \<Rightarrow> bytes \<Rightarrow> (bytes list \<times> bytes) option" where
  "onion_path P r [] onion = Some ([], onion)"
| "onion_path P r ((k, st) # hs) onion =
     (case hop_msg P r st onion of
        None \<Rightarrow> None
      | Some m \<Rightarrow> map_option (\<lambda>(ks, m'). (slot_key P st onion # ks, m')) (onion_path P r hs m))"

text \<open>The batch that reaches the service, and whether the onion of slot \<open>i\<close> is part of it.\<close>

fun chain_batch ::
  "mix_env \<Rightarrow> u32 \<Rightarrow> (bytes \<times> 'd round_state) list \<Rightarrow> bytes list \<Rightarrow> bytes list" where
  "chain_batch E r [] onions = onions"
| "chain_batch E r ((k, st) # hs) onions =
     (let out = hop_valid E r st onions @ noise st in
      if hs = [] then out else chain_batch E r hs (hop_batch E k out))"

fun survives ::
  "mix_env \<Rightarrow> u32 \<Rightarrow> (bytes \<times> 'd round_state) list \<Rightarrow> bytes list \<Rightarrow> nat \<Rightarrow> bool" where
  "survives E r [] onions i = True"
| "survives E r ((k, st) # hs) onions i =
     (let ms = map (hop_msg (Nacl E) r st) onions;
          batch = hop_batch E k (hop_valid E r st onions @ noise st) in
      \<not> is_dup {} ms i \<and>
      (hs = [] \<or> list_all (\<lambda>j. batch ! j = the (ms ! i) \<longrightarrow> survives E r hs batch j) [0..<length batch]))"

text \<open>What the sender does with a reply: one layer per server, the first server's outermost.\<close>

fun unwrap :: "nacl \<Rightarrow> u32 \<Rightarrow> bytes list \<Rightarrow> bytes \<Rightarrow> bytes option" where
  "unwrap P r [] c = Some c"
| "unwrap P r (k # ks) c =
     (case OpenAfterPrecomputation P c (BackwardNonce r) k of None \<Rightarrow> None | Some m \<Rightarrow> unwrap P r ks m)"

lemma hop_seal_length:
  assumes "box_length (Nacl E)" and "c \<in> set (hop_seal E svc r k st onions rs)"
  shows "length c = replyMsgSize svc st + box_Overhead"
  using assms by (auto simp: hop_seal_def reply_slot_def box_length_def)

lemma chain_replies_length:
  assumes "box_length (Nacl E)" and "c \<in> set (chain_replies E svc r ((k, st) # hs) onions)"
  shows "length c = replyMsgSize svc st + box_Overhead"
  using assms(2) by (simp only: chain_replies.simps Let_def) (rule hop_seal_length [OF assms(1)])

lemma Unshuffle_nth:
  fixes E :: mix_env and out :: "bytes list"
  assumes "bij_betw p {..<length out} {..<length out}"
    and "\<And>xs. length xs = length out \<Longrightarrow>
      Unshuffle (NewShuffler E k (length out)) (map (\<lambda>i. xs ! p i) [0..<length out]) = xs"
    and "length ys = length out" and "j < length out"
  shows "Unshuffle (NewShuffler E k (length out)) ys ! p j = ys ! j"
proof -
  define q where "q = inv_into {..<length out} p"
  have q: "q (p i) = i" "p i < length out" if "i < length out" for i
    using assms(1) that unfolding q_def by (auto simp: bij_betw_def)
  let ?xs = "map (\<lambda>i. ys ! q i) [0..<length out]"
  have "map (\<lambda>i. ?xs ! p i) [0..<length out] = ys"
    using q assms(3) by (intro nth_equalityI) auto
  with assms(2) [of ?xs] q [OF assms(4)] show ?thesis by simp
qed

lemma hop_seal_opens:
  assumes "box_roundtrip (Nacl E)" and "i < length onions"
    and "hop_index E r st onions ! i = int v" and "rs ! v = Some rep"
    and "length rep = replyMsgSize svc st" and "right_size st (onions ! i)"
  shows "OpenAfterPrecomputation (Nacl E) (hop_seal E svc r k st onions rs ! i) (BackwardNonce r)
    (slot_key (Nacl E) st (onions ! i)) = Some rep"
proof -
  have "length (hop_index E r st onions) = length onions" by (simp add: hop_index_def)
  then show ?thesis
    using assms by (simp add: hop_seal_def reply_slot_def box_roundtrip_def hop_key_def)
qed

lemma survivor_index:
  assumes "i < length onions" and "\<not> is_dup {} (map (hop_msg (Nacl E) r st) onions) i"
  obtains m v where "hop_msg (Nacl E) r st (onions ! i) = Some m" and "hop_index E r st onions ! i = int v"
    and "v < length (hop_valid E r st onions)" and "hop_valid E r st onions ! v = m"
  using kept_index_spec [of i "map (hop_msg (Nacl E) r st) onions" "{}" 0] assms
  by (auto simp: hop_index_def hop_valid_def)

text \<open>Where a slot of the outgoing batch goes in the shuffle, and that its reply comes back.\<close>

lemma shuffled_slot:
  assumes "shuffle_ok (NewShuffler E)" and "v < length out"
  obtains j where "j < length (hop_batch E k out)" "hop_batch E k out ! j = out ! v"
    "\<And>rs. length rs = length out \<Longrightarrow> Unshuffle (NewShuffler E k (length out)) rs ! v = rs ! j"
proof -
  obtain p' where p': "bij_betw p' {..<length out} {..<length out}"
    "hop_batch E k out = map (\<lambda>i. out ! p' i) [0..<length out]"
    "\<And>xs. length xs = length out \<Longrightarrow>
      Unshuffle (NewShuffler E k (length out)) (map (\<lambda>i. xs ! p' i) [0..<length out]) = xs"
    by (rule hop_batch_perm [OF assms(1), of out k]) (rule that)
  have "v \<in> p' ` {..<length out}"
    using bij_betw_imp_surj_on [OF p'(1)] assms(2) by (simp only: lessThan_iff)
  then obtain j where j: "j < length out" "p' j = v" by blast
  show thesis
  proof (rule that [of j])
    fix rs :: "bytes option list" assume "length rs = length out"
    then show "Unshuffle (NewShuffler E k (length out)) rs ! v = rs ! j"
      using Unshuffle_nth [OF p'(1,3), of rs j] j by simp
  qed (use p'(2) j in simp_all)
qed

lemma next_reply_length:
  assumes "box_length (Nacl E)" and "ready_round svc ch p st" and "ready_hops E net svc service r ch (Suc p) hs"
    and "hs \<noteq> []" and "j < length (chain_replies E svc r hs batch)"
  shows "length (chain_replies E svc r hs batch ! j) = replyMsgSize svc st"
proof -
  obtain k2 st2 hs2 where hs: "hs = (k2, st2) # hs2" using assms(4) by (cases hs) auto
  have "length (chain_replies E svc r hs batch ! j) = replyMsgSize svc st2 + box_Overhead"
    using chain_replies_length [OF assms(1), of _ svc r k2 st2 hs2 batch] assms(5) hs by auto
  moreover have "length ch - p - 1 = Suc (length ch - Suc p - 1)"
    using ready_hops_length [OF assms(3)] hs by simp
  ultimately show ?thesis using assms(2,3) hs by (auto simp: replyMsgSize_def ready_round_def)
qed

lemma chain_reply_unwraps:
  assumes env: "box_roundtrip (Nacl E)" "box_length (Nacl E)" "shuffle_ok (NewShuffler E)"
    and "ready_hops E net svc service r ch p hops" and "hops \<noteq> []"
    and "i < length onions" and "survives E r hops onions i"
  shows "\<exists>ks msg pos. onion_path (Nacl E) r hops (onions ! i) = Some (ks, msg) \<and>
    pos < length (chain_batch E r hops onions) \<and> chain_batch E r hops onions ! pos = msg \<and>
    (\<forall>rep. served svc (settings (snd (last hops))) (chain_batch E r hops onions) ! pos = Some rep \<and>
       length rep = SizeReplyMessage svc \<longrightarrow>
       unwrap (Nacl E) r ks (chain_replies E svc r hops onions ! i) = Some rep)"
  using assms(4-)
proof (induction hops arbitrary: p onions i)
  case (Cons h hs)
  obtain k st where h: "h = (k, st)" by (cases h)
  let ?out = "hop_valid E r st onions @ noise st"
  let ?batch = "hop_batch E k ?out"
  have ready: "ready_round svc ch p st" "ready_hops E net svc service r ch (Suc p) hs"
    using Cons.prems(1) h by auto
  have "\<not> is_dup {} (map (hop_msg (Nacl E) r st) onions) i"
    using Cons.prems(4) h by (simp add: Let_def)
  with Cons.prems(3) obtain m v where m: "hop_msg (Nacl E) r st (onions ! i) = Some m"
    and v: "hop_index E r st onions ! i = int v" "v < length (hop_valid E r st onions)"
      "hop_valid E r st onions ! v = m" by (rule survivor_index)
  have out: "v < length ?out" "?out ! v = m" using v by (simp_all add: nth_append)
  have size: "right_size st (onions ! i)"
    using hop_msg_length(2) [OF env(2) _ m] ready(1) by (simp add: ready_round_def)
  note opens = hop_seal_opens [OF env(1) Cons.prems(3) v(1) _ _ size]
  show ?case
  proof (cases "hs = []")
    case True
    then have "Suc p = length ch" using ready(2) by simp
    then have "replyMsgSize svc st = SizeReplyMessage svc"
      using ready(1) by (auto simp: replyMsgSize_def ready_round_def)
    then show ?thesis
      using True h m out opens [of _ _ svc k]
      by (intro exI [of _ "[slot_key (Nacl E) st (onions ! i)]"] exI [of _ m] exI [of _ v])
        (auto simp: Let_def)
  next
    case False
    obtain j where batch: "j < length ?batch" "?batch ! j = m"
      and unshuffled: "\<And>rs. length rs = length ?out \<Longrightarrow> Unshuffle (NewShuffler E k (length ?out)) rs ! v = rs ! j"
      by (rule shuffled_slot [OF env(3) out(1), of k]) (use out(2) that in simp)
    then have "survives E r hs ?batch j"
      using batch Cons.prems(3,4) h False m by (auto simp: Let_def list_all_iff)
    from Cons.IH [OF ready(2) False batch(1) this] obtain ks msg pos where
      path: "onion_path (Nacl E) r hs m = Some (ks, msg)" "pos < length (chain_batch E r hs ?batch)"
      "chain_batch E r hs ?batch ! pos = msg"
      and inner: "\<And>rep. served svc (settings (snd (last hs))) (chain_batch E r hs ?batch) ! pos = Some rep \<Longrightarrow>
        length rep = SizeReplyMessage svc \<Longrightarrow>
        unwrap (Nacl E) r ks (chain_replies E svc r hs ?batch ! j) = Some rep"
      unfolding batch(2) by blast
    let ?c = "chain_replies E svc r hs ?batch ! j"
    let ?rs = "take (length (hop_valid E r st onions)) (Unshuffle (NewShuffler E k (length ?out))
      (map Some (chain_replies E svc r hs ?batch)))"
    have len: "length (chain_replies E svc r hs ?batch) = length ?out"
      using length_chain_replies [OF False] hop_batch_length [OF env(3)] by simp
    then have "?rs ! v = Some ?c"
      using unshuffled [of "map Some (chain_replies E svc r hs ?batch)"] batch(1) hop_batch_length [OF env(3), of k ?out] v(2) by simp
    moreover have "length ?c = replyMsgSize svc st"
      using next_reply_length [OF env(2) ready False] len batch(1) hop_batch_length [OF env(3), of k ?out] by simp
    ultimately have "OpenAfterPrecomputation (Nacl E) (chain_replies E svc r (h # hs) onions ! i)
        (BackwardNonce r) (slot_key (Nacl E) st (onions ! i)) = Some ?c"
      using opens [of ?rs ?c svc k] False h by (simp add: Let_def)
    then show ?thesis
      using path inner False h m
      by (intro exI [of _ "slot_key (Nacl E) st (onions ! i) # ks"] exI [of _ msg] exI [of _ pos])
        (simp add: Let_def)
  qed
qed simp

end
