(* ===== verification/Json.thy ===== *)
theory Json
  imports Prelude
begin

text \<open>
  The part of \<open>encoding/json\<close> the repository relies on for its persisted state and configuration:
  documents as trees, the compact and the indented printer, the parser, and the rules by which a
  document is decoded into a struct. Documents are strings of bytes in UTF-8.
\<close>

section \<open>Documents\<close>

datatype json = JNull | JBool bool | JNum string | JStr string | JArr "json list"
  | JObj "(string \<times> json) list"

definition is_digit :: "char \<Rightarrow> bool" where
  "is_digit c \<longleftrightarrow> digit_of c \<noteq> None"

definition is_ws :: "char \<Rightarrow> bool" where
  "is_ws c \<longleftrightarrow> c = CHR 0x20 \<or> c = CHR 0x09 \<or> c = CHR 0x0A \<or> c = CHR 0x0D"

definition skip_ws :: "string \<Rightarrow> string" where
  "skip_ws s = dropWhile is_ws s"

section \<open>Strings\<close>

definition hex_digit :: "nat \<Rightarrow> char" where
  "hex_digit n = (if n < 10 then char_of (48 + n) else char_of (87 + n))"

definition hex_value :: "char \<Rightarrow> nat option" where
  "hex_value c =
     (let n = of_char c :: nat in
      if 48 \<le> n \<and> n \<le> 57 then Some (n - 48)
      else if 97 \<le> n \<and> n \<le> 102 then Some (n - 87)
      else if 65 \<le> n \<and> n \<le> 70 then Some (n - 55)
      else None)"

fun hex_number :: "nat \<Rightarrow> string \<Rightarrow> nat option" where
  "hex_number acc [] = Some acc"
| "hex_number acc (c # cs) =
     (case hex_value c of None \<Rightarrow> None | Some d \<Rightarrow> hex_number (acc * 16 + d) cs)"

text \<open>The four digits of a \<open>\\u\<close> escape.\<close>

definition u4 :: "string \<Rightarrow> nat option" where
  "u4 s = (if length s < 4 then None else hex_number 0 (take 4 s))"

definition utf8 :: "nat \<Rightarrow> string" where
  "utf8 n =
     (if n < 0x80 then [char_of n]
      else if n < 0x800 then [char_of (0xC0 + n div 64), char_of (0x80 + n mod 64)]
      else if n < 0x10000 then
        [char_of (0xE0 + n div 4096), char_of (0x80 + n div 64 mod 64), char_of (0x80 + n mod 64)]
      else [char_of (0xF0 + n div 262144), char_of (0x80 + n div 4096 mod 64),
            char_of (0x80 + n div 64 mod 64), char_of (0x80 + n mod 64)])"

definition escape_value :: "char \<Rightarrow> char option" where
  "escape_value c =
     (if c = CHR 0x22 \<or> c = CHR 0x5C \<or> c = CHR 0x2F then Some c
      else if c = CHR ''b'' then Some (CHR 0x08)
      else if c = CHR ''f'' then Some (CHR 0x0C)
      else if c = CHR ''n'' then Some (CHR 0x0A)
      else if c = CHR ''r'' then Some (CHR 0x0D)
      else if c = CHR ''t'' then Some (CHR 0x09)
      else None)"

text \<open>The second half of a surrogate pair, if the rest of the string starts with one.\<close>

definition low_surrogate :: "string \<Rightarrow> nat option" where
  "low_surrogate s =
     (if take 2 s = [CHR 0x5C, CHR ''u''] then
        (case u4 (drop 2 s) of
           Some m \<Rightarrow> if 0xDC00 \<le> m \<and> m < 0xE000 then Some m else None
         | None \<Rightarrow> None)
      else None)"

definition prepend :: "string \<Rightarrow> (string \<times> 'a) option \<Rightarrow> (string \<times> 'a) option" where
  "prepend p r = map_option (\<lambda>(s, x). (p @ s, x)) r"

text \<open>The characters of a string after its opening quote. A lone surrogate becomes U+FFFD.\<close>

fun pstr :: "string \<Rightarrow> (string \<times> string) option" where
  "pstr [] = None"
| "pstr (c # r) =
     (if c = CHR 0x22 then Some ([], r)
      else if c = CHR 0x5C then
        (case r of
           [] \<Rightarrow> None
         | e # r' \<Rightarrow>
             if e = CHR ''u'' then
               (case u4 r' of
                  None \<Rightarrow> None
                | Some n \<Rightarrow>
                    if 0xD800 \<le> n \<and> n < 0xE000 then
                      (case if n < 0xDC00 then low_surrogate (drop 4 r') else None of
                         Some m \<Rightarrow> prepend (utf8 (0x10000 + (n - 0xD800) * 1024 + (m - 0xDC00)))
                                     (pstr (drop 10 r'))
                       | None \<Rightarrow> prepend (utf8 0xFFFD) (pstr (drop 4 r')))
                    else prepend (utf8 n) (pstr (drop 4 r')))
             else (case escape_value e of
                     None \<Rightarrow> None
                   | Some ch \<Rightarrow> prepend [ch] (pstr r')))
      else if (of_char c :: nat) < 0x20 then None
      else prepend [c] (pstr r))"

text \<open>
  The encoder escapes quotes, backslashes, control characters, the HTML characters, and the two line
  separators U+2028 and U+2029.
\<close>

definition jesc_char :: "char \<Rightarrow> string" where
  "jesc_char c =
     (if c = CHR 0x22 \<or> c = CHR 0x5C then [CHR 0x5C, c]
      else if c = CHR 0x08 then [CHR 0x5C, CHR ''b'']
      else if c = CHR 0x0C then [CHR 0x5C, CHR ''f'']
      else if c = CHR 0x0A then [CHR 0x5C, CHR ''n'']
      else if c = CHR 0x0D then [CHR 0x5C, CHR ''r'']
      else if c = CHR 0x09 then [CHR 0x5C, CHR ''t'']
      else if (of_char c :: nat) < 0x20 \<or> c = CHR ''<'' \<or> c = CHR ''>'' \<or> c = CHR ''&'' then
        [CHR 0x5C, CHR ''u'', CHR ''0'', CHR ''0'', hex_digit (of_char c div 16), hex_digit (of_char c mod 16)]
      else [c])"

fun jesc :: "string \<Rightarrow> string" where
  "jesc [] = []"
| "jesc (c # r) =
     (if c = CHR 0xE2 \<and> take 2 r = [CHR 0x80, CHR 0xA8] then
        [CHR 0x5C, CHR ''u'', CHR ''2'', CHR ''0'', CHR ''2'', CHR ''8''] @ jesc (drop 2 r)
      else if c = CHR 0xE2 \<and> take 2 r = [CHR 0x80, CHR 0xA9] then
        [CHR 0x5C, CHR ''u'', CHR ''2'', CHR ''0'', CHR ''2'', CHR ''9''] @ jesc (drop 2 r)
      else jesc_char c @ jesc r)"

section \<open>Numbers\<close>

definition scan_nat :: "string \<Rightarrow> (string \<times> string) option" where
  "scan_nat s =
     (case s of
        [] \<Rightarrow> None
      | c # t \<Rightarrow> if c = CHR ''0'' then Some ([c], t)
                  else if is_digit c then Some (takeWhile is_digit s, dropWhile is_digit s)
                  else None)"

definition scan_digits :: "string \<Rightarrow> string \<Rightarrow> (string \<times> string) option" where
  "scan_digits pre s =
     (if takeWhile is_digit s = [] then None
      else Some (pre @ takeWhile is_digit s, dropWhile is_digit s))"

definition scan_frac :: "string \<Rightarrow> (string \<times> string) option" where
  "scan_frac s = (if take 1 s = ''.'' then scan_digits ''.'' (drop 1 s) else Some ([], s))"

definition scan_exp :: "string \<Rightarrow> (string \<times> string) option" where
  "scan_exp s =
     (if take 1 s = ''e'' \<or> take 1 s = ''E'' then
        let t = drop 1 s in
        if take 1 t = ''+'' \<or> take 1 t = ''-'' then scan_digits (take 2 s) (drop 1 t)
        else scan_digits (take 1 s) t
      else Some ([], s))"

definition scan_number :: "string \<Rightarrow> (string \<times> string) option" where
  "scan_number s =
     (let neg = (take 1 s = ''-'') in
      Option.bind (scan_nat (if neg then drop 1 s else s)) (\<lambda>(n, r1).
        Option.bind (scan_frac r1) (\<lambda>(f, r2).
          Option.bind (scan_exp r2) (\<lambda>(e, r3).
            Some ((if neg then ''-'' else []) @ n @ f @ e, r3)))))"

definition print_int :: "int \<Rightarrow> string" where
  "print_int i = (if i < 0 then ''-'' @ print_nat (nat (- i)) else print_nat (nat i))"

section \<open>Parser\<close>

text \<open>
  The fuel bounds the nesting and the number of elements; each call consumes input, so the length of
  the document is enough.
\<close>

fun pval :: "nat \<Rightarrow> string \<Rightarrow> (json \<times> string) option"
  and pelems :: "nat \<Rightarrow> string \<Rightarrow> (json list \<times> string) option"
  and pmembers :: "nat \<Rightarrow> string \<Rightarrow> ((string \<times> json) list \<times> string) option" where
  "pval 0 s = None"
| "pval (Suc n) s =
     (case skip_ws s of
        [] \<Rightarrow> None
      | c # r \<Rightarrow>
          if c = CHR 0x22 then map_option (\<lambda>(t, r'). (JStr t, r')) (pstr r)
          else if c = CHR ''{'' then
            if take 1 (skip_ws r) = ''}'' then Some (JObj [], drop 1 (skip_ws r))
            else map_option (\<lambda>(ms, r'). (JObj ms, r')) (pmembers n r)
          else if c = CHR ''['' then
            if take 1 (skip_ws r) = '']'' then Some (JArr [], drop 1 (skip_ws r))
            else map_option (\<lambda>(vs, r'). (JArr vs, r')) (pelems n r)
          else if take 4 (c # r) = ''true'' then Some (JBool True, drop 4 (c # r))
          else if take 5 (c # r) = ''false'' then Some (JBool False, drop 5 (c # r))
          else if take 4 (c # r) = ''null'' then Some (JNull, drop 4 (c # r))
          else map_option (\<lambda>(t, r'). (JNum t, r')) (scan_number (c # r)))"
| "pelems 0 s = None"
| "pelems (Suc n) s =
     (case pval n s of
        None \<Rightarrow> None
      | Some (v, r) \<Rightarrow>
          if take 1 (skip_ws r) = '','' then map_option (\<lambda>(vs, r'). (v # vs, r')) (pelems n (drop 1 (skip_ws r)))
          else if take 1 (skip_ws r) = '']'' then Some ([v], drop 1 (skip_ws r))
          else None)"
| "pmembers 0 s = None"
| "pmembers (Suc n) s =
     (if take 1 (skip_ws s) \<noteq> [CHR 0x22] then None
      else case pstr (drop 1 (skip_ws s)) of
        None \<Rightarrow> None
      | Some (k, r) \<Rightarrow>
          if take 1 (skip_ws r) \<noteq> '':'' then None
          else case pval n (drop 1 (skip_ws r)) of
            None \<Rightarrow> None
          | Some (v, r2) \<Rightarrow>
              if take 1 (skip_ws r2) = '','' then
                map_option (\<lambda>(ms, r'). ((k, v) # ms, r')) (pmembers n (drop 1 (skip_ws r2)))
              else if take 1 (skip_ws r2) = ''}'' then Some ([(k, v)], drop 1 (skip_ws r2))
              else None)"

definition json_parse :: "string \<Rightarrow> json option" where
  "json_parse s =
     (case pval (Suc (2 * length s)) s of
        None \<Rightarrow> None
      | Some (v, r) \<Rightarrow> if skip_ws r = [] then Some v else None)"

section \<open>Printer\<close>

text \<open>
  \<open>nl d\<close> is what separates elements at nesting depth \<open>d\<close>, \<open>sp\<close> what follows a colon: nothing in the
  compact form, a line break with two spaces per level and a space in the indented one.
\<close>

definition jquote :: "string \<Rightarrow> string" where
  "jquote s = [CHR 0x22] @ jesc s @ [CHR 0x22]"

fun jpr :: "(nat \<Rightarrow> string) \<Rightarrow> string \<Rightarrow> nat \<Rightarrow> json \<Rightarrow> string"
  and jpr_elems :: "(nat \<Rightarrow> string) \<Rightarrow> string \<Rightarrow> nat \<Rightarrow> json list \<Rightarrow> string"
  and jpr_members :: "(nat \<Rightarrow> string) \<Rightarrow> string \<Rightarrow> nat \<Rightarrow> (string \<times> json) list \<Rightarrow> string" where
  "jpr nl sp d JNull = ''null''"
| "jpr nl sp d (JBool b) = (if b then ''true'' else ''false'')"
| "jpr nl sp d (JNum t) = t"
| "jpr nl sp d (JStr s) = jquote s"
| "jpr nl sp d (JArr vs) = (if vs = [] then ''[]'' else ''['' @ jpr_elems nl sp d vs)"
| "jpr nl sp d (JObj ms) = (if ms = [] then ''{}'' else ''{'' @ jpr_members nl sp d ms)"
| "jpr_elems nl sp d [] = []"
| "jpr_elems nl sp d (v # vs) =
     nl (Suc d) @ jpr nl sp (Suc d) v @ (if vs = [] then nl d @ '']'' else '','' @ jpr_elems nl sp d vs)"
| "jpr_members nl sp d [] = []"
| "jpr_members nl sp d ((k, v) # ms) =
     nl (Suc d) @ jquote k @ '':'' @ sp @ jpr nl sp (Suc d) v @
     (if ms = [] then nl d @ ''}'' else '','' @ jpr_members nl sp d ms)"

definition json_print :: "json \<Rightarrow> string" where
  "json_print v = jpr (\<lambda>_. []) [] 0 v"

definition json_indent :: "json \<Rightarrow> string" where
  "json_indent v = jpr (\<lambda>d. CHR 0x0A # replicate (2 * d) CHR 0x20) '' '' 0 v"

section \<open>Decoding into structs\<close>

text \<open>
  A key selects a field by case folding, which also identifies U+017F with s and U+212A with k. Keys
  are handled in the order of the document, so the last one counts; null leaves a field as it is.
\<close>

definition to_lower :: "char \<Rightarrow> char" where
  "to_lower c = (let n = of_char c :: nat in if 65 \<le> n \<and> n \<le> 90 then char_of (n + 32) else c)"

fun jfold :: "string \<Rightarrow> string" where
  "jfold [] = []"
| "jfold (c # r) =
     (if take 2 (c # r) = [CHR 0xC5, CHR 0xBF] then CHR ''s'' # jfold (drop 1 r)
      else if take 3 (c # r) = [CHR 0xE2, CHR 0x84, CHR 0xAA] then CHR ''k'' # jfold (drop 2 r)
      else to_lower c # jfold r)"

definition field_values :: "string \<Rightarrow> (string \<times> json) list \<Rightarrow> json list" where
  "field_values name ms = filter (\<lambda>v. v \<noteq> JNull) (map snd (filter (\<lambda>m. jfold (fst m) = jfold name) ms))"

text \<open>
  A field whose value has the wrong type is left as it was, decoding goes on, and the call returns
  an error in the end; \<open>dec\<close> decodes a value of the field's type.
\<close>

definition dec_field :: "(json \<Rightarrow> 'a option) \<Rightarrow> string \<Rightarrow> 'a \<Rightarrow> (string \<times> json) list \<Rightarrow> 'a \<times> bool" where
  "dec_field dec name dflt ms =
     fold (\<lambda>v (a, ok). case dec v of Some b \<Rightarrow> (b, ok) | None \<Rightarrow> (a, False)) (field_values name ms) (dflt, True)"

definition dec_uint32 :: "json \<Rightarrow> u32 option" where
  "dec_uint32 v = (case v of JNum t \<Rightarrow> ParseUint32 t | _ \<Rightarrow> None)"

definition dec_string :: "json \<Rightarrow> string option" where
  "dec_string v = (case v of JStr s \<Rightarrow> Some s | _ \<Rightarrow> None)"

text \<open>\<open>int\<close> is a 64-bit integer.\<close>

definition dec_int :: "json \<Rightarrow> int option" where
  "dec_int v =
     (case v of
        JNum t \<Rightarrow>
          (let neg = (take 1 t = ''-'') in
           case parse_digits 0 (if neg then drop 1 t else t) of
             None \<Rightarrow> None
           | Some n \<Rightarrow> (let i = (if neg then - int n else int n) in
                         if - (2 ^ 63) \<le> i \<and> i < 2 ^ 63 then Some i else None))
      | _ \<Rightarrow> None)"

section \<open>Round trips\<close>

lemma hex_value_digit [simp]: "n < 16 \<Longrightarrow> hex_value (hex_digit n) = Some n"
  by (auto simp: hex_value_def hex_digit_def)

lemma u4_escape: "n < 256 \<Longrightarrow>
    u4 (CHR ''0'' # CHR ''0'' # hex_digit (n div 16) # hex_digit (n mod 16) # r) = Some n"
proof -
  assume "n < 256"
  then have "n div 16 < 16" "n div 16 * 16 + n mod 16 = n" by (simp_all add: less_mult_imp_div_less)
  moreover have "hex_value (CHR ''0'') = Some 0" by (simp add: hex_value_def)
  ultimately show ?thesis by (simp add: u4_def)
qed

lemma prepend_Some [simp]: "prepend p (Some (s, x)) = Some (p @ s, x)"
  by (simp add: prepend_def)

lemma of_char_less: "(of_char c :: nat) < 256"
  by simp

lemma pstr_jesc_char: "pstr (jesc_char c @ r) = prepend [c] (pstr r)"
proof -
  have u: "u4 (CHR ''0'' # CHR ''0'' # hex_digit (of_char c div 16) # hex_digit (of_char c mod 16) # r) = Some (of_char c)"
    by (rule u4_escape) simp
  show ?thesis
  proof (cases "(of_char c :: nat) < 0x20 \<or> c = CHR ''<'' \<or> c = CHR ''>'' \<or> c = CHR ''&''")
    case True
    then have "(of_char c :: nat) < 0x80" by auto
    with True u show ?thesis
      by (auto simp: jesc_char_def escape_value_def utf8_def)
  next
    case False
    then show ?thesis by (auto simp: jesc_char_def escape_value_def)
  qed
qed

lemma char_lits:
  "char_of (226 :: nat) = CHR 0xE2" "char_of (128 :: nat) = CHR 0x80" "char_of (168 :: nat) = CHR 0xA8"
  "char_of (169 :: nat) = CHR 0xA9" "char_of (48 :: nat) = CHR ''0''"
  by code_simp+

lemma pstr_sep:
  "pstr ([CHR 0x5C, CHR ''u'', CHR ''2'', CHR ''0'', CHR ''2'', CHR ''8''] @ r) =
     prepend [CHR 0xE2, CHR 0x80, CHR 0xA8] (pstr r)"
  "pstr ([CHR 0x5C, CHR ''u'', CHR ''2'', CHR ''0'', CHR ''2'', CHR ''9''] @ r) =
     prepend [CHR 0xE2, CHR 0x80, CHR 0xA9] (pstr r)"
  by (simp_all add: u4_def hex_value_def utf8_def Let_def char_lits)

lemma take2_split: "take 2 r = [a, b] \<Longrightarrow> a # b # drop 2 r = r"
  by (metis append_Cons append_Nil append_take_drop_id)

lemma pstr_jesc: "pstr (jesc s @ CHR 0x22 # r) = Some (s, r)"
proof (induction s rule: jesc.induct)
  case (2 c s)
  consider (ls) "c = CHR 0xE2 \<and> take 2 s = [CHR 0x80, CHR 0xA8]"
    | (ps) "c = CHR 0xE2 \<and> take 2 s = [CHR 0x80, CHR 0xA9]"
    | (plain) "\<not> (c = CHR 0xE2 \<and> take 2 s = [CHR 0x80, CHR 0xA8])"
        "\<not> (c = CHR 0xE2 \<and> take 2 s = [CHR 0x80, CHR 0xA9])" by blast
  then show ?case
  proof cases
    case ls
    then have "jesc (c # s) @ CHR 0x22 # r =
        [CHR 0x5C, CHR ''u'', CHR ''2'', CHR ''0'', CHR ''2'', CHR ''8''] @ jesc (drop 2 s) @ CHR 0x22 # r" by simp
    then show ?thesis using 2(1) ls take2_split [of s] by (simp only: pstr_sep prepend_Some) auto
  next
    case ps
    then have "jesc (c # s) @ CHR 0x22 # r =
        [CHR 0x5C, CHR ''u'', CHR ''2'', CHR ''0'', CHR ''2'', CHR ''9''] @ jesc (drop 2 s) @ CHR 0x22 # r" by simp
    then show ?thesis using 2(2) ps take2_split [of s] by (simp only: pstr_sep prepend_Some) auto
  next
    case plain
    then have "jesc (c # s) @ CHR 0x22 # r = jesc_char c @ jesc s @ CHR 0x22 # r" by auto
    moreover have "pstr (jesc s @ CHR 0x22 # r) = Some (s, r)" using 2(3) plain by blast
    ultimately show ?thesis by (simp only: pstr_jesc_char prepend_Some) simp
  qed
qed simp

declare pstr.simps [simp del] jesc.simps [simp del]

subsection \<open>Numbers\<close>

definition num_end :: "string \<Rightarrow> bool" where
  "num_end r \<longleftrightarrow> (case r of [] \<Rightarrow> True | c # _ \<Rightarrow> is_ws c \<or> c = CHR '','' \<or> c = CHR '']'' \<or> c = CHR ''}'')"

lemma is_digit_char [simp]: "d < 10 \<Longrightarrow> is_digit (digit_char d)"
  by (simp add: is_digit_def)

lemma print_nat_digits: "list_all is_digit (print_nat n)"
proof (induction n rule: print_nat.induct)
  case (1 n)
  then show ?case by (subst print_nat.simps) simp
qed

lemma print_nat_hd: "0 < n \<Longrightarrow> hd (print_nat n) \<noteq> CHR ''0''"
proof (induction n rule: print_nat.induct)
  case (1 n)
  show ?case
  proof (cases "n < 10")
    case True
    moreover have "CHR ''0'' = char_of (48 :: nat)" by (simp add: char_lits)
    ultimately show ?thesis using 1(2)
      by (subst print_nat.simps) (auto simp: digit_char_def char_of_eq_iff take_bit_eq_mod)
  next
    case False
    then have "hd (print_nat (n div 10)) \<noteq> CHR ''0''" using 1(1) by simp
    with False show ?thesis using print_nat_nonempty by (subst print_nat.simps) simp
  qed
qed

lemma num_end_digit: "num_end r \<Longrightarrow> r = [] \<or> \<not> is_digit (hd r)"
  by (auto simp: num_end_def is_ws_def is_digit_def digit_of_def split: list.splits)

lemma takeWhile_num: "list_all P s \<Longrightarrow> r = [] \<or> \<not> P (hd r) \<Longrightarrow> takeWhile P (s @ r) = s \<and> dropWhile P (s @ r) = r"
  by (induction s) (auto simp: takeWhile_eq_Nil_iff dropWhile_eq_self_iff)

lemma scan_nat_print: "num_end r \<Longrightarrow> scan_nat (print_nat n @ r) = Some (print_nat n, r)"
proof (cases "n = 0")
  case True
  moreover have "print_nat 0 = ''0''" by (subst print_nat.simps) (simp add: digit_char_def char_lits)
  ultimately show ?thesis by (simp add: scan_nat_def)
next
  case False
  assume r: "num_end r"
  obtain c t where c: "print_nat n = c # t" using print_nat_nonempty by (cases "print_nat n") auto
  have "is_digit c" "c \<noteq> CHR ''0''" using print_nat_digits [of n] print_nat_hd [of n] False c by auto
  with takeWhile_num [OF print_nat_digits [of n] num_end_digit [OF r]] show ?thesis
    by (simp add: scan_nat_def c)
qed

lemma num_end_scans: "num_end r \<Longrightarrow> scan_frac r = Some ([], r) \<and> scan_exp r = Some ([], r)"
  by (auto simp: num_end_def is_ws_def scan_frac_def scan_exp_def split: list.splits)

lemma print_nat_minus: "take 1 (print_nat n @ r) \<noteq> ''-''"
proof -
  obtain c t where c: "print_nat n = c # t" using print_nat_nonempty by (cases "print_nat n") auto
  moreover have "is_digit c" using print_nat_digits [of n] c by simp
  ultimately show ?thesis by (auto simp: is_digit_def digit_of_def)
qed

lemma scan_number_print: "num_end r \<Longrightarrow> scan_number (print_int i @ r) = Some (print_int i, r)"
  using print_nat_minus [of "nat i" r]
  by (auto simp: scan_number_def print_int_def scan_nat_print num_end_scans Let_def)

lemma print_nat_start: "\<exists>c t. print_nat n = c # t \<and> is_digit c"
  using print_nat_nonempty [of n] print_nat_digits [of n] by (cases "print_nat n") auto

lemma print_int_start: "\<exists>c t. print_int i = c # t \<and> (is_digit c \<or> c = CHR ''-'')"
  using print_nat_start [of "nat i"] by (auto simp: print_int_def)

lemma dec_int_print: "- (2 ^ 63) \<le> i \<Longrightarrow> i < 2 ^ 63 \<Longrightarrow> dec_int (JNum (print_int i)) = Some i"
  using print_nat_minus [of "nat i" "[]"]
  by (auto simp: dec_int_def print_int_def parse_digits_print_nat Let_def)

lemma dec_uint32_print [simp]: "dec_uint32 (JNum (print_nat (unat w))) = Some w"
  by (simp add: dec_uint32_def codec_simps)

subsection \<open>Documents\<close>

fun json_ok :: "json \<Rightarrow> bool" where
  "json_ok (JNum t) = (\<exists>i. t = print_int i)"
| "json_ok (JArr vs) = list_all json_ok vs"
| "json_ok (JObj ms) = list_all (\<lambda>m. json_ok (snd m)) ms"
| "json_ok _ = True"

lemma skip_ws_append: "list_all is_ws w \<Longrightarrow> skip_ws (w @ s) = skip_ws s"
  by (induction w) (auto simp: skip_ws_def)

lemma pval_ws: "list_all is_ws w \<Longrightarrow> pval n (w @ s) = pval n s"
  by (cases n) (simp_all add: skip_ws_append)

lemma pmembers_ws: "list_all is_ws w \<Longrightarrow> pmembers n (w @ s) = pmembers n s"
  by (cases n) (simp_all add: skip_ws_append)

lemma pelems_ws: "list_all is_ws w \<Longrightarrow> pelems n (w @ s) = pelems n s"
  by (cases n) (simp_all add: pval_ws)

lemma num_end_ws: "list_all is_ws w \<Longrightarrow> num_end (w @ c # r) \<longleftrightarrow> w \<noteq> [] \<or> num_end (c # r)"
  by (cases w) (auto simp: num_end_def)

lemma skip_ws_Cons [simp]: "\<not> is_ws c \<Longrightarrow> skip_ws (c # s) = c # s"
  by (simp add: skip_ws_def)

lemma not_ws [simp]: "\<not> is_ws CHR 0x22" "\<not> is_ws CHR ''{''" "\<not> is_ws CHR ''}''" "\<not> is_ws CHR ''[''"
  "\<not> is_ws CHR '']''" "\<not> is_ws CHR '',''" "\<not> is_ws CHR '':''" "\<not> is_ws CHR ''n''" "\<not> is_ws CHR ''t''"
  "\<not> is_ws CHR ''f''"
  by (simp_all add: is_ws_def)

lemma pval_number:
  assumes "num_end r"
  shows "pval (Suc n) (print_int i @ r) = Some (JNum (print_int i), r)"
proof -
  obtain c t where c: "print_int i = c # t" "is_digit c \<or> c = CHR ''-''" using print_int_start by blast
  moreover from c(2) have "\<not> is_ws c" "c \<noteq> CHR 0x22" "c \<noteq> CHR ''{''" "c \<noteq> CHR ''[''" "c \<noteq> CHR ''t''"
    "c \<noteq> CHR ''f''" "c \<noteq> CHR ''n''"
    by (auto simp: is_digit_def digit_of_def is_ws_def Let_def)
  ultimately show ?thesis using scan_number_print [OF assms, of i] by simp
qed


lemma pval_string: "pval (Suc n) (jquote s @ r) = Some (JStr s, r)"
  by (simp add: jquote_def pstr_jesc)

lemma jpr_start:
  assumes "json_ok v"
  shows "\<exists>c t. jpr nl sp d v = c # t \<and> \<not> is_ws c \<and> c \<noteq> CHR '']'' \<and> c \<noteq> CHR ''}''"
proof (cases v)
  case (JNum u)
  then obtain i where "u = print_int i" using assms by auto
  then show ?thesis using print_int_start [of i] JNum
    by (auto simp: is_ws_def is_digit_def digit_of_def Let_def)
qed (auto simp: jquote_def)

lemma skip_ws_jpr:
  assumes "list_all is_ws w" and "json_ok v" and "length x = 1" and "x = '']'' \<or> x = ''}''"
  shows "take 1 (skip_ws (w @ jpr nl sp d v @ r)) \<noteq> x"
  using jpr_start [OF assms(2), of nl sp d] assms by (auto simp: skip_ws_append)

definition layout_ok :: "(nat \<Rightarrow> string) \<Rightarrow> string \<Rightarrow> bool" where
  "layout_ok nl sp \<longleftrightarrow> (\<forall>d. list_all is_ws (nl d)) \<and> list_all is_ws sp"

lemma jpr_elems_start:
  assumes "layout_ok nl sp" and "list_all json_ok vs" and "vs \<noteq> []"
  shows "take 1 (skip_ws (jpr_elems nl sp d vs @ r)) \<noteq> '']''"
  using assms skip_ws_jpr [of "nl (Suc d)" "hd vs" "'']''" nl sp "Suc d"]
  by (cases vs) (auto simp: layout_ok_def)

lemma jpr_members_start:
  assumes "layout_ok nl sp" and "ms \<noteq> []"
  shows "take 1 (skip_ws (jpr_members nl sp d ms @ r)) \<noteq> ''}''"
  using assms by (cases ms) (auto simp: skip_ws_append jquote_def layout_ok_def)

lemma num_end_after:
  "layout_ok nl sp \<Longrightarrow> c = CHR '','' \<or> c = CHR '']'' \<or> c = CHR ''}'' \<Longrightarrow> num_end (nl d @ c # r)"
  by (auto simp: num_end_ws layout_ok_def) (auto simp: num_end_def)

lemma pelems_step:
  assumes "layout_ok nl sp" and "\<And>r. num_end r \<Longrightarrow> pval n (jpr nl sp (Suc d) v @ r) = Some (v, r)"
    and "vs \<noteq> [] \<Longrightarrow> pelems n (jpr_elems nl sp d vs @ r) = Some (vs, r)"
  shows "pelems (Suc n) (jpr_elems nl sp d (v # vs) @ r) = Some (v # vs, r)"
proof -
  have ws: "list_all is_ws (nl x)" for x using assms(1) by (simp add: layout_ok_def)
  show ?thesis
  proof (cases "vs = []")
    case True
    have "num_end (nl d @ CHR '']'' # r)" using num_end_after [OF assms(1)] by blast
    from assms(2) [OF this] show ?thesis using True ws by (simp add: pval_ws skip_ws_append)
  next
    case False
    have "num_end (CHR '','' # jpr_elems nl sp d vs @ r)" by (simp add: num_end_def)
    from assms(2) [OF this] show ?thesis using False ws assms(3) by (simp add: pval_ws)
  qed
qed

lemma pmembers_step:
  assumes "layout_ok nl sp" and "\<And>r. num_end r \<Longrightarrow> pval n (jpr nl sp (Suc d) v @ r) = Some (v, r)"
    and "ms \<noteq> [] \<Longrightarrow> pmembers n (jpr_members nl sp d ms @ r) = Some (ms, r)"
  shows "pmembers (Suc n) (jpr_members nl sp d ((k, v) # ms) @ r) = Some ((k, v) # ms, r)"
proof -
  have ws: "list_all is_ws (nl x)" "list_all is_ws sp" for x using assms(1) by (simp_all add: layout_ok_def)
  show ?thesis
  proof (cases "ms = []")
    case True
    have "num_end (nl d @ CHR ''}'' # r)" using num_end_after [OF assms(1)] by blast
    from assms(2) [OF this] show ?thesis using True ws
      by (simp add: pval_ws skip_ws_append jquote_def pstr_jesc)
  next
    case False
    have "num_end (CHR '','' # jpr_members nl sp d ms @ r)" by (simp add: num_end_def)
    from assms(2) [OF this] show ?thesis using False ws assms(3)
      by (simp add: pval_ws skip_ws_append jquote_def pstr_jesc)
  qed
qed

lemma pval_jpr:
  "layout_ok nl sp \<Longrightarrow> json_ok v \<Longrightarrow> num_end r \<Longrightarrow> length (jpr nl sp d v) \<le> n \<Longrightarrow>
     pval n (jpr nl sp d v @ r) = Some (v, r)"
  "layout_ok nl sp \<Longrightarrow> list_all json_ok vs \<Longrightarrow> vs \<noteq> [] \<Longrightarrow> length (jpr_elems nl sp d vs) \<le> n \<Longrightarrow>
     pelems n (jpr_elems nl sp d vs @ r) = Some (vs, r)"
  "layout_ok nl sp \<Longrightarrow> list_all (\<lambda>m. json_ok (snd m)) ms \<Longrightarrow> ms \<noteq> [] \<Longrightarrow> length (jpr_members nl sp d ms) \<le> n \<Longrightarrow>
     pmembers n (jpr_members nl sp d ms @ r) = Some (ms, r)"
proof (induction nl sp d v and nl sp d vs and nl sp d ms arbitrary: n r and n r and n r
    rule: jpr_jpr_elems_jpr_members.induct)
  case (1 nl sp d)
  then show ?case by (cases n) auto
next
  case (2 nl sp d b)
  then show ?case by (cases n) (auto split: if_splits)
next
  case (3 nl sp d t)
  then obtain i where i: "t = print_int i" by auto
  with 3 print_int_start [of i] obtain n' where "n = Suc n'" by (cases n) auto
  with 3 i show ?case by (simp add: pval_number del: pval.simps)
next
  case (4 nl sp d s)
  then obtain n' where "n = Suc n'" by (cases n) (auto simp: jquote_def)
  then show ?case by (simp add: pval_string del: pval.simps)
next
  case (5 nl sp d vs)
  show ?case
  proof (cases "vs = []")
    case False
    with 5 obtain n' where "n = Suc n'" "length (jpr_elems nl sp d vs) \<le> n'" by (cases n) auto
    then show ?thesis using 5 False jpr_elems_start [OF 5(2), of vs d r] by simp
  qed (use 5 in \<open>cases n; simp\<close>)
next
  case (6 nl sp d ms)
  show ?case
  proof (cases "ms = []")
    case False
    with 6 obtain n' where "n = Suc n'" "length (jpr_members nl sp d ms) \<le> n'" by (cases n) auto
    then show ?thesis using 6 False jpr_members_start [OF 6(2), of ms d r] by simp
  qed (use 6 in \<open>cases n; simp\<close>)
next
  case (8 nl sp d v vs)
  then obtain n' where n: "n = Suc n'" by (cases n) (auto split: if_splits)
  show ?case unfolding n using 8 n by (intro pelems_step) (auto split: if_splits)
next
  case (10 nl sp d k v ms)
  then obtain n' where n: "n = Suc n'" by (cases n) auto
  show ?case unfolding n using 10 n by (intro pmembers_step) (auto split: if_splits)
qed auto

lemma json_parse_jpr:
  assumes "layout_ok nl sp" and "json_ok v" and "list_all is_ws r"
  shows "json_parse (jpr nl sp d v @ r) = Some v"
proof -
  have "num_end r" using assms(3) by (cases r) (auto simp: num_end_def)
  then have "pval (Suc (2 * length (jpr nl sp d v @ r))) (jpr nl sp d v @ r) = Some (v, r)"
    using assms by (intro pval_jpr) auto
  moreover have "skip_ws r = []" using assms(3) by (simp add: skip_ws_def list_all_iff)
  ultimately show ?thesis by (simp add: json_parse_def del: pval.simps)
qed

lemma json_parse_print: "json_ok v \<Longrightarrow> list_all is_ws r \<Longrightarrow> json_parse (json_print v @ r) = Some v"
  unfolding json_print_def by (rule json_parse_jpr) (simp_all add: layout_ok_def)

lemma json_parse_indent: "json_ok v \<Longrightarrow> list_all is_ws r \<Longrightarrow> json_parse (json_indent v @ r) = Some v"
  unfolding json_indent_def
  by (rule json_parse_jpr) (simp_all add: layout_ok_def is_ws_def list_all_iff)

end
