(* ===== verification/Convo_Config.thy ===== *)
theory Convo_Config
  imports Json Mixnet_Types
begin

text \<open>
  The configuration of the conversation protocol (\<open>convo/config.go\<close>) with its generated JSON code
  (\<open>convo/convo_easyjson.go\<close>): the versioned format, its round trip, and validation. The readable
  encoding of keys belongs to the easyjson module and is a parameter.
\<close>

section \<open>Types\<close>

definition ConvoConfigVersion :: int where
  "ConvoConfigVersion = 1"

record coordinator_config =
  cc_Key :: bytes
  cc_Address :: string

record ConvoConfig =
  cfg_Version :: int
  cfg_Coordinator :: coordinator_config
  cfg_MixServers :: "public_server_config list"

definition UseLatestVersion :: "ConvoConfig \<Rightarrow> ConvoConfig" where
  "UseLatestVersion c = c\<lparr>cfg_Version := ConvoConfigVersion\<rparr>"

record keyAddr =
  ka_Key :: bytes
  ka_Address :: string

text \<open>\<open>None\<close> is the nil slice.\<close>

record convoV1 =
  v1_Version :: int
  v1_Coordinator :: keyAddr
  v1_MixServers :: "keyAddr list option"

datatype config_err = JsonSyntax | JsonType | UnknownVersion int | InvalidCoordinatorKey bytes
  | EmptyCoordinatorAddress | NoMixServers | InvalidMixerKey nat bytes | EmptyMixerAddress nat

text \<open>
  \<open>jwriter.Base32Bytes\<close> and \<open>jlexer.BytesReadable\<close>: a key that is written is read back.
\<close>

record key_codec =
  Base32Bytes :: "bytes \<Rightarrow> string"
  BytesReadable :: "string \<Rightarrow> bytes option"

definition key_codec_ok :: "key_codec \<Rightarrow> bool" where
  "key_codec_ok K \<longleftrightarrow> (\<forall>k. k \<noteq> [] \<longrightarrow> BytesReadable K (Base32Bytes K k) = Some k)"

section \<open>Generated code\<close>

definition easyjsonEncodeKeyAddr :: "key_codec \<Rightarrow> keyAddr \<Rightarrow> json" where
  "easyjsonEncodeKeyAddr K ka =
     JObj [(''Key'', JStr (Base32Bytes K (ka_Key ka))), (''Address'', JStr (ka_Address ka))]"

text \<open>
  The decoder of a struct walks the members in order; null values and unknown keys are skipped, and
  keys are compared exactly.
\<close>

definition keyAddr_member :: "key_codec \<Rightarrow> string \<times> json \<Rightarrow> keyAddr \<Rightarrow> (config_err, keyAddr) outcome" where
  "keyAddr_member K m ka =
     (if snd m = JNull then Ok ka
      else if fst m = ''Key'' then
        (case Option.bind (dec_string (snd m)) (BytesReadable K) of
           None \<Rightarrow> Err JsonType
         | Some k \<Rightarrow> Ok (ka\<lparr>ka_Key := k\<rparr>))
      else if fst m = ''Address'' then
        (case dec_string (snd m) of None \<Rightarrow> Err JsonType | Some a \<Rightarrow> Ok (ka\<lparr>ka_Address := a\<rparr>))
      else Ok ka)"

definition easyjsonDecodeKeyAddr :: "key_codec \<Rightarrow> json \<Rightarrow> keyAddr \<Rightarrow> (config_err, keyAddr) outcome" where
  "easyjsonDecodeKeyAddr K v ka =
     (case v of
        JNull \<Rightarrow> Ok ka
      | JObj ms \<Rightarrow> ofold (keyAddr_member K) ms ka
      | _ \<Rightarrow> Err JsonType)"

definition easyjsonEncodeConvoV1 :: "key_codec \<Rightarrow> convoV1 \<Rightarrow> json" where
  "easyjsonEncodeConvoV1 K c1 =
     JObj [(''Version'', JNum (print_int (v1_Version c1))),
           (''Coordinator'', easyjsonEncodeKeyAddr K (v1_Coordinator c1)),
           (''MixServers'', case v1_MixServers c1 of
              None \<Rightarrow> JNull
            | Some srvs \<Rightarrow> JArr (map (easyjsonEncodeKeyAddr K) srvs))]"

definition empty_keyAddr :: keyAddr where
  "empty_keyAddr = \<lparr>ka_Key = [], ka_Address = []\<rparr>"

definition convoV1_member :: "key_codec \<Rightarrow> string \<times> json \<Rightarrow> convoV1 \<Rightarrow> (config_err, convoV1) outcome" where
  "convoV1_member K m c1 =
     (if snd m = JNull then Ok c1
      else if fst m = ''Version'' then
        (case dec_int (snd m) of None \<Rightarrow> Err JsonType | Some i \<Rightarrow> Ok (c1\<lparr>v1_Version := i\<rparr>))
      else if fst m = ''Coordinator'' then
        obind (easyjsonDecodeKeyAddr K (snd m) (v1_Coordinator c1)) (\<lambda>ka. Ok (c1\<lparr>v1_Coordinator := ka\<rparr>))
      else if fst m = ''MixServers'' then
        (case snd m of
           JArr vs \<Rightarrow> obind (omap (\<lambda>v. easyjsonDecodeKeyAddr K v empty_keyAddr) vs)
                        (\<lambda>srvs. Ok (c1\<lparr>v1_MixServers := Some srvs\<rparr>))
         | _ \<Rightarrow> Err JsonType)
      else Ok c1)"

definition easyjsonDecodeConvoV1 :: "key_codec \<Rightarrow> json \<Rightarrow> convoV1 \<Rightarrow> (config_err, convoV1) outcome" where
  "easyjsonDecodeConvoV1 K v c1 =
     (case v of
        JNull \<Rightarrow> Ok c1
      | JObj ms \<Rightarrow> ofold (convoV1_member K) ms c1
      | _ \<Rightarrow> Err JsonType)"

section \<open>Operations\<close>

definition cfg_v1 :: "ConvoConfig \<Rightarrow> convoV1" where
  "cfg_v1 c =
     \<lparr>v1_Version = 1,
      v1_Coordinator = \<lparr>ka_Key = cc_Key (cfg_Coordinator c), ka_Address = cc_Address (cfg_Coordinator c)\<rparr>,
      v1_MixServers = Some (map (\<lambda>srv. \<lparr>ka_Key = Key srv, ka_Address = Address srv\<rparr>) (cfg_MixServers c))\<rparr>"

definition fromV1 :: "convoV1 \<Rightarrow> ConvoConfig" where
  "fromV1 c1 =
     \<lparr>cfg_Version = 1,
      cfg_Coordinator = \<lparr>cc_Key = ka_Key (v1_Coordinator c1), cc_Address = ka_Address (v1_Coordinator c1)\<rparr>,
      cfg_MixServers = map (\<lambda>srv. \<lparr>Key = ka_Key srv, Address = ka_Address srv\<rparr>)
        (case v1_MixServers c1 of None \<Rightarrow> [] | Some srvs \<Rightarrow> srvs)\<rparr>"

definition cfg_MarshalJSON :: "key_codec \<Rightarrow> ConvoConfig \<Rightarrow> (config_err, string) outcome" where
  "cfg_MarshalJSON K c =
     (if cfg_Version c = 1 then Ok (json_print (easyjsonEncodeConvoV1 K (cfg_v1 c)))
      else Err (UnknownVersion (cfg_Version c)))"

text \<open>The version alone, decoded with the rules of \<open>encoding/json\<close>.\<close>

definition getVersionFromJSON :: "string \<Rightarrow> (config_err, int) outcome" where
  "getVersionFromJSON data =
     (case json_parse data of
        None \<Rightarrow> Err JsonSyntax
      | Some JNull \<Rightarrow> Ok 0
      | Some (JObj ms) \<Rightarrow> (case dec_field dec_int ''Version'' 0 ms of (v, ok) \<Rightarrow> if ok then Ok v else Err JsonType)
      | Some _ \<Rightarrow> Err JsonType)"

definition empty_convoV1 :: convoV1 where
  "empty_convoV1 = \<lparr>v1_Version = 0, v1_Coordinator = empty_keyAddr, v1_MixServers = None\<rparr>"

text \<open>The error of an unknown version carries the version of the receiver, not the one read.\<close>

definition cfg_UnmarshalJSON :: "key_codec \<Rightarrow> ConvoConfig \<Rightarrow> string \<Rightarrow> (config_err, ConvoConfig) outcome" where
  "cfg_UnmarshalJSON K c data =
     obind (getVersionFromJSON data) (\<lambda>version.
       if version = 1 then
         (case json_parse data of
            None \<Rightarrow> Err JsonSyntax
          | Some v \<Rightarrow> obind (easyjsonDecodeConvoV1 K v empty_convoV1) (\<lambda>c1. Ok (fromV1 c1)))
       else Err (UnknownVersion (cfg_Version c)))"

fun validate_mixers :: "nat \<Rightarrow> public_server_config list \<Rightarrow> (config_err, unit) outcome" where
  "validate_mixers i [] = Ok ()"
| "validate_mixers i (mix # mixes) =
     (if length (Key mix) \<noteq> PublicKeySize then Err (InvalidMixerKey i (Key mix))
      else if Address mix = [] then Err (EmptyMixerAddress i)
      else validate_mixers (Suc i) mixes)"

definition cfg_Validate :: "ConvoConfig \<Rightarrow> (config_err, unit) outcome" where
  "cfg_Validate c =
     (if length (cc_Key (cfg_Coordinator c)) \<noteq> PublicKeySize
      then Err (InvalidCoordinatorKey (cc_Key (cfg_Coordinator c)))
      else if cc_Address (cfg_Coordinator c) = [] then Err EmptyCoordinatorAddress
      else if cfg_MixServers c = [] then Err NoMixServers
      else validate_mixers 0 (cfg_MixServers c))"

section \<open>Lemmas\<close>

lemma json_ok_keyAddr: "json_ok (easyjsonEncodeKeyAddr K ka)"
  by (simp add: easyjsonEncodeKeyAddr_def)

lemma json_ok_convoV1: "json_ok (easyjsonEncodeConvoV1 K c1)"
  by (auto simp: easyjsonEncodeConvoV1_def json_ok_keyAddr list_all_iff split: option.splits)

lemma decode_encode_keyAddr:
  assumes "key_codec_ok K" and "ka_Key ka \<noteq> []"
  shows "easyjsonDecodeKeyAddr K (easyjsonEncodeKeyAddr K ka) ka0 = Ok ka"
  using assms
  by (simp add: easyjsonDecodeKeyAddr_def easyjsonEncodeKeyAddr_def keyAddr_member_def dec_string_def
      key_codec_ok_def)

lemma easyjsonEncodeKeyAddr_not_null [simp]: "easyjsonEncodeKeyAddr K ka \<noteq> JNull"
  by (simp add: easyjsonEncodeKeyAddr_def)

lemma dec_int_1: "dec_int (JNum (print_int 1)) = Some 1"
  by (rule dec_int_print) simp_all

lemma decode_encode_convoV1:
  assumes "key_codec_ok K" and "ka_Key (v1_Coordinator c1) \<noteq> []" and "v1_Version c1 = 1"
    and "v1_MixServers c1 = Some srvs" and "list_all (\<lambda>ka. ka_Key ka \<noteq> []) srvs"
  shows "easyjsonDecodeConvoV1 K (easyjsonEncodeConvoV1 K c1) empty_convoV1 = Ok c1"
proof -
  have "omap (\<lambda>v. easyjsonDecodeKeyAddr K v empty_keyAddr) (map (easyjsonEncodeKeyAddr K) srvs) = Ok srvs"
    using assms(1,5)
    by (auto simp: omap_Ok_iff list_all2_conv_all_nth list_all_length decode_encode_keyAddr)
  then show ?thesis
    using assms
    by (simp add: easyjsonDecodeConvoV1_def easyjsonEncodeConvoV1_def convoV1_member_def dec_int_1
        decode_encode_keyAddr empty_convoV1_def)
qed

lemma fromV1_v1: "cfg_Version c = 1 \<Longrightarrow> fromV1 (cfg_v1 c) = c"
proof -
  assume v: "cfg_Version c = 1"
  have "map (\<lambda>x. \<lparr>Key = Key x, Address = Address x\<rparr>) xs = xs" for xs :: "public_server_config list"
    by (intro map_idI) simp
  with v show ?thesis
    by (intro ConvoConfig.equality) (simp_all add: fromV1_def cfg_v1_def comp_def)
qed

lemma validate_mixers_Ok:
  "validate_mixers i mixes = Ok () \<longleftrightarrow> list_all (\<lambda>mix. length (Key mix) = PublicKeySize \<and> Address mix \<noteq> []) mixes"
  by (induction mixes arbitrary: i) auto

lemma validate_mixers_Err:
  "validate_mixers i mixes = Err e \<Longrightarrow> \<exists>j < length mixes.
     (e = InvalidMixerKey (i + j) (Key (mixes ! j)) \<and> length (Key (mixes ! j)) \<noteq> PublicKeySize \<or>
      e = EmptyMixerAddress (i + j) \<and> Address (mixes ! j) = []) \<and>
     list_all (\<lambda>mix. length (Key mix) = PublicKeySize \<and> Address mix \<noteq> []) (take j mixes)"
proof (induction mixes arbitrary: i)
  case (Cons mix mixes)
  show ?case
  proof (cases "length (Key mix) = PublicKeySize \<and> Address mix \<noteq> []")
    case True
    then have "validate_mixers (Suc i) mixes = Err e" using Cons.prems by simp
    from Cons.IH [OF this] obtain j where "j < length mixes"
      "e = InvalidMixerKey (Suc i + j) (Key (mixes ! j)) \<and> length (Key (mixes ! j)) \<noteq> PublicKeySize \<or>
       e = EmptyMixerAddress (Suc i + j) \<and> Address (mixes ! j) = []"
      "list_all (\<lambda>mix. length (Key mix) = PublicKeySize \<and> Address mix \<noteq> []) (take j mixes)" by blast
    with True show ?thesis by (intro exI [of _ "Suc j"]) auto
  next
    case False
    with Cons.prems show ?thesis by (intro exI [of _ 0]) (auto split: if_splits)
  qed
qed simp

section \<open>Properties\<close>


definition toy_key_codec :: key_codec where
  "toy_key_codec = \<lparr>Base32Bytes = str_of, BytesReadable = (\<lambda>s. Some (ascii s))\<rparr>"

definition toy_config :: ConvoConfig where
  "toy_config = \<lparr>cfg_Version = 0, cfg_Coordinator = \<lparr>cc_Key = replicate 32 65, cc_Address = ''c''\<rparr>,
     cfg_MixServers = [\<lparr>Key = replicate 32 66, Address = ''a''\<rparr>]\<rparr>"

lemma ascii_str_of [simp]: "ascii (str_of k) = k"
proof -
  have "(of_char (char_of (unat b)) :: byte) = b" for b :: byte
  proof -
    have "(of_char (char_of (unat b)) :: byte) = word_of_nat (of_char (char_of (unat b)))"
      by (rule of_nat_of_char [symmetric])
    also have "\<dots> = b" using unsigned_less [of b, where 'a = nat] by simp
    finally show ?thesis .
  qed
  then show ?thesis by (simp add: str_of_def ascii_def comp_def)
qed


text \<open>
  \<open>Validate\<close> accepts exactly the configurations with a full-size coordinator key, a coordinator
  address, at least one mix server, and a full-size key and an address for each; its error about
  a mix server names the first one that is wrong.
\<close>

theorem Validate_spec:
  "(cfg_Validate c = Ok () \<longleftrightarrow>
      length (cc_Key (cfg_Coordinator c)) = 32 \<and> cc_Address (cfg_Coordinator c) \<noteq> [] \<and> cfg_MixServers c \<noteq> [] \<and>
      list_all (\<lambda>mix. length (Key mix) = 32 \<and> Address mix \<noteq> []) (cfg_MixServers c)) \<and>
   (cfg_Validate c = Err (EmptyMixerAddress i) \<or> cfg_Validate c = Err (InvalidMixerKey i k) \<longrightarrow>
      i < length (cfg_MixServers c) \<and> (length (Key (cfg_MixServers c ! i)) \<noteq> 32 \<or> Address (cfg_MixServers c ! i) = []) \<and>
      list_all (\<lambda>mix. length (Key mix) = 32 \<and> Address mix \<noteq> []) (take i (cfg_MixServers c)))"
proof (intro conjI impI)
  show "cfg_Validate c = Ok () \<longleftrightarrow>
      length (cc_Key (cfg_Coordinator c)) = 32 \<and> cc_Address (cfg_Coordinator c) \<noteq> [] \<and> cfg_MixServers c \<noteq> [] \<and>
      list_all (\<lambda>mix. length (Key mix) = 32 \<and> Address mix \<noteq> []) (cfg_MixServers c)"
    by (auto simp: cfg_Validate_def validate_mixers_Ok PublicKeySize_def)
next
  assume a: "cfg_Validate c = Err (EmptyMixerAddress i) \<or> cfg_Validate c = Err (InvalidMixerKey i k)"
  then obtain e where e: "validate_mixers 0 (cfg_MixServers c) = Err e"
    "e = EmptyMixerAddress i \<or> e = InvalidMixerKey i k"
    by (auto simp: cfg_Validate_def split: if_splits)
  from validate_mixers_Err [OF e(1)] e(2)
  show "i < length (cfg_MixServers c)"
    "length (Key (cfg_MixServers c ! i)) \<noteq> 32 \<or> Address (cfg_MixServers c ! i) = []"
    "list_all (\<lambda>mix. length (Key mix) = 32 \<and> Address mix \<noteq> []) (take i (cfg_MixServers c))"
    by (auto simp: PublicKeySize_def)
qed

theorem Validate_spec_witness:
  "cfg_Validate (toy_config\<lparr>cfg_MixServers := [\<lparr>Key = [], Address = ''a''\<rparr>]\<rparr>) = Err (InvalidMixerKey 0 []) \<and>
   0 < length (cfg_MixServers (toy_config\<lparr>cfg_MixServers := [\<lparr>Key = [], Address = ''a''\<rparr>]\<rparr>))"
  using Validate_spec [of "toy_config\<lparr>cfg_MixServers := [\<lparr>Key = [], Address = ''a''\<rparr>]\<rparr>" 0 "[]"]
  by (simp add: cfg_Validate_def toy_config_def PublicKeySize_def)

end
