(* ===== verification/Atomic_File.thy ===== *)
theory Atomic_File
  imports Prelude
begin

text \<open>
  \<open>WriteFileAtomic\<close> (\<open>internal/ioutil2/ioutil.go\<close>) over a file system in which every call of \<open>os\<close>
  may fail, with all the states the file system goes through, so that a crash between two calls
  leaves one of them on disk.
\<close>

type_synonym fs = "string \<rightharpoonup> bytes"

text \<open>
  How the calls of one execution turn out: the name \<open>TempFile\<close> picks (\<open>None\<close> if it fails), how many
  bytes a failing write leaves behind (\<open>None\<close> if it succeeds), and whether the later calls succeed.
\<close>

record os_calls =
  temp_name :: "string option"
  short_write :: "nat option"
  sync_ok :: bool
  close_ok :: bool
  chmod_ok :: bool
  rename_ok :: bool
  remove_ok :: bool

datatype os_err = TempFileError | WriteError | SyncError | CloseError | ChmodError | RenameError

text \<open>The first error is kept; the calls behind \<open>if err == nil\<close> are made only without one.\<close>

definition first_err :: "os_err option \<Rightarrow> bool \<Rightarrow> os_err \<Rightarrow> os_err option" where
  "first_err err ok e = (case err of Some _ \<Rightarrow> err | None \<Rightarrow> if ok then None else Some e)"

definition write_temp :: "os_calls \<Rightarrow> string \<Rightarrow> bytes \<Rightarrow> fs \<Rightarrow> fs \<times> os_err option" where
  "write_temp w tmp data fs0 =
     (case short_write w of
        None \<Rightarrow> (fs0(tmp \<mapsto> data), None)
      | Some n \<Rightarrow> (fs0(tmp \<mapsto> take n data), Some WriteError))"

text \<open>
  The result is the sequence of file systems after each call, the last one being the final state,
  and the error returned.
\<close>

definition WriteFileAtomic :: "os_calls \<Rightarrow> string \<Rightarrow> bytes \<Rightarrow> fs \<Rightarrow> fs list \<times> os_err option" where
  "WriteFileAtomic w filename data fs0 =
     (case temp_name w of
        None \<Rightarrow> ([fs0], Some TempFileError)
      | Some tmp \<Rightarrow>
          (let fs1 = fs0(tmp \<mapsto> []) in
           case write_temp w tmp data fs1 of
             (fs2, err) \<Rightarrow>
               (let err = first_err err (sync_ok w) SyncError;
                    err = first_err err (close_ok w) CloseError;
                    err = first_err err (chmod_ok w) ChmodError;
                    renamed = (err = None \<and> rename_ok w);
                    fs3 = (if renamed then fs2(tmp := None, filename := fs2 tmp) else fs2);
                    err = first_err err (rename_ok w) RenameError;
                    fs4 = (if err \<noteq> None \<and> remove_ok w then fs3(tmp := None) else fs3) in
                ([fs1, fs2, fs3, fs4], err))))"

text \<open>\<open>TempFile\<close> returns a name that did not exist.\<close>

definition fresh_temp :: "os_calls \<Rightarrow> string \<Rightarrow> fs \<Rightarrow> bool" where
  "fresh_temp w filename fs0 \<longleftrightarrow> (\<forall>tmp. temp_name w = Some tmp \<longrightarrow> tmp \<noteq> filename \<and> fs0 tmp = None)"

lemma first_err_None [simp]: "first_err err ok e = None \<longleftrightarrow> err = None \<and> ok"
  by (auto simp: first_err_def split: option.splits)

lemma WriteFileAtomic_cases:
  assumes "WriteFileAtomic w filename data fs0 = (states, err)"
  obtains (no_temp) "states = [fs0]" "err = Some TempFileError"
  | (renamed) tmp where "temp_name w = Some tmp" "err = None"
      "states = [fs0(tmp \<mapsto> []), fs0(tmp \<mapsto> data), fs0(tmp := None, filename \<mapsto> data), fs0(tmp := None, filename \<mapsto> data)]"
  | (failed) tmp d where "temp_name w = Some tmp" "err \<noteq> None"
      "states = [fs0(tmp \<mapsto> []), fs0(tmp \<mapsto> d), fs0(tmp \<mapsto> d), if remove_ok w then fs0(tmp := None) else fs0(tmp \<mapsto> d)]"
proof (cases "temp_name w")
  case None
  then show thesis using assms no_temp by (simp add: WriteFileAtomic_def)
next
  case (Some tmp)
  obtain d e where wt: "write_temp w tmp data (fs0(tmp \<mapsto> [])) = (fs0(tmp \<mapsto> d), e)" "e = None \<Longrightarrow> d = data"
    by (cases "short_write w") (auto simp: write_temp_def)
  define e3 where "e3 = first_err (first_err (first_err e (sync_ok w) SyncError) (close_ok w) CloseError) (chmod_ok w) ChmodError"
  have e3: "e3 = None \<Longrightarrow> d = data" using wt(2) by (simp add: e3_def)
  have run: "WriteFileAtomic w filename data fs0 =
      (let fs3 = (if e3 = None \<and> rename_ok w then fs0(tmp := None, filename \<mapsto> d) else fs0(tmp \<mapsto> d));
           err = first_err e3 (rename_ok w) RenameError in
       ([fs0(tmp \<mapsto> []), fs0(tmp \<mapsto> d), fs3, if err \<noteq> None \<and> remove_ok w then fs3(tmp := None) else fs3], err))"
    using Some wt(1) by (simp add: WriteFileAtomic_def Let_def del: first_err_None flip: e3_def)
  show thesis
  proof (cases "e3 = None \<and> rename_ok w")
    case True
    then have "first_err e3 (rename_ok w) RenameError = None" by simp
    with True show thesis using assms run e3 Some renamed [of tmp] by (simp add: first_err_def Let_def)
  next
    case False
    then obtain e' where e': "first_err e3 (rename_ok w) RenameError = Some e'"
      by (auto simp del: first_err_None simp flip: first_err_None [of e3 "rename_ok w" RenameError])
    with False have "err = Some e'" "states = [fs0(tmp \<mapsto> []), fs0(tmp \<mapsto> d), fs0(tmp \<mapsto> d),
        if remove_ok w then fs0(tmp := None) else fs0(tmp \<mapsto> d)]"
      using assms run by (auto simp: Let_def)
    with Some show thesis using failed [of tmp d] by auto
  qed
qed

lemma WriteFileAtomic_states:
  assumes "fresh_temp w filename fs0" and "WriteFileAtomic w filename data fs0 = (states, err)"
  shows "states \<noteq> [] \<and> (\<forall>fs' \<in> set states. fs' filename = fs0 filename \<or> fs' filename = Some data) \<and>
    (last states) filename = (if err = None then Some data else fs0 filename)"
  using assms(2) by (cases rule: WriteFileAtomic_cases) (use assms(1) in \<open>auto simp: fresh_temp_def\<close>)

lemma WriteFileAtomic_others:
  assumes "fresh_temp w filename fs0" and "WriteFileAtomic w filename data fs0 = (states, err)"
    and "err = None \<or> remove_ok w"
  shows "(last states)(filename := x) = fs0(filename := x)"
  using assms(2)
  by (cases rule: WriteFileAtomic_cases) (use assms(1,3) in \<open>auto simp: fresh_temp_def fun_eq_iff\<close>)

text \<open>
  C24. \<open>WriteFileAtomic\<close> is atomic: at every moment, so also after a crash, the file holds its old
  contents or all of the new ones; in the end it holds the new ones exactly if no error is
  returned, and no temporary file is left behind if its removal works.
\<close>

theorem WriteFileAtomic_atomic:
  assumes "fresh_temp w filename fs0" and "WriteFileAtomic w filename data fs0 = (states, err)"
  shows "states \<noteq> [] \<and>
    list_all (\<lambda>fs'. fs' filename = fs0 filename \<or> fs' filename = Some data) states \<and>
    (last states) filename = (if err = None then Some data else fs0 filename) \<and>
    (err = None \<or> remove_ok w \<longrightarrow> (last states)(filename := x) = fs0(filename := x))"
  using WriteFileAtomic_states [OF assms] WriteFileAtomic_others [OF assms]
  by (auto simp: list_all_iff)

definition toy_calls :: os_calls where
  "toy_calls = \<lparr>temp_name = Some ''t'', short_write = Some 1, sync_ok = True, close_ok = True,
     chmod_ok = True, rename_ok = True, remove_ok = True\<rparr>"

theorem WriteFileAtomic_atomic_witness:
  "(last (fst (WriteFileAtomic toy_calls ''f'' [1, 2] [''f'' \<mapsto> [0]]))) ''f'' = Some [0] \<and>
   snd (WriteFileAtomic toy_calls ''f'' [1, 2] [''f'' \<mapsto> [0]]) = Some WriteError \<and>
   fresh_temp toy_calls ''f'' [''f'' \<mapsto> [0]]"
proof -
  have fresh: "fresh_temp toy_calls ''f'' [''f'' \<mapsto> [0]]"
    by (simp add: fresh_temp_def toy_calls_def)
  have err: "snd (WriteFileAtomic toy_calls ''f'' [1, 2] [''f'' \<mapsto> [0]]) = Some WriteError"
    by (simp add: WriteFileAtomic_def toy_calls_def write_temp_def first_err_def Let_def)
  from WriteFileAtomic_atomic [OF fresh prod.collapse [symmetric]] err fresh show ?thesis by simp
qed

end
