(* ===== verification/Coordinator.thy ===== *)
theory Coordinator
  imports Mix_Client Convo_Config Atomic_File
begin

text \<open>
  The entry server (\<open>coordinator/server.go\<close>, \<open>coordinator/persist.go\<close>): the loop that fires rounds,
  the life of a round from its announcement to the replies, the onions clients hand in, the
  announcements of guardians, and the round counter on disk. The mix network is that of
  \<open>Mix_Client\<close>; typesocket, the configuration server and the clock are inputs.
\<close>

section \<open>Messages and state\<close>

text \<open>What the code uses of a \<open>config.SignedConfig\<close>; \<open>sc_Inner\<close> is \<open>None\<close> for another service's type.\<close>

record signed_config =
  sc_Guardians :: "bytes list"
  sc_Inner :: "ConvoConfig option"
  sc_Hash :: string
  sc_Service :: string

record onion_msg =
  om_Round :: u32
  om_Onions :: "bytes list"

record 'd new_round =
  ni_Round :: u32
  ni_ConfigHash :: string
  ni_MixSettings :: "'d round_settings"
  ni_MixSignatures :: "bytes list"
  ni_EndTime :: int

record round_error =
  re_Round :: u32
  re_Err :: string

record global_announcement =
  ga_Message :: string

type_synonym conn = nat

record onion_bundle =
  ob_sender :: conn
  ob_onions :: "bytes list"

record 'd co_round_state =
  roundInfo :: "'d new_round"
  co_open :: bool
  co_onions :: "onion_bundle list"

text \<open>What the server sends, to one connection or to all of the hub, in order.\<close>

datatype dest = ToAll | ToConn conn
datatype 'd co_msg = MNewRound "'d new_round" | MError round_error | MReply onion_msg
  | MAnnouncement global_announcement

text \<open>
  \<open>co_shutdown\<close> is the channel: \<open>None\<close> before \<open>Run\<close> makes it, then whether it is closed. The hub is
  its outbox.
\<close>

record 'd coordinator =
  co_Service :: string
  co_RoundDelay :: int
  co_PersistPath :: string
  co_round :: u32
  co_rounds :: "u32 \<rightharpoonup> 'd co_round_state"
  co_closed :: bool
  co_shutdown :: "bool option"
  co_freshConfig :: bool
  co_latestConfig :: "signed_config option"
  co_outbox :: "(dest \<times> 'd co_msg) list"

definition send_to :: "dest \<Rightarrow> 'd co_msg \<Rightarrow> 'd coordinator \<Rightarrow> 'd coordinator" where
  "send_to d m srv = srv\<lparr>co_outbox := co_outbox srv @ [(d, m)]\<rparr>"

datatype co_err = NoPersistPath | ErrServerClosed | ReadError | NoData | UnexpectedVersion byte
  | BadJson | PersistError os_err | SendError

section \<open>Run, Close\<close>

definition co_Run :: "'d coordinator \<Rightarrow> (co_err, 'd coordinator) outcome" where
  "co_Run srv =
     (if co_PersistPath srv = [] then Err NoPersistPath
      else Ok (srv\<lparr>co_outbox := [], co_rounds := Map.empty, co_closed := False, co_shutdown := Some False\<rparr>))"

definition co_Close :: "'d coordinator \<Rightarrow> 'd coordinator \<times> (co_err, unit) outcome" where
  "co_Close srv =
     (if \<not> co_closed srv then
        (case co_shutdown srv of
           Some False \<Rightarrow> (srv\<lparr>co_shutdown := Some True, co_closed := True\<rparr>, Ok ())
         | Some True \<Rightarrow> (srv, Panic CloseOfClosedChannel)
         | None \<Rightarrow> (srv, Panic NilDereference))
      else (srv, Err ErrServerClosed))"

section \<open>HTTP\<close>

datatype route = WebSocket | SendAnnouncement | NotFound

definition ServeHTTP :: "string \<Rightarrow> route" where
  "ServeHTTP path =
     (if take 3 path = ''/ws'' then WebSocket
      else if take 17 path = ''/sendannouncement'' then SendAnnouncement
      else NotFound)"

text \<open>\<open>req_TLS\<close> is \<open>None\<close> for a request over plain HTTP.\<close>

record ann_request =
  req_TLS :: "cert_key list option"
  req_Body :: string

datatype http_response = HttpOK | BadRequest string | InternalServerError string

text \<open>
  \<open>json.NewDecoder(http.MaxBytesReader(w, body, 4096)).Decode\<close>: the first value of the body, if it
  ends within the limit. An object ends with its brace; another value only with the byte after it.
\<close>

definition decode_announcement :: "string \<Rightarrow> global_announcement option" where
  "decode_announcement body =
     (let buf = take 4096 body in
      case pval (Suc (2 * length buf)) buf of
        Some (JObj ms, _) \<Rightarrow>
          (case dec_field dec_string ''Message'' [] ms of
             (m, ok) \<Rightarrow> if ok then Some \<lparr>ga_Message = m\<rparr> else None)
      | Some (JNull, r) \<Rightarrow> if r = [] \<and> 4096 < length body then None else Some \<lparr>ga_Message = []\<rparr>
      | _ \<Rightarrow> None)"

text \<open>\<open>broadcast\<close> is the error of the hub's broadcast, if any.\<close>

definition sendAnnouncementHandler ::
  "string option \<Rightarrow> ann_request \<Rightarrow> 'd coordinator \<Rightarrow> 'd coordinator \<times> (co_err, http_response) outcome" where
  "sendAnnouncementHandler broadcast req srv =
     (case req_TLS req of
        None \<Rightarrow> (srv, Panic NilDereference)
      | Some [] \<Rightarrow> (srv, Ok (BadRequest ''no peer certificate''))
      | Some (OtherKey # _) \<Rightarrow> (srv, Ok (BadRequest ''invalid peer key''))
      | Some (Ed25519Key peerKey # _) \<Rightarrow>
          (case co_latestConfig srv of
             None \<Rightarrow> (srv, Ok (BadRequest ''no convo config''))
           | Some conf \<Rightarrow>
               if peerKey \<notin> set (sc_Guardians conf) then (srv, Ok (BadRequest ''not a guardian''))
               else (case decode_announcement (req_Body req) of
                       None \<Rightarrow> (srv, Ok (BadRequest ''error decoding json''))
                     | Some args \<Rightarrow>
                         (case broadcast of
                            Some e \<Rightarrow> (srv, Ok (InternalServerError (''failed to broadcast message: '' @ e)))
                          | None \<Rightarrow> (send_to ToAll (MAnnouncement args) srv, Ok HttpOK)))))"

section \<open>Connections\<close>

text \<open>
  The loop over the rounds a new connection is told about; \<open>order\<close> is the order in which Go visits
  the map, \<open>up\<close> how many sends succeed before the connection fails, if it does.
\<close>

fun announce_rounds ::
  "int \<Rightarrow> conn \<Rightarrow> nat option \<Rightarrow> 'd co_round_state list \<Rightarrow> 'd coordinator \<Rightarrow> 'd coordinator \<times> (co_err, unit) outcome" where
  "announce_rounds now c up [] srv = (srv, Ok ())"
| "announce_rounds now c up (st # sts) srv =
     (if ni_EndTime (roundInfo st) - now < 100000000 then announce_rounds now c up sts srv
      else case up of
        Some 0 \<Rightarrow> (srv, Err SendError)
      | _ \<Rightarrow> announce_rounds now c (map_option (\<lambda>n. n - 1) up) sts
               (send_to (ToConn c) (MNewRound (roundInfo st)) srv))"

definition onConnect ::
  "int \<Rightarrow> u32 list \<Rightarrow> nat option \<Rightarrow> conn \<Rightarrow> 'd coordinator \<Rightarrow> 'd coordinator \<times> (co_err, unit) outcome" where
  "onConnect now order up c srv =
     announce_rounds now c up (List.map_filter (co_rounds srv) order) srv"

text \<open>\<open>ago\<close> is the time since the deadline, as \<open>fmt\<close> prints it.\<close>

definition incomingOnion :: "string \<Rightarrow> conn \<Rightarrow> onion_msg \<Rightarrow> 'd coordinator \<Rightarrow> 'd coordinator" where
  "incomingOnion ago c msg srv =
     (case co_rounds srv (om_Round msg) of
        None \<Rightarrow> send_to (ToConn c) (MError \<lparr>re_Round = om_Round msg, re_Err = ''round not found''\<rparr>) srv
      | Some st \<Rightarrow>
          if co_open st then
            srv\<lparr>co_rounds := (co_rounds srv)(om_Round msg \<mapsto>
                  st\<lparr>co_onions := co_onions st @ [\<lparr>ob_sender = c, ob_onions = om_Onions msg\<rparr>]\<rparr>)\<rparr>
          else send_to (ToConn c) (MError \<lparr>re_Round = om_Round msg,
                 re_Err = ''round is closed: deadline was '' @ ago @ '' ago''\<rparr>) srv)"

section \<open>Configuration\<close>

text \<open>One turn of \<open>updateConfigLoop\<close>; \<open>None\<close> is a failed fetch.\<close>

definition updateConfig :: "signed_config option \<Rightarrow> 'd coordinator \<Rightarrow> 'd coordinator" where
  "updateConfig fetched srv =
     (case fetched of
        None \<Rightarrow> srv\<lparr>co_freshConfig := False\<rparr>
      | Some conf \<Rightarrow> srv\<lparr>co_freshConfig := True, co_latestConfig := Some conf\<rparr>)"

section \<open>Persistence\<close>

definition persist_version :: byte where
  "persist_version = 1"

record persistedState =
  ps_Round :: u32

definition persisted_doc :: "persistedState \<Rightarrow> string" where
  "persisted_doc st =
     json_indent (JObj [(''Round'', JNum (print_nat (unat (ps_Round st))))]) @ [CHR 0x0A]"

definition co_Persist :: "os_calls \<Rightarrow> fs \<Rightarrow> 'd coordinator \<Rightarrow> fs list \<times> (co_err, unit) outcome" where
  "co_Persist w disk srv =
     (let st = \<lparr>ps_Round = co_round srv\<rparr>;
          buf = [persist_version] @ ascii (persisted_doc st) in
      case WriteFileAtomic w (co_PersistPath srv) buf disk of
        (states, None) \<Rightarrow> (states, Ok ())
      | (states, Some e) \<Rightarrow> (states, Err (PersistError e)))"

definition decode_persisted :: "string \<Rightarrow> persistedState option" where
  "decode_persisted doc =
     (case json_parse doc of
        Some (JObj ms) \<Rightarrow>
          (case dec_field dec_uint32 ''Round'' 0 ms of (r, ok) \<Rightarrow> if ok then Some \<lparr>ps_Round = r\<rparr> else None)
      | Some JNull \<Rightarrow> Some \<lparr>ps_Round = 0\<rparr>
      | _ \<Rightarrow> None)"

definition LoadPersistedState :: "fs \<Rightarrow> 'd coordinator \<Rightarrow> 'd coordinator \<times> (co_err, unit) outcome" where
  "LoadPersistedState disk srv =
     (case disk (co_PersistPath srv) of
        None \<Rightarrow> (srv, Err ReadError)
      | Some [] \<Rightarrow> (srv, Err NoData)
      | Some (ver # doc) \<Rightarrow>
          if ver \<noteq> persist_version then (srv, Err (UnexpectedVersion ver))
          else (case decode_persisted (str_of doc) of
                  None \<Rightarrow> (srv, Err BadJson)
                | Some st \<Rightarrow> (srv\<lparr>co_round := ps_Round st\<rparr>, Ok ())))"

section \<open>Mixing\<close>

record senderRange =
  sr_sender :: conn
  sr_start :: nat
  sr_end :: nat

text \<open>The loop that concatenates the bundles and remembers who owns which positions.\<close>

fun sender_ranges :: "onion_bundle list \<Rightarrow> bytes list \<Rightarrow> senderRange list \<Rightarrow> bytes list \<times> senderRange list" where
  "sender_ranges [] onions senders = (onions, senders)"
| "sender_ranges (b # bs) onions senders =
     sender_ranges bs (onions @ ob_onions b)
       (senders @ [\<lparr>sr_sender = ob_sender b, sr_start = length onions,
                     sr_end = length onions + length (ob_onions b)\<rparr>])"

text \<open>A reply that was never written is a nil slice, the empty one on the wire.\<close>

definition reply_bytes :: "bytes option \<Rightarrow> bytes" where
  "reply_bytes r = (case r of None \<Rightarrow> [] | Some b \<Rightarrow> b)"

definition reply_to :: "u32 \<Rightarrow> bytes option list \<Rightarrow> senderRange \<Rightarrow> dest \<times> 'd co_msg" where
  "reply_to round rs sr =
     (ToConn (sr_sender sr),
      MReply \<lparr>om_Round = round, om_Onions = map reply_bytes (slice (sr_start sr) (sr_end sr) rs)\<rparr>)"

definition mixOnions ::
  "mix_env \<Rightarrow> 'd close_rpc \<Rightarrow> ctx_peer \<Rightarrow> public_server_config \<Rightarrow> u32 \<Rightarrow> onion_bundle list \<Rightarrow>
   'd net \<Rightarrow> 'd coordinator \<Rightarrow> 'd net \<times> (unit, 'd coordinator) outcome" where
  "mixOnions E close ctx firstServer round out net srv =
     (case sender_ranges out [] [] of
        (onions, senders) \<Rightarrow>
          (case RunRoundBidirectional E close net ctx firstServer (co_Service srv) round onions of
             (net', Ok rs) \<Rightarrow>
               (net', Ok (srv\<lparr>co_outbox := co_outbox srv @ map (reply_to round rs) senders\<rparr>))
           | (net', Err e) \<Rightarrow>
               (net', Ok (send_to ToAll (MError \<lparr>re_Round = round, re_Err = ''server error''\<rparr>) srv))
           | (net', Panic p) \<Rightarrow> (net', Panic p)
           | (net', Hang) \<Rightarrow> (net', Hang)))"

section \<open>One round\<close>

text \<open>
  \<open>runRound\<close> up to its sleep: nothing is left to do (\<open>Ok None\<close>), or the round is open and announced
  and the goroutine waits for the deadline with the servers of the configuration it read.
\<close>

definition runRound_announce ::
  "mix_env \<Rightarrow> settings_encoder \<Rightarrow> ctx_peer \<Rightarrow> u32 \<Rightarrow> int \<Rightarrow> 'd net \<Rightarrow> 'd coordinator \<Rightarrow>
   'd net \<times> 'd coordinator \<times> (unit, public_server_config list option) outcome" where
  "runRound_announce E enc ctx round deadline net srv =
     (if \<not> co_freshConfig srv then (net, srv, Ok None)
      else case co_latestConfig srv of
        None \<Rightarrow> (net, srv, Panic NilDereference)
      | Some conf \<Rightarrow>
          (case sc_Inner conf of
             None \<Rightarrow> (net, srv, Panic FailedTypeAssertion)
           | Some inner \<Rightarrow>
               (case client_NewRound E enc net ctx (cfg_MixServers inner)
                       (empty_settings\<lparr>Service := ''Convo'', Round := round\<rparr>) of
                  (net', Ok (mixSettings, mixSigs)) \<Rightarrow>
                    (let info = \<lparr>ni_Round = round, ni_ConfigHash = sc_Hash conf, ni_MixSettings = mixSettings,
                                 ni_MixSignatures = mixSigs, ni_EndTime = deadline\<rparr>;
                         st = \<lparr>roundInfo = info, co_open = True, co_onions = []\<rparr> in
                     (net', send_to ToAll (MNewRound info) (srv\<lparr>co_rounds := (co_rounds srv)(round \<mapsto> st)\<rparr>),
                      Ok (Some (cfg_MixServers inner))))
                | (net', Err e) \<Rightarrow> (net', srv, Ok None)
                | (net', Panic p) \<Rightarrow> (net', srv, Panic p)
                | (net', Hang) \<Rightarrow> (net', srv, Hang))))"

text \<open>The round is closed for onions and its batch taken.\<close>

definition runRound_close :: "u32 \<Rightarrow> 'd coordinator \<Rightarrow> 'd coordinator \<times> onion_bundle list" where
  "runRound_close round srv =
     (case co_rounds srv round of
        None \<Rightarrow> (srv, [])
      | Some st \<Rightarrow> (srv\<lparr>co_rounds := (co_rounds srv)(round \<mapsto> st\<lparr>co_open := False\<rparr>)\<rparr>, co_onions st))"

text \<open>The deferred function of \<open>runRound\<close>.\<close>

definition runRound_done :: "u32 \<Rightarrow> 'd coordinator \<Rightarrow> 'd coordinator" where
  "runRound_done round srv = srv\<lparr>co_rounds := (co_rounds srv)(round := None)\<rparr>"

text \<open>\<open>sleep\<close>: the timer or the shutdown, whichever \<open>select\<close> sees first.\<close>

datatype wakeup = TimerFired | ShutdownClosed

definition co_sleep :: "wakeup \<Rightarrow> bool" where
  "co_sleep w = (case w of TimerFired \<Rightarrow> True | ShutdownClosed \<Rightarrow> False)"

section \<open>The loop and its goroutines\<close>

text \<open>
  A round's goroutine is about to start, sleeps until its deadline with the servers of its
  configuration, or mixes the batch it took.
\<close>

datatype runner_pc = Starting | Sleeping "public_server_config list"
  | Mixing public_server_config "onion_bundle list"

record runner =
  rn_round :: u32
  rn_deadline :: int
  rn_pc :: runner_pc

text \<open>
  The process: the server, the network it calls, the local variables of \<open>loop\<close> (\<open>flights\<close> counts the
  tokens in the channel), the running goroutines, the pending \<open>Persist\<close> goroutines and the disk.
  \<open>fired\<close> is the history of round numbers.
\<close>

record 'd world =
  w_srv :: "'d coordinator"
  w_net :: "'d net"
  flights :: nat
  lastDeadline :: int
  loop_alive :: bool
  runners :: "runner list"
  persists :: nat
  w_disk :: fs
  fired :: "u32 list"

definition numInFlight :: nat where
  "numInFlight = 5"

definition loop_start :: "int \<Rightarrow> 'd net \<Rightarrow> fs \<Rightarrow> 'd coordinator \<Rightarrow> 'd world" where
  "loop_start now net disk srv =
     \<lparr>w_srv = srv\<lparr>co_round := co_round srv + 100\<rparr>, w_net = net, flights = numInFlight,
      lastDeadline = now, loop_alive = True, runners = [], persists = 0, w_disk = disk, fired = []\<rparr>"

text \<open>One turn of the loop after it took a token.\<close>

definition loop_fire :: "int \<Rightarrow> 'd world \<Rightarrow> 'd world" where
  "loop_fire now w =
     (let round = co_round (w_srv w) + 1;
          last = (if now > lastDeadline w then now else lastDeadline w) + co_RoundDelay (w_srv w) in
      w\<lparr>flights := flights w - 1, w_srv := (w_srv w)\<lparr>co_round := round\<rparr>,
        persists := (if round mod 20 = 0 then persists w + 1 else persists w),
        lastDeadline := last,
        runners := runners w @ [\<lparr>rn_round = round, rn_deadline = last, rn_pc = Starting\<rparr>],
        fired := fired w @ [round]\<rparr>)"

definition remove_nth :: "nat \<Rightarrow> 'a list \<Rightarrow> 'a list" where
  "remove_nth i xs = take i xs @ drop (Suc i) xs"

text \<open>The end of a round's goroutine: the deferred function, then the token, if the channel has room.\<close>

definition runner_done :: "nat \<Rightarrow> 'd world \<Rightarrow> 'd world" where
  "runner_done i w =
     w\<lparr>w_srv := runRound_done (rn_round (runners w ! i)) (w_srv w),
       runners := remove_nth i (runners w),
       flights := (if flights w < numInFlight then flights w + 1 else flights w)\<rparr>"

definition set_pc :: "nat \<Rightarrow> runner_pc \<Rightarrow> 'd world \<Rightarrow> 'd world" where
  "set_pc i pc w = w\<lparr>runners := (runners w)[i := (runners w ! i)\<lparr>rn_pc := pc\<rparr>]\<rparr>"

inductive co_step ::
  "mix_env \<Rightarrow> settings_encoder \<Rightarrow> 'd close_rpc \<Rightarrow> ctx_peer \<Rightarrow> 'd world \<Rightarrow> 'd world \<Rightarrow> bool"
  for E enc close ctx where
  fire: "loop_alive w \<Longrightarrow> 0 < flights w \<Longrightarrow> co_step E enc close ctx w (loop_fire now w)"
| stop: "loop_alive w \<Longrightarrow> co_shutdown (w_srv w) = Some True \<Longrightarrow>
    co_step E enc close ctx w (w\<lparr>loop_alive := False\<rparr>)"
| persist: "0 < persists w \<Longrightarrow> co_Persist calls (w_disk w) (w_srv w) = (states, r) \<Longrightarrow>
    r = Ok () \<or> co_closed (w_srv w) \<Longrightarrow>
    co_step E enc close ctx w (w\<lparr>persists := persists w - 1, w_disk := last states\<rparr>)"
| skip: "i < length (runners w) \<Longrightarrow> rn_pc (runners w ! i) = Starting \<Longrightarrow>
    runRound_announce E enc ctx (rn_round (runners w ! i)) (rn_deadline (runners w ! i)) (w_net w) (w_srv w) =
      (net', srv', Ok None) \<Longrightarrow>
    co_step E enc close ctx w (runner_done i (w\<lparr>w_net := net', w_srv := srv'\<rparr>))"
| announce: "i < length (runners w) \<Longrightarrow> rn_pc (runners w ! i) = Starting \<Longrightarrow>
    runRound_announce E enc ctx (rn_round (runners w ! i)) (rn_deadline (runners w ! i)) (w_net w) (w_srv w) =
      (net', srv', Ok (Some servers)) \<Longrightarrow>
    co_step E enc close ctx w (set_pc i (Sleeping servers) (w\<lparr>w_net := net', w_srv := srv'\<rparr>))"
| abort: "i < length (runners w) \<Longrightarrow> rn_pc (runners w ! i) = Sleeping servers \<Longrightarrow>
    co_shutdown (w_srv w) = Some True \<Longrightarrow> \<not> co_sleep ShutdownClosed \<Longrightarrow>
    co_step E enc close ctx w (runner_done i w)"
| deadline: "i < length (runners w) \<Longrightarrow> rn_pc (runners w ! i) = Sleeping (s # servers) \<Longrightarrow>
    rn_deadline (runners w ! i) \<le> now \<Longrightarrow> co_sleep TimerFired \<Longrightarrow>
    runRound_close (rn_round (runners w ! i)) (w_srv w) = (srv', batch) \<Longrightarrow>
    co_step E enc close ctx w (set_pc i (Mixing s batch) (w\<lparr>w_srv := srv'\<rparr>))"
| mix: "i < length (runners w) \<Longrightarrow> rn_pc (runners w ! i) = Mixing s batch \<Longrightarrow>
    mixOnions E close ctx s (rn_round (runners w ! i)) batch (w_net w) (w_srv w) = (net', Ok srv') \<Longrightarrow>
    co_step E enc close ctx w (runner_done i (w\<lparr>w_net := net', w_srv := srv'\<rparr>))"
| onion: "co_step E enc close ctx w (w\<lparr>w_srv := incomingOnion ago c msg (w_srv w)\<rparr>)"
| fetch: "co_step E enc close ctx w (w\<lparr>w_srv := updateConfig fetched (w_srv w)\<rparr>)"
| announcement: "sendAnnouncementHandler broadcast req (w_srv w) = (srv', r) \<Longrightarrow>
    co_step E enc close ctx w (w\<lparr>w_srv := srv'\<rparr>)"
| close: "co_Close (w_srv w) = (srv', r) \<Longrightarrow> co_step E enc close ctx w (w\<lparr>w_srv := srv'\<rparr>)"

inductive co_reachable ::
  "mix_env \<Rightarrow> settings_encoder \<Rightarrow> 'd close_rpc \<Rightarrow> ctx_peer \<Rightarrow> 'd world \<Rightarrow> 'd world \<Rightarrow> bool"
  for E enc close ctx w0 where
  start: "co_reachable E enc close ctx w0 w0"
| step: "co_reachable E enc close ctx w0 w \<Longrightarrow> co_step E enc close ctx w w' \<Longrightarrow>
    co_reachable E enc close ctx w0 w'"

end
