(* ===== verification/Coordinator_Rounds.thy ===== *)
theory Coordinator_Rounds
  imports Coordinator
begin

text \<open>
  What the coordinator guarantees: replies go back to their senders, at most five rounds run at once
  and no number is used twice, a batch is final once taken, announcements come from guardians,
  announced settings carry verifying signatures, and what the round counter on disk is good for.
\<close>

section \<open>Lemmas: replies go back to their senders\<close>

lemma copy_reply_length: "copy_reply resp rs = Ok rs' \<Longrightarrow> length rs' = length rs"
  by (auto simp: copy_reply_def split: if_splits)

lemma fetch_span_length: "fetch_span E net ctx server service round sp rs = (rs', r) \<Longrightarrow> length rs' = length rs"
proof -
  assume f: "fetch_span E net ctx server service round sp rs = (rs', r)"
  have "length b = length rs" if "ofold copy_reply ms rs = Ok b" for ms b
    using ofold_invariant [OF that, of "\<lambda>x. length x = length rs"] copy_reply_length by auto
  then show ?thesis
    using f by (auto simp: fetch_span_def sbind_def split: prod.splits option.splits outcome.splits)
qed

lemma RunRoundBidirectional_length:
  fixes net :: "'d net"
  assumes "RunRoundBidirectional E close net ctx server service round onions = (net', Ok rs)"
  shows "length rs = length onions"
proof -
  obtain net1 :: "'d net" and r2 where run: "run_all (fetch_span E net1 ctx server service round)
      (Spans E (length onions) (spanSize (length onions))) (replicate (length onions) None) = (rs, r2)"
    using assms
    by (auto simp: RunRoundBidirectional_def sbind_def Let_def wrap_err_def
        split: prod.splits outcome.splits option.splits if_splits)
  have "length rs = length onions \<and> (\<forall>bs. r2 = Ok bs \<longrightarrow> list_all2 (\<lambda>_ _. True)
      (Spans E (length onions) (spanSize (length onions))) bs)"
    by (rule run_all_invariant [OF run, where I = "\<lambda>x. length x = length onions"])
      (auto dest: fetch_span_length)
  then show ?thesis by simp
qed

text \<open>
  What the coordinator relies on: a round that succeeds returns one slot per onion. Everybody then
  gets the replies to the onions handed in, whatever the mix network is.
\<close>

locale round_runner =
  fixes run :: "bytes list \<Rightarrow> 'n \<times> (mix_err, bytes option list) outcome"
  assumes run_length: "run onions = (n, Ok rs) \<Longrightarrow> length rs = length onions"
begin

definition parts_of :: "bytes option list \<Rightarrow> senderRange list \<Rightarrow> bytes option list list" where
  "parts_of rs senders = map (\<lambda>sr. slice (sr_start sr) (sr_end sr) rs) senders"

lemma ranges_split:
  assumes "sender_ranges bs os ss = (onions, senders)"
  shows "\<exists>new. senders = ss @ new \<and> onions = os @ concat (map ob_onions bs) \<and>
    map sr_sender new = map ob_sender bs \<and>
    (\<forall>rs. length rs = length onions \<longrightarrow> concat (parts_of rs new) = drop (length os) rs \<and>
       map length (parts_of rs new) = map (\<lambda>b. length (ob_onions b)) bs)"
  using assms
proof (induction bs arbitrary: os ss)
  case (Cons b bs)
  let ?sr = "\<lparr>sr_sender = ob_sender b, sr_start = length os, sr_end = length os + length (ob_onions b)\<rparr>"
  have "sender_ranges bs (os @ ob_onions b) (ss @ [?sr]) = (onions, senders)" using Cons.prems by simp
  from Cons.IH [OF this] obtain new where new: "senders = ss @ [?sr] @ new"
    "onions = os @ ob_onions b @ concat (map ob_onions bs)" "map sr_sender new = map ob_sender bs"
    "\<forall>rs. length rs = length onions \<longrightarrow> concat (parts_of rs new) = drop (length os + length (ob_onions b)) rs \<and>
       map length (parts_of rs new) = map (\<lambda>b. length (ob_onions b)) bs" by auto
  have "slice (length os) (length os + length (ob_onions b)) rs @ drop (length os + length (ob_onions b)) rs =
      drop (length os) rs" for rs :: "bytes option list"
    using append_take_drop_id [of "length (ob_onions b)" "drop (length os) rs"]
    by (simp add: slice_def add.commute)
  with new show ?case
    by (intro exI [of _ "?sr # new"]) (auto simp: parts_of_def)
qed (auto simp: parts_of_def)

lemma delivered:
  assumes "sender_ranges bs [] [] = (onions, senders)" and "run onions = (n, Ok rs)"
  shows "\<exists>parts. onions = concat (map ob_onions bs) \<and> concat parts = rs \<and>
    map length parts = map (\<lambda>b. length (ob_onions b)) bs \<and>
    map (reply_to round rs) senders =
      map2 (\<lambda>b part. (ToConn (ob_sender b), MReply \<lparr>om_Round = round, om_Onions = map reply_bytes part\<rparr>)) bs parts"
proof -
  from ranges_split [OF assms(1)] obtain new where new: "senders = new" "onions = concat (map ob_onions bs)"
    "map sr_sender new = map ob_sender bs" "concat (parts_of rs new) = rs"
    "map length (parts_of rs new) = map (\<lambda>b. length (ob_onions b)) bs"
    using run_length [OF assms(2)] by auto
  then have len: "length new = length bs" by (metis length_map)
  have "sr_sender (new ! i) = ob_sender (bs ! i)" if "i < length bs" for i
    using new(3) len that by (metis nth_map)
  then have "map (reply_to round rs) senders =
      map2 (\<lambda>b part. (ToConn (ob_sender b), MReply \<lparr>om_Round = round, om_Onions = map reply_bytes part\<rparr>)) bs (parts_of rs new)"
    using new(1) len by (intro nth_equalityI) (auto simp: reply_to_def parts_of_def)
  with new show ?thesis by blast
qed

end

interpretation mixnet_rounds: round_runner "RunRoundBidirectional E close net ctx server service round"
  for E close net ctx server service round
  by unfold_locales (rule RunRoundBidirectional_length)

section \<open>Lemmas: the goroutines of the loop\<close>

lemma set_remove_nth: "i < length xs \<Longrightarrow> x \<in> set (remove_nth i xs) \<longleftrightarrow> (\<exists>j < length xs. j \<noteq> i \<and> x = xs ! j)"
proof -
  assume i: "i < length xs"
  have "x \<in> set (drop (Suc i) xs) \<longleftrightarrow> (\<exists>j < length xs. i < j \<and> x = xs ! j)"
  proof
    assume "x \<in> set (drop (Suc i) xs)"
    then obtain k where "k < length xs - Suc i" "x = xs ! (Suc i + k)"
      by (auto simp: in_set_conv_nth)
    then show "\<exists>j < length xs. i < j \<and> x = xs ! j" by (intro exI [of _ "Suc i + k"]) auto
  next
    assume "\<exists>j < length xs. i < j \<and> x = xs ! j"
    then obtain j where "j < length xs" "i < j" "x = xs ! j" by blast
    then show "x \<in> set (drop (Suc i) xs)"
      by (auto simp: in_set_conv_nth intro!: exI [of _ "j - Suc i"])
  qed
  moreover have "x \<in> set (take i xs) \<longleftrightarrow> (\<exists>j < length xs. j < i \<and> x = xs ! j)"
  proof -
    have "x \<in> set (take i xs) \<longleftrightarrow> (\<exists>j < i. x = xs ! j)" using i by (auto simp: in_set_conv_nth)
    also have "\<dots> \<longleftrightarrow> (\<exists>j < length xs. j < i \<and> x = xs ! j)" using i order.strict_trans by blast
    finally show ?thesis .
  qed
  ultimately show ?thesis unfolding remove_nth_def by (auto simp: neq_iff)
qed

lemma length_remove_nth: "i < length xs \<Longrightarrow> length (remove_nth i xs) = length xs - 1"
  by (simp add: remove_nth_def)

lemma map_remove_nth: "map f (remove_nth i xs) = remove_nth i (map f xs)"
  by (simp add: remove_nth_def take_map drop_map)

lemma distinct_remove_nth:
  assumes "distinct xs" and "i < length xs"
  shows "distinct (remove_nth i xs) \<and> xs ! i \<notin> set (remove_nth i xs)"
proof -
  have split: "xs = take i xs @ xs ! i # drop (Suc i) xs" using assms(2) by (rule id_take_nth_drop)
  have "distinct (take i xs @ xs ! i # drop (Suc i) xs)" using assms(1) split by metis
  then show ?thesis by (auto simp: remove_nth_def)
qed

text \<open>
  What the map of rounds holds for a goroutine: nothing before its announcement, an open round while it sleeps,
  a closed one with the batch it took while it mixes.
\<close>

definition round_matches :: "'d coordinator \<Rightarrow> runner \<Rightarrow> bool" where
  "round_matches srv rn =
     (case rn_pc rn of
        Starting \<Rightarrow> co_rounds srv (rn_round rn) = None
      | Sleeping _ \<Rightarrow> (\<exists>st. co_rounds srv (rn_round rn) = Some st \<and> co_open st \<and>
          ni_Round (roundInfo st) = rn_round rn \<and> ni_EndTime (roundInfo st) = rn_deadline rn)
      | Mixing _ batch \<Rightarrow> (\<exists>st. co_rounds srv (rn_round rn) = Some st \<and> \<not> co_open st \<and> co_onions st = batch \<and>
          ni_Round (roundInfo st) = rn_round rn \<and> ni_EndTime (roundInfo st) = rn_deadline rn))"

definition runners_inv :: "'d world \<Rightarrow> bool" where
  "runners_inv w \<longleftrightarrow> distinct (map rn_round (runners w)) \<and>
     rn_round ` set (runners w) \<subseteq> set (fired w) \<and>
     (\<forall>rn \<in> set (runners w). round_matches (w_srv w) rn) \<and>
     dom (co_rounds (w_srv w)) \<subseteq> rn_round ` set (runners w)"

definition nth_fired :: "u32 \<Rightarrow> nat \<Rightarrow> u32" where
  "nth_fired r0 i = r0 + 1 + word_of_nat i"

definition loop_inv :: "u32 \<Rightarrow> 'd world \<Rightarrow> bool" where
  "loop_inv r0 w \<longleftrightarrow> flights w + length (runners w) = numInFlight \<and>
     co_round (w_srv w) = r0 + word_of_nat (length (fired w)) \<and>
     fired w = map (nth_fired r0) [0..<length (fired w)]"

lemma nth_fired_inject: "i < 2 ^ 32 \<Longrightarrow> j < 2 ^ 32 \<Longrightarrow> nth_fired r0 i = nth_fired r0 j \<longleftrightarrow> i = j"
  by (auto simp: nth_fired_def dest: arg_cong [where f = unat] simp: unat32_of_nat)

lemma fired_distinct: "n \<le> 2 ^ 32 \<Longrightarrow> distinct (map (nth_fired r0) [0..<n])"
  by (auto simp: distinct_map inj_on_def nth_fired_inject)

lemma matches_other:
  assumes "round_matches srv rn" and "co_rounds srv' (rn_round rn) = co_rounds srv (rn_round rn)"
  shows "round_matches srv' rn"
  using assms by (auto simp: round_matches_def split: runner_pc.splits)

text \<open>A change of the server that leaves the map of rounds alone.\<close>

lemma runners_inv_srv:
  assumes "runners_inv w" and "co_rounds srv' = co_rounds (w_srv w)"
  shows "runners_inv (w\<lparr>w_srv := srv'\<rparr>)"
  using assms by (auto simp: runners_inv_def intro: matches_other)

lemma runners_inv_done:
  assumes "runners_inv w" and "i < length (runners w)"
    and "\<forall>r. r \<noteq> rn_round (runners w ! i) \<longrightarrow> co_rounds srv' r = co_rounds (w_srv w) r"
  shows "runners_inv (runner_done i (w\<lparr>w_net := net', w_srv := srv'\<rparr>))"
proof -
  let ?r = "rn_round (runners w ! i)" and ?rest = "remove_nth i (runners w)"
  have d: "distinct (map rn_round ?rest)" "?r \<notin> rn_round ` set ?rest"
    using distinct_remove_nth [of "map rn_round (runners w)" i] assms(1,2)
    by (auto simp: runners_inv_def simp flip: map_remove_nth)
  have sub: "set ?rest \<subseteq> set (runners w)" using assms(2) by (auto simp: set_remove_nth)
  have all: "set (runners w) \<subseteq> insert (runners w ! i) (set ?rest)"
  proof
    fix rn assume "rn \<in> set (runners w)"
    then obtain j where "j < length (runners w)" "rn = runners w ! j" by (auto simp: in_set_conv_nth)
    then show "rn \<in> insert (runners w ! i) (set ?rest)"
      using assms(2) by (cases "j = i") (auto simp: set_remove_nth)
  qed
  have "round_matches (runRound_done ?r srv') rn" if "rn \<in> set ?rest" for rn
  proof (rule matches_other)
    show "round_matches (w_srv w) rn" using that sub assms(1) by (auto simp: runners_inv_def)
    show "co_rounds (runRound_done ?r srv') (rn_round rn) = co_rounds (w_srv w) (rn_round rn)"
      using imageI [OF that, of rn_round] d(2) assms(3) by (auto simp: runRound_done_def)
  qed
  moreover have "dom (co_rounds (runRound_done ?r srv')) \<subseteq> rn_round ` set ?rest"
  proof
    fix r assume "r \<in> dom (co_rounds (runRound_done ?r srv'))"
    then have "r \<noteq> ?r" "r \<in> dom (co_rounds srv')" by (auto simp: runRound_done_def split: if_splits)
    then have "r \<in> dom (co_rounds (w_srv w))" using assms(3) by auto
    then obtain rn where rn: "rn \<in> set (runners w)" "r = rn_round rn" using assms(1) unfolding runners_inv_def by blast
    with all \<open>r \<noteq> ?r\<close> have "rn \<in> set ?rest" by auto
    with rn show "r \<in> rn_round ` set ?rest" by blast
  qed
  moreover have "rn_round ` set ?rest \<subseteq> set (fired w)"
  proof (rule subset_trans [OF image_mono [OF sub]])
    show "rn_round ` set (runners w) \<subseteq> set (fired w)" using assms(1) by (simp add: runners_inv_def)
  qed
  ultimately show ?thesis using d by (simp add: runners_inv_def runner_done_def)
qed

lemma runners_inv_pc:
  assumes "runners_inv w" and "i < length (runners w)"
    and "\<forall>r. r \<noteq> rn_round (runners w ! i) \<longrightarrow> co_rounds srv' r = co_rounds (w_srv w) r"
    and "round_matches srv' ((runners w ! i)\<lparr>rn_pc := pc\<rparr>)"
  shows "runners_inv (set_pc i pc (w\<lparr>w_net := net', w_srv := srv'\<rparr>))"
proof -
  let ?new = "(runners w ! i)\<lparr>rn_pc := pc\<rparr>" and ?rns = "(runners w)[i := (runners w ! i)\<lparr>rn_pc := pc\<rparr>]"
  have rounds: "map rn_round ?rns = map rn_round (runners w)"
    using assms(2) by (intro nth_equalityI) (auto simp: nth_list_update)
  have im: "rn_round ` set ?rns = rn_round ` set (runners w)" using rounds by (metis set_map)
  have dist: "distinct (map rn_round (runners w))" using assms(1) by (simp add: runners_inv_def)
  have "round_matches srv' rn" if rn: "rn \<in> set ?rns" for rn
  proof -
    obtain j where j: "j < length (runners w)" "rn = ?rns ! j"
      using rn unfolding in_set_conv_nth length_list_update by blast
    show ?thesis
    proof (cases "j = i")
      case False
      then have "rn_round (runners w ! j) \<noteq> rn_round (runners w ! i)"
        using dist j assms(2) by (simp add: distinct_conv_nth)
      moreover have "round_matches (w_srv w) (runners w ! j)" using assms(1) j by (simp add: runners_inv_def)
      ultimately show ?thesis using False j assms(3) by (auto intro: matches_other)
    qed (use j assms in auto)
  qed
  moreover have "dom (co_rounds srv') \<subseteq> rn_round ` set (runners w)"
  proof
    fix r assume "r \<in> dom (co_rounds srv')"
    then show "r \<in> rn_round ` set (runners w)"
      using assms(1-3) by (cases "r = rn_round (runners w ! i)") (auto simp: runners_inv_def)
  qed
  ultimately show ?thesis using assms(1) dist rounds im by (simp add: runners_inv_def set_pc_def)
qed


lemma runRound_announce_cases:
  assumes "runRound_announce E enc ctx round deadline net srv = (net', srv', Ok res)"
  obtains (skipped) "res = None" "srv' = srv"
  | (announced) servers info where "res = Some servers" "ni_Round info = round" "ni_EndTime info = deadline"
      "srv' = send_to ToAll (MNewRound info) (srv\<lparr>co_rounds := (co_rounds srv)(round \<mapsto>
         \<lparr>roundInfo = info, co_open = True, co_onions = []\<rparr>)\<rparr>)"
proof -
  note d = assms [unfolded runRound_announce_def Let_def]
  show thesis
  proof (cases res)
    case None
    then show thesis using d skipped by (auto split: if_splits option.splits prod.splits outcome.splits)
  next
    case (Some servers)
    then obtain conf :: signed_config and s sigs where "srv' = send_to ToAll (MNewRound \<lparr>ni_Round = round, ni_ConfigHash = sc_Hash conf,
        ni_MixSettings = s, ni_MixSignatures = sigs, ni_EndTime = deadline\<rparr>) (srv\<lparr>co_rounds := (co_rounds srv)(round \<mapsto>
         \<lparr>roundInfo = \<lparr>ni_Round = round, ni_ConfigHash = sc_Hash conf,
        ni_MixSettings = s, ni_MixSignatures = sigs, ni_EndTime = deadline\<rparr>, co_open = True, co_onions = []\<rparr>)\<rparr>)"
      using d by (auto split: if_splits option.splits prod.splits outcome.splits)
    from announced [OF Some _ _ this] show thesis by simp
  qed
qed

lemma co_rounds_send_to [simp]: "co_rounds (send_to d m srv) = co_rounds srv"
  by (simp add: send_to_def)

lemma co_round_send_to [simp]: "co_round (send_to d m srv) = co_round srv"
  by (simp add: send_to_def)

lemma incomingOnion_dom: "dom (co_rounds (incomingOnion ago c msg srv)) = dom (co_rounds srv)"
  by (auto simp: incomingOnion_def split: option.splits if_splits)

lemma incomingOnion_matches: "round_matches srv rn \<Longrightarrow> round_matches (incomingOnion ago c msg srv) rn"
  by (auto simp: incomingOnion_def round_matches_def split: option.splits if_splits runner_pc.splits)

lemma runners_inv_onion: "runners_inv w \<Longrightarrow> runners_inv (w\<lparr>w_srv := incomingOnion ago c msg (w_srv w)\<rparr>)"
  by (simp add: runners_inv_def incomingOnion_dom incomingOnion_matches)

lemma runners_inv_fire:
  assumes "runners_inv w" and "loop_inv r0 w" and "length (fired w) < 2 ^ 32"
  shows "runners_inv (loop_fire now w)"
proof -
  let ?r = "co_round (w_srv w) + 1"
  have r: "?r = nth_fired r0 (length (fired w))" using assms(2) by (simp add: loop_inv_def nth_fired_def)
  have "fired w = map (nth_fired r0) [0..<length (fired w)]" using assms(2) by (simp add: loop_inv_def)
  then have "set (fired w) = nth_fired r0 ` {0..<length (fired w)}" by (metis set_map set_upt)
  then have new: "?r \<notin> set (fired w)" using r assms(3) by (auto simp: nth_fired_inject)
  have sub: "rn_round ` set (runners w) \<subseteq> set (fired w)" "dom (co_rounds (w_srv w)) \<subseteq> rn_round ` set (runners w)"
    using assms(1) by (simp_all add: runners_inv_def)
  have none: "co_rounds (w_srv w) ?r = None" using new sub by (meson domIff subsetD)
  have "round_matches ((w_srv w)\<lparr>co_round := ?r\<rparr>) rn" if "rn \<in> set (runners w)" for rn
    using that assms(1) by (auto simp: runners_inv_def intro: matches_other)
  moreover have "distinct (map rn_round (runners w))" using assms(1) by (simp add: runners_inv_def)
  moreover have "?r \<notin> rn_round ` set (runners w)" using new sub(1) by blast
  ultimately show ?thesis
    using sub none
    by (simp add: runners_inv_def loop_fire_def Let_def subset_insertI2)
      (simp add: round_matches_def)
qed

lemma loop_inv_step:
  assumes "co_step E enc close ctx w w'" and "loop_inv r0 w"
  shows "loop_inv r0 w'"
  using assms
proof (induction rule: co_step.induct)
  case (fire w now)
  then show ?case by (simp add: loop_inv_def loop_fire_def nth_fired_def Let_def algebra_simps)
next
  case (skip i w net' srv')
  then have "srv' = w_srv w" by (auto elim: runRound_announce_cases)
  with skip show ?case by (simp add: loop_inv_def runner_done_def runRound_done_def length_remove_nth)
next
  case (announce i w net' srv' servers)
  then have "co_round srv' = co_round (w_srv w)" by (auto elim: runRound_announce_cases)
  with announce show ?case by (simp add: loop_inv_def set_pc_def)
next
  case (abort i w servers)
  then show ?case by (simp add: loop_inv_def runner_done_def runRound_done_def length_remove_nth)
next
  case (deadline i w s servers now srv' batch)
  then have "co_round srv' = co_round (w_srv w)" by (auto simp: runRound_close_def split: option.splits)
  with deadline show ?case by (simp add: loop_inv_def set_pc_def)
next
  case (mix i w s batch net' srv')
  then have "co_round srv' = co_round (w_srv w)"
    by (auto simp: mixOnions_def split: prod.splits outcome.splits)
  with mix show ?case by (simp add: loop_inv_def runner_done_def runRound_done_def length_remove_nth)
next
  case (onion w ago c msg)
  then show ?case by (simp add: loop_inv_def incomingOnion_def split: option.splits)
next
  case (fetch w fetched)
  then show ?case by (simp add: loop_inv_def updateConfig_def split: option.splits)
next
  case (announcement broadcast req w srv' r)
  then have "co_round srv' = co_round (w_srv w)"
    by (auto simp: sendAnnouncementHandler_def split: option.splits list.splits cert_key.splits if_splits)
  with announcement show ?case by (simp add: loop_inv_def)
next
  case (close w srv' r)
  then have "co_round srv' = co_round (w_srv w)"
    by (auto simp: co_Close_def split: option.splits bool.splits if_splits)
  with close show ?case by (simp add: loop_inv_def)
qed (simp_all add: loop_inv_def)

lemma fired_mono: "co_step E enc close ctx w w' \<Longrightarrow> length (fired w) \<le> length (fired w')"
  by (induction rule: co_step.induct)
    (simp_all add: loop_fire_def runner_done_def set_pc_def Let_def)

lemma runners_inv_step:
  assumes "co_step E enc close ctx w w'" and "loop_inv r0 w" and "runners_inv w" and "length (fired w') \<le> 2 ^ 32"
  shows "runners_inv w'"
  using assms
proof (induction rule: co_step.induct)
  case (fire w now)
  then show ?case by (intro runners_inv_fire) (auto simp: loop_fire_def Let_def)
next
  case (skip i w net' srv')
  then have "srv' = w_srv w" by (auto elim: runRound_announce_cases)
  with skip show ?case using runners_inv_done [of w i "w_srv w" net'] by simp
next
  case (announce i w net' srv' servers)
  from announce(3) show ?case
  proof (cases rule: runRound_announce_cases)
    case (announced servers info)
    with announce show ?thesis by (intro runners_inv_pc) (auto simp: round_matches_def)
  qed simp
next
  case (abort i w servers)
  then show ?case using runners_inv_done [of w i "w_srv w" "w_net w"] by simp
next
  case (deadline i w s servers now srv' batch)
  let ?rn = "runners w ! i"
  have "round_matches (w_srv w) ?rn" using deadline by (simp add: runners_inv_def)
  then obtain st where st: "co_rounds (w_srv w) (rn_round ?rn) = Some st" "ni_Round (roundInfo st) = rn_round ?rn"
    "ni_EndTime (roundInfo st) = rn_deadline ?rn" using deadline(2) by (auto simp: round_matches_def)
  then have "srv' = (w_srv w)\<lparr>co_rounds := (co_rounds (w_srv w))(rn_round ?rn \<mapsto> st\<lparr>co_open := False\<rparr>)\<rparr>"
    "batch = co_onions st" using deadline(5) by (simp_all add: runRound_close_def)
  then show ?case using deadline st runners_inv_pc [of w i srv' "Mixing s batch" "w_net w"]
    by (simp add: round_matches_def)
next
  case (mix i w s batch net' srv')
  then have "co_rounds srv' = co_rounds (w_srv w)"
    by (auto simp: mixOnions_def split: prod.splits outcome.splits)
  with mix show ?case by (intro runners_inv_done) auto
next
  case (onion w ago c msg)
  then show ?case by (intro runners_inv_onion) auto
next
  case (fetch w fetched)
  then show ?case by (intro runners_inv_srv) (auto simp: updateConfig_def split: option.splits)
next
  case (announcement broadcast req w srv' r)
  then have "co_rounds srv' = co_rounds (w_srv w)"
    by (auto simp: sendAnnouncementHandler_def split: option.splits list.splits cert_key.splits if_splits)
  with announcement show ?case by (intro runners_inv_srv) auto
next
  case (close w srv' r)
  then have "co_rounds srv' = co_rounds (w_srv w)"
    by (auto simp: co_Close_def split: option.splits bool.splits if_splits)
  with close show ?case by (intro runners_inv_srv) auto
qed (simp_all add: runners_inv_def)

lemma co_reachable_inv:
  assumes "co_reachable E enc close ctx (loop_start now net disk srv) w" and "co_rounds srv = Map.empty"
  shows "loop_inv (co_round srv + 100) w \<and> (length (fired w) \<le> 2 ^ 32 \<longrightarrow> runners_inv w)"
  using assms(1)
proof (induction rule: co_reachable.induct)
  case start
  then show ?case using assms(2) by (simp add: loop_inv_def runners_inv_def loop_start_def)
next
  case (step w w')
  then show ?case using loop_inv_step runners_inv_step fired_mono by (meson order_trans)
qed


section \<open>Properties\<close>

lemma mixOnions_Ok:
  assumes "RunRoundBidirectional E close net ctx s (co_Service srv) r (concat (map ob_onions out)) = (net', Ok rs)"
  shows "\<exists>srv' parts. mixOnions E close ctx s r out net srv = (net', Ok srv') \<and> concat parts = rs \<and>
    map length parts = map (\<lambda>b. length (ob_onions b)) out \<and>
    co_outbox srv' = co_outbox srv @
      map2 (\<lambda>b part. (ToConn (ob_sender b), MReply \<lparr>om_Round = r, om_Onions = map reply_bytes part\<rparr>)) out parts"
proof -
  obtain onions senders where ranges: "sender_ranges out [] [] = (onions, senders)" by fastforce
  have onions: "onions = concat (map ob_onions out)" using mixnet_rounds.ranges_split [OF ranges] by auto
  from mixnet_rounds.delivered [OF ranges assms [folded onions], of r] ranges assms show ?thesis
    by (auto simp: mixOnions_def onions)
qed

text \<open>
  C19. Replies go back to their senders: when the mix network returns replies, every bundle's sender
  is sent exactly one message, with the consecutive replies to the onions of that bundle in their
  order, and nobody gets a reply to somebody else's onion; when it fails, everybody is told that
  the round failed and no replies are sent.
\<close>

theorem mixOnions_delivery:
  "case RunRoundBidirectional E close net ctx s (co_Service srv) r (concat (map ob_onions out)) of
     (net', Ok rs) \<Rightarrow>
       (\<exists>srv' parts. mixOnions E close ctx s r out net srv = (net', Ok srv') \<and> concat parts = rs \<and>
          map length parts = map (\<lambda>b. length (ob_onions b)) out \<and>
          co_outbox srv' = co_outbox srv @
            map2 (\<lambda>b part. (ToConn (ob_sender b), MReply \<lparr>om_Round = r, om_Onions = map reply_bytes part\<rparr>)) out parts)
   | (net', Err e) \<Rightarrow>
       mixOnions E close ctx s r out net srv =
         (net', Ok (srv\<lparr>co_outbox := co_outbox srv @ [(ToAll, MError \<lparr>re_Round = r, re_Err = ''server error''\<rparr>)]\<rparr>))
   | (net', Panic p) \<Rightarrow> mixOnions E close ctx s r out net srv = (net', Panic p)
   | (net', Hang) \<Rightarrow> mixOnions E close ctx s r out net srv = (net', Hang)"
proof -
  obtain onions senders where ranges: "sender_ranges out [] [] = (onions, senders)" by fastforce
  have onions: "onions = concat (map ob_onions out)" using mixnet_rounds.ranges_split [OF ranges] by auto
  obtain net' res where run: "RunRoundBidirectional E close net ctx s (co_Service srv) r onions = (net', res)"
    by fastforce
  show ?thesis
  proof (cases res)
    case (Ok rs)
    with run mixOnions_Ok [OF run [unfolded Ok onions]] show ?thesis unfolding onions by simp
  qed (use ranges run onions in \<open>auto simp: mixOnions_def send_to_def\<close>)
qed

text \<open>
  C20. The loop of the coordinator: in every reachable state the tokens and the rounds in flight add
  up to five, so at most five rounds run at once; the round numbers fired are consecutive from the
  hundred-and-first after the loaded counter on, so none is used twice before the 32-bit counter
  wraps, and only rounds in flight accept onions.
\<close>

theorem coordinator_rounds:
  assumes "co_reachable E enc close ctx (loop_start now net disk srv) w" and "co_rounds srv = Map.empty"
  shows "flights w + length (runners w) = 5 \<and>
    fired w = map (\<lambda>i. co_round srv + 101 + word_of_nat i) [0..<length (fired w)] \<and>
    (length (fired w) \<le> 2 ^ 32 \<longrightarrow> distinct (fired w) \<and> distinct (map rn_round (runners w)) \<and>
       dom (co_rounds (w_srv w)) \<subseteq> rn_round ` set (runners w) \<and> card (dom (co_rounds (w_srv w))) \<le> 5)"
proof -
  let ?r0 = "co_round srv + 100"
  from co_reachable_inv [OF assms] have inv: "loop_inv ?r0 w" "length (fired w) \<le> 2 ^ 32 \<Longrightarrow> runners_inv w" by auto
  have fl: "flights w + length (runners w) = 5" using inv(1) by (simp add: loop_inv_def numInFlight_def)
  have "nth_fired ?r0 = (\<lambda>i. co_round srv + 101 + word_of_nat i)" by (simp add: nth_fired_def fun_eq_iff)
  then have fired: "fired w = map (\<lambda>i. co_round srv + 101 + word_of_nat i) [0..<length (fired w)]"
    and dist: "length (fired w) \<le> 2 ^ 32 \<Longrightarrow> distinct (fired w)"
    using inv(1) fired_distinct [of "length (fired w)" ?r0] by (simp_all add: loop_inv_def)
  have "card (rn_round ` set (runners w)) \<le> 5"
    using fl card_image_le [of "set (runners w)" rn_round] card_length [of "runners w"] by simp
  then show ?thesis
    using fl fired dist inv(2) card_mono [of "rn_round ` set (runners w)" "dom (co_rounds (w_srv w))"]
    by (auto simp: runners_inv_def)
qed

definition toy_coordinator :: "unit coordinator" where
  "toy_coordinator =
     \<lparr>co_Service = ''Convo'', co_RoundDelay = 1, co_PersistPath = ''p'', co_round = 0, co_rounds = Map.empty,
      co_closed = False, co_shutdown = Some False, co_freshConfig = False, co_latestConfig = None, co_outbox = []\<rparr>"

definition toy_close :: "unit close_rpc" where
  "toy_close net k ctx s r = (net, Err DialError)"

abbreviation toy_world :: "fs \<Rightarrow> unit world" where
  "toy_world disk \<equiv> loop_start 0 Map.empty disk toy_coordinator"

lemma toy_fire:
  "co_reachable toy_env toy_enc toy_close None (toy_world disk) (loop_fire 0 (toy_world disk))"
  by (rule co_reachable.step [OF co_reachable.start co_step.fire])
    (simp_all add: loop_start_def numInFlight_def)

theorem coordinator_rounds_witness:
  "flights (loop_fire 0 (toy_world Map.empty)) + length (runners (loop_fire 0 (toy_world Map.empty))) = 5 \<and>
   fired (loop_fire 0 (toy_world Map.empty)) = [101]"
  using coordinator_rounds [OF toy_fire, of Map.empty]
  by (simp add: toy_coordinator_def loop_fire_def loop_start_def Let_def)

text \<open>
  C21. A batch is final once it is taken: while a round is being mixed, the round holds exactly the
  batch, and an onion that comes in for it is refused with an error to its sender and changes no
  round.
\<close>

theorem late_onions_refused:
  assumes "co_reachable E enc close ctx (loop_start now net disk srv) w" and "co_rounds srv = Map.empty"
    and "length (fired w) \<le> 2 ^ 32" and "rn \<in> set (runners w)" and "rn_pc rn = Mixing s batch"
    and "om_Round msg = rn_round rn"
  shows "\<exists>st. co_rounds (w_srv w) (rn_round rn) = Some st \<and> co_onions st = batch \<and>
    incomingOnion ago c msg (w_srv w) = send_to (ToConn c) (MError \<lparr>re_Round = rn_round rn,
      re_Err = ''round is closed: deadline was '' @ ago @ '' ago''\<rparr>) (w_srv w)"
proof -
  have "round_matches (w_srv w) rn"
    using co_reachable_inv [OF assms(1,2)] assms(3,4) by (auto simp: runners_inv_def)
  then show ?thesis using assms(5,6) by (auto simp: round_matches_def incomingOnion_def)
qed

text \<open>
  C25. Only guardians announce: the handler changes nothing and broadcasts nothing unless the first
  certificate of the TLS peer carries an Ed25519 key that is a guardian's in the latest
  configuration and the body decodes, and then it broadcasts that one announcement.
\<close>

theorem announcements_authenticated:
  assumes "sendAnnouncementHandler broadcast req srv = (srv', r)"
  shows "srv' = srv \<and> r \<noteq> Ok HttpOK \<or>
    (\<exists>conf key certs args. co_latestConfig srv = Some conf \<and> key \<in> set (sc_Guardians conf) \<and>
       req_TLS req = Some (Ed25519Key key # certs) \<and> decode_announcement (req_Body req) = Some args \<and>
       r = Ok HttpOK \<and> srv' = srv\<lparr>co_outbox := co_outbox srv @ [(ToAll, MAnnouncement args)]\<rparr>)"
  using assms
  by (auto simp: sendAnnouncementHandler_def send_to_def
      split: option.splits list.splits cert_key.splits if_splits)

theorem announcements_authenticated_witness:
  "\<exists>srv' args. sendAnnouncementHandler None \<lparr>req_TLS = Some [Ed25519Key [7]], req_Body = ''{}''\<rparr>
      (toy_coordinator\<lparr>co_latestConfig := Some \<lparr>sc_Guardians = [[7]], sc_Inner = None, sc_Hash = [], sc_Service = ''Convo''\<rparr>\<rparr>) =
        (srv', Ok HttpOK) \<and> co_outbox srv' = [(ToAll, MAnnouncement args)]"
proof -
  let ?srv = "toy_coordinator\<lparr>co_latestConfig := Some \<lparr>sc_Guardians = [[7]], sc_Inner = None, sc_Hash = [], sc_Service = ''Convo''\<rparr>\<rparr>"
  have dec: "decode_announcement ''{}'' = Some \<lparr>ga_Message = []\<rparr>"
    by (simp add: decode_announcement_def Let_def dec_field_def field_values_def numeral_eq_Suc)
  obtain srv' where run: "sendAnnouncementHandler None \<lparr>req_TLS = Some [Ed25519Key [7]], req_Body = ''{}''\<rparr> ?srv =
      (srv', Ok HttpOK)" using dec by (simp add: sendAnnouncementHandler_def)
  from announcements_authenticated [OF run] run show ?thesis by (auto simp: toy_coordinator_def)
qed


definition toy_mixer :: public_server_config where
  "toy_mixer = \<lparr>Key = toy_key, Address = ''a''\<rparr>"

definition toy_convo_server :: "unit server" where
  "toy_convo_server = toy_server\<lparr>Services := [''Convo'' \<mapsto> echo_service]\<rparr>"

abbreviation toy_convo_settings :: "u32 \<Rightarrow> unit round_settings" where
  "toy_convo_settings r \<equiv> empty_settings\<lparr>Service := ''Convo'', Round := r\<rparr>"

lemma toy_convo_NewRound:
  "\<exists>net' s' sigs. client_NewRound toy_env toy_enc [toy_key \<mapsto> toy_convo_server] toy_ctx [toy_mixer]
     (toy_convo_settings r) = (net', Ok (s', sigs))"
  by (simp add: client_NewRound_def Let_def toy_env_def newRound_on_def setSettings_on_def on_server_def
      empty_settings_def wrap_err_def settings_Proto_def toy_mixer_def newRound_def toy_nacl_def
      toy_convo_server_def toy_server_def toy_ctx_def psc_FromProto_def psc_Proto_def PublicKeySize_def toy_key_def
      setRoundSettings_def settings_FromProto_def keys_FromProto_id toy_public_def getRound_def put_round_def
      echo_service_def sign_settings_def new_round_state_def SigningMessage_def toy_enc_def)

definition toy_signed_config :: signed_config where
  "toy_signed_config = \<lparr>sc_Guardians = [], sc_Inner = Some (toy_config\<lparr>cfg_MixServers := [toy_mixer]\<rparr>), sc_Hash = ''h'', sc_Service = ''Convo''\<rparr>"

definition toy_ready :: "unit coordinator" where
  "toy_ready = toy_coordinator\<lparr>co_freshConfig := True, co_latestConfig := Some toy_signed_config\<rparr>"

lemma toy_announce:
  assumes "co_freshConfig srv" and "co_latestConfig srv = Some toy_signed_config"
  shows "\<exists>net' srv'. runRound_announce toy_env toy_enc toy_ctx r d [toy_key \<mapsto> toy_convo_server] srv =
    (net', srv', Ok (Some [toy_mixer]))"
  using toy_convo_NewRound [of r] assms
  by (auto simp: runRound_announce_def toy_signed_config_def Let_def)

theorem late_onions_refused_witness:
  "\<exists>(w :: unit world) (rn :: runner) st batch. rn \<in> set (runners w) \<and> rn_pc rn = Mixing toy_mixer batch \<and>
     co_rounds (w_srv w) (rn_round rn) = Some st \<and> co_onions st = batch \<and>
     incomingOnion ''1s'' 3 \<lparr>om_Round = rn_round rn, om_Onions = []\<rparr> (w_srv w) = send_to (ToConn 3)
       (MError \<lparr>re_Round = rn_round rn, re_Err = ''round is closed: deadline was '' @ ''1s'' @ '' ago''\<rparr>) (w_srv w)"
proof -
  let ?w0 = "loop_start 0 [toy_key \<mapsto> toy_convo_server] Map.empty toy_ready"
  let ?w1 = "loop_fire 0 ?w0" and ?step = "co_reachable toy_env toy_enc toy_close toy_ctx"
  have 1: "?step ?w0 ?w1"
    by (rule co_reachable.step [OF co_reachable.start co_step.fire])
      (simp_all add: loop_start_def numInFlight_def)
  have rn: "runners ?w1 = [\<lparr>rn_round = 101, rn_deadline = 1, rn_pc = Starting\<rparr>]"
    "w_net ?w1 = [toy_key \<mapsto> toy_convo_server]" "co_freshConfig (w_srv ?w1)"
    "co_latestConfig (w_srv ?w1) = Some toy_signed_config" "fired ?w1 = [101]"
    by (simp_all add: loop_fire_def loop_start_def Let_def toy_ready_def toy_coordinator_def)
  from toy_announce [OF rn(3,4), of 101 1] obtain net' srv' where
    ann: "runRound_announce toy_env toy_enc toy_ctx 101 1 (w_net ?w1) (w_srv ?w1) = (net', srv', Ok (Some [toy_mixer]))"
    using rn(2) by auto
  let ?w2 = "set_pc 0 (Sleeping [toy_mixer]) (?w1\<lparr>w_net := net', w_srv := srv'\<rparr>)"
  have 2: "?step ?w0 ?w2"
    by (rule co_reachable.step [OF 1 co_step.announce]) (use rn ann in simp_all)
  obtain srv'' batch where cl: "runRound_close 101 (w_srv ?w2) = (srv'', batch)" by fastforce
  let ?w3 = "set_pc 0 (Mixing toy_mixer batch) (?w2\<lparr>w_srv := srv''\<rparr>)"
  have 3: "?step ?w0 ?w3"
    by (rule co_reachable.step [OF 2 co_step.deadline [where now = 1]])
      (use rn cl in \<open>simp_all add: set_pc_def co_sleep_def\<close>)
  let ?rn = "\<lparr>rn_round = 101, rn_deadline = 1, rn_pc = Mixing toy_mixer batch\<rparr>"
  have in3: "?rn \<in> set (runners ?w3)" "rn_pc ?rn = Mixing toy_mixer batch" "length (fired ?w3) \<le> 2 ^ 32"
    "om_Round \<lparr>om_Round = 101, om_Onions = []\<rparr> = rn_round ?rn"
    using rn by (simp_all add: set_pc_def)
  have "co_rounds toy_ready = Map.empty" by (simp add: toy_ready_def toy_coordinator_def)
  from late_onions_refused [OF 3 this in3(3,1,2,4), of "''1s''" 3] in3(1) show ?thesis
    by (intro exI [of _ ?w3] exI [of _ ?rn]) auto
qed

text \<open>
  What the coordinator announces can be verified: the settings of a newly announced round carry
  its number, and one signature per mix server of the configuration, each of which verifies under
  that server's key for exactly these settings, when the servers have not seen the round before.
\<close>

theorem announced_signatures:
  assumes "runRound_announce E enc ctx r deadline net srv = (net', srv', Ok (Some servers))"
    and "ed25519_correct (Nacl E)"
    and "\<forall>server s. server \<in> set servers \<longrightarrow> net (Key server) = Some s \<longrightarrow>
      Ed25519Public (Nacl E) (SigningKey s) = Key server"
    and "\<forall>k s. net k = Some s \<longrightarrow> rounds s (''Convo'', r) = None"
  shows "\<exists>info. co_outbox srv' = co_outbox srv @ [(ToAll, MNewRound info)] \<and> ni_Round info = r \<and>
    ni_EndTime info = deadline \<and> Round (ni_MixSettings info) = r \<and>
    length (OnionKeys (ni_MixSettings info)) = length servers \<and>
    list_all2 (\<lambda>server sig. Ed25519Verify (Nacl E) (Key server) (SigningMessage enc (ni_MixSettings info)) sig)
      servers (ni_MixSignatures info)"
proof -
  obtain conf :: signed_config and s' sigs where new: "client_NewRound E enc net ctx servers (empty_settings\<lparr>Service := ''Convo'', Round := r\<rparr>) = (net', Ok (s', sigs))"
    and srv': "co_outbox srv' = co_outbox srv @ [(ToAll, MNewRound \<lparr>ni_Round = r, ni_ConfigHash = sc_Hash conf,
      ni_MixSettings = s', ni_MixSignatures = sigs, ni_EndTime = deadline\<rparr>)]"
    using assms(1)
    by (auto simp: runRound_announce_def Let_def send_to_def split: if_splits option.splits prod.splits outcome.splits)
  have sig: "s' = (empty_settings\<lparr>Service := ''Convo'', Round := r\<rparr>)\<lparr>OnionKeys := OnionKeys s'\<rparr> \<and>
      length (OnionKeys s') = length servers \<and>
      list_all2 (\<lambda>server sig. Ed25519Verify (Nacl E) (Key server) (SigningMessage enc s') sig) servers sigs"
    using assms(2-4) by (intro NewRound_signatures [OF new]) auto
  from arg_cong [OF conjunct1 [OF sig], of Round] have "Round s' = r" by simp
  with sig srv' show ?thesis by auto
qed

theorem announced_signatures_witness:
  "\<exists>net' srv' info. runRound_announce toy_env toy_enc toy_ctx 101 1 [toy_key \<mapsto> toy_convo_server] toy_ready =
      (net', srv', Ok (Some [toy_mixer])) \<and> co_outbox srv' = [(ToAll, MNewRound info)] \<and>
    list_all2 (\<lambda>server sig. Ed25519Verify toy_nacl (Key server) (SigningMessage toy_enc (ni_MixSettings info)) sig)
      [toy_mixer] (ni_MixSignatures info)"
proof -
  obtain net' srv' where run: "runRound_announce toy_env toy_enc toy_ctx 101 1 [toy_key \<mapsto> toy_convo_server] toy_ready =
      (net', srv', Ok (Some [toy_mixer]))"
    using toy_announce [of toy_ready 101 1] by (auto simp: toy_ready_def)
  have nacl: "Nacl toy_env = toy_nacl" and out: "co_outbox toy_ready = []"
    by (simp_all add: toy_env_def toy_ready_def toy_coordinator_def)
  have keys: "\<forall>server s. server \<in> set [toy_mixer] \<longrightarrow> [toy_key \<mapsto> toy_convo_server] (Key server) = Some s \<longrightarrow>
      Ed25519Public (Nacl toy_env) (SigningKey s) = Key server"
    "\<forall>k s. [toy_key \<mapsto> toy_convo_server] k = Some s \<longrightarrow> rounds s (''Convo'', 101) = None"
    by (auto simp: toy_env_def toy_convo_server_def toy_server_def toy_mixer_def toy_nacl_def split: if_splits)
  have "ed25519_correct (Nacl toy_env)" using toy_nacl_ok(3) nacl by simp
  from announced_signatures [OF run this keys] run show ?thesis unfolding nacl out by auto
qed

section \<open>Lemmas: the round counter on disk\<close>

lemma print_int_unat: "print_int (int n) = print_nat n"
  by (simp add: print_int_def)

lemma decode_persisted_doc: "decode_persisted (persisted_doc st) = Some (\<lparr>ps_Round = ps_Round st\<rparr>)"
proof -
  let ?v = "JObj [(''Round'', JNum (print_nat (unat (ps_Round st))))]"
  have "json_ok ?v" using print_int_unat [of "unat (ps_Round st)", symmetric] by auto
  then have "json_parse (persisted_doc st) = Some ?v"
    unfolding persisted_doc_def by (rule json_parse_indent) (simp add: is_ws_def)
  then show ?thesis by (simp add: decode_persisted_def dec_field_def field_values_def)
qed

lemma load_after_persist:
  assumes "disk (co_PersistPath srv0) = Some (persist_version # ascii (persisted_doc \<lparr>ps_Round = r\<rparr>))"
  shows "LoadPersistedState disk srv0 = (srv0\<lparr>co_round := r\<rparr>, Ok ())"
  using assms by (simp add: LoadPersistedState_def decode_persisted_doc)

lemma co_Persist_states:
  assumes "co_Persist calls disk srv = (states, r)" and "fresh_temp calls (co_PersistPath srv) disk"
  shows "states \<noteq> [] \<and>
    (\<forall>fs' \<in> set states. fs' (co_PersistPath srv) = disk (co_PersistPath srv) \<or>
       fs' (co_PersistPath srv) = Some (persist_version # ascii (persisted_doc \<lparr>ps_Round = co_round srv\<rparr>))) \<and>
    (r = Ok () \<longrightarrow> last states (co_PersistPath srv) =
       Some (persist_version # ascii (persisted_doc \<lparr>ps_Round = co_round srv\<rparr>)))"
proof -
  let ?buf = "persist_version # ascii (persisted_doc \<lparr>ps_Round = co_round srv\<rparr>)"
  obtain err where w: "WriteFileAtomic calls (co_PersistPath srv) ?buf disk = (states, err)"
    and r: "r = (case err of None \<Rightarrow> Ok () | Some e \<Rightarrow> Err (PersistError e))"
    using assms(1) by (auto simp: co_Persist_def Let_def split: prod.splits option.splits)
  from WriteFileAtomic_states [OF assms(2) w] r show ?thesis by (auto split: option.splits)
qed

text \<open>
  C23. The counter on disk: after a successful \<open>Persist\<close> a coordinator that loads the state continues
  with the very round; and if the process dies at any moment of \<open>Persist\<close>, the next one loads that
  round or what it would have loaded before.
\<close>

theorem persist_load_roundtrip:
  assumes "co_Persist calls disk srv = (states, r)" and "fresh_temp calls (co_PersistPath srv) disk"
    and "co_PersistPath srv0 = co_PersistPath srv"
  shows "(r = Ok () \<longrightarrow> LoadPersistedState (last states) srv0 = (srv0\<lparr>co_round := co_round srv\<rparr>, Ok ())) \<and>
    list_all (\<lambda>fs'. LoadPersistedState fs' srv0 = (srv0\<lparr>co_round := co_round srv\<rparr>, Ok ()) \<or>
      LoadPersistedState fs' srv0 = LoadPersistedState disk srv0) states"
proof -
  note st = co_Persist_states [OF assms(1,2)]
  have new: "LoadPersistedState fs' srv0 = (srv0\<lparr>co_round := co_round srv\<rparr>, Ok ())"
    if "fs' (co_PersistPath srv) = Some (persist_version # ascii (persisted_doc \<lparr>ps_Round = co_round srv\<rparr>))" for fs'
    using that assms(3) by (intro load_after_persist) simp
  have old: "LoadPersistedState fs' srv0 = LoadPersistedState disk srv0"
    if "fs' (co_PersistPath srv) = disk (co_PersistPath srv)" for fs'
    using that assms(3) by (simp add: LoadPersistedState_def)
  show ?thesis unfolding list_all_iff
  proof (intro conjI impI ballI)
    assume "r = Ok ()"
    with st show "LoadPersistedState (last states) srv0 = (srv0\<lparr>co_round := co_round srv\<rparr>, Ok ())" by (intro new) simp
  next
    fix fs' assume "fs' \<in> set states"
    with st have "fs' (co_PersistPath srv) = disk (co_PersistPath srv) \<or>
      fs' (co_PersistPath srv) = Some (persist_version # ascii (persisted_doc \<lparr>ps_Round = co_round srv\<rparr>))" by blast
    with new old show "LoadPersistedState fs' srv0 = (srv0\<lparr>co_round := co_round srv\<rparr>, Ok ()) \<or>
      LoadPersistedState fs' srv0 = LoadPersistedState disk srv0" by blast
  qed
qed

definition ok_calls :: os_calls where
  "ok_calls = toy_calls\<lparr>short_write := None\<rparr>"

lemma ok_calls_Persist:
  "co_Persist ok_calls disk toy_coordinator = (states, r) \<Longrightarrow> r = Ok ()"
  by (auto simp: co_Persist_def Let_def ok_calls_def toy_calls_def WriteFileAtomic_def write_temp_def
      first_err_def split: prod.splits)

lemma ok_calls_fresh: "fresh_temp ok_calls ''p'' Map.empty"
  by (simp add: fresh_temp_def ok_calls_def toy_calls_def)

theorem persist_load_roundtrip_witness:
  "\<exists>states. co_Persist ok_calls Map.empty toy_coordinator = (states, Ok ()) \<and>
     LoadPersistedState (last states) (toy_coordinator\<lparr>co_round := 9\<rparr>) = (toy_coordinator, Ok ())"
proof -
  obtain states r where run: "co_Persist ok_calls Map.empty toy_coordinator = (states, r)" by fastforce
  with ok_calls_Persist have r: "r = Ok ()" by blast
  have "fresh_temp ok_calls (co_PersistPath toy_coordinator) Map.empty"
    using ok_calls_fresh by (simp add: toy_coordinator_def)
  from persist_load_roundtrip [OF run this, of "toy_coordinator\<lparr>co_round := 9\<rparr>"] r run show ?thesis
    by (auto simp: toy_coordinator_def)
qed

lemma loop_inv_fired:
  assumes "loop_inv r0 w" and "r \<in> set (fired w)"
  shows "\<exists>i < length (fired w). r = nth_fired r0 i"
proof -
  have "set (fired w) = nth_fired r0 ` {0..<length (fired w)}"
    using assms(1) unfolding loop_inv_def by (metis set_map set_upt)
  with assms(2) show ?thesis by auto
qed



text \<open>
  The start-up skip is not written to disk: a coordinator that dies before its first \<open>Persist\<close>
  fires, after the restart, the same round numbers again, beginning with the very first one.
\<close>

theorem restart_reuses_rounds:
  assumes "LoadPersistedState disk s0 = (srv, Ok ())" and "co_rounds srv = Map.empty"
    and "co_reachable E enc close ctx (loop_start now net disk srv) w" and "fired w \<noteq> []"
    and "w_disk w = disk"
    and "LoadPersistedState (w_disk w) s1 = (srv1, Ok ())" and "co_PersistPath s1 = co_PersistPath s0"
    and "co_rounds srv1 = Map.empty"
    and "co_reachable E enc close ctx (loop_start now1 net1 disk srv1) w1" and "fired w1 \<noteq> []"
  shows "hd (fired w1) = hd (fired w)"
proof -
  have hd: "hd (fired v) = nth_fired r 0" if "loop_inv r v" "fired v \<noteq> []" for r and v :: "'a world"
    using that upt_conv_Cons [of 0 "length (fired v)"] unfolding loop_inv_def
    by (metis length_greater_0_conv list.map_disc_iff list.map_sel(1) hd_upt upt_eq_Nil_conv not_less_zero)
  have "co_round srv1 = co_round srv"
    using assms(1,5-7)
    by (auto simp: LoadPersistedState_def split: option.splits list.splits if_splits)
  moreover have "hd (fired w) = nth_fired (co_round srv + 100) 0"
    using co_reachable_inv [OF assms(3,2)] assms(4) by (intro hd) auto
  moreover have "hd (fired w1) = nth_fired (co_round srv1 + 100) 0"
    using co_reachable_inv [OF assms(9,8)] assms(10) by (intro hd) auto
  ultimately show ?thesis by simp
qed

theorem restart_reuses_rounds_witness:
  "\<exists>(w :: unit world) (w1 :: unit world) disk. LoadPersistedState disk toy_coordinator = (toy_coordinator, Ok ()) \<and>
     co_reachable toy_env toy_enc toy_close None (loop_start 0 Map.empty disk toy_coordinator) w \<and>
     fired w = [101] \<and> hd (fired w1) = hd (fired w)"
proof -
  let ?disk = "[''p'' \<mapsto> persist_version # ascii (persisted_doc \<lparr>ps_Round = 0\<rparr>)]"
  let ?w = "loop_fire 0 (toy_world ?disk)"
  have "LoadPersistedState ?disk toy_coordinator = (toy_coordinator\<lparr>co_round := 0\<rparr>, Ok ())"
    by (rule load_after_persist) (simp add: toy_coordinator_def)
  then have load: "LoadPersistedState ?disk toy_coordinator = (toy_coordinator, Ok ())"
    by (simp add: toy_coordinator_def)
  have f: "fired ?w = [101]" "w_disk ?w = ?disk" "co_rounds toy_coordinator = Map.empty"
    by (simp_all add: loop_fire_def loop_start_def Let_def toy_coordinator_def)
  have "hd (fired ?w) = hd (fired ?w)"
    by (rule restart_reuses_rounds [OF load f(3) toy_fire _ f(2) _ refl f(3) toy_fire]) (simp_all add: f load)
  with load f(1) toy_fire show ?thesis by blast
qed

end
