(* ===== verification/Convo_Service.thy ===== *)
theory Convo_Service
  imports Mix_Chain
begin

text \<open>
  The conversation service (\<open>convo/mixer.go\<close>, \<open>convo/noise.go\<close>): the messages for a dead drop, the
  last server's exchange of the messages that meet in one, its access counts, and the noise of the
  other servers. It is the service the mix servers of the system run, and it fulfils the contract
  \<open>bidirectional_service\<close>.
\<close>

section \<open>Dead drop messages\<close>

definition SizeMessageBody :: nat where
  "SizeMessageBody = 240"

definition SizeEncryptedMessageBody :: nat where
  "SizeEncryptedMessageBody = SizeMessageBody + box_Overhead"

definition sizeDeadDropMessage :: nat where
  "sizeDeadDropMessage = 16 + SizeEncryptedMessageBody"

record dead_drop_message =
  DeadDrop :: bytes
  EncryptedMessage :: bytes

definition ddm_Marshal :: "dead_drop_message \<Rightarrow> bytes" where
  "ddm_Marshal m =
     (let data = replicate sizeDeadDropMessage 0;
          data = go_copy (take 16 data) (DeadDrop m) @ drop 16 data in
      go_copy_at 16 data (EncryptedMessage m))"

definition ddm_Unmarshal :: "bytes \<Rightarrow> (mix_err, dead_drop_message) outcome" where
  "ddm_Unmarshal data =
     (if length data \<noteq> sizeDeadDropMessage then Err (ServiceError ''wrong size'')
      else Ok \<lparr>DeadDrop = go_copy (replicate 16 0) (take 16 data),
               EncryptedMessage = go_copy (replicate SizeEncryptedMessageBody 0) (drop 16 data)\<rparr>)"

section \<open>HandleMessages\<close>

record access_count =
  Singles :: int
  Doubles :: int

text \<open>
  The first loop: the positions of the first two messages of each dead drop, and the counts. A
  message shorter than a dead drop is out of range of its slice expression.
\<close>

record drop_scan =
  deadDrops :: "bytes \<Rightarrow> nat list"
  counts :: access_count

definition scan_message :: "nat \<times> bytes \<Rightarrow> drop_scan \<Rightarrow> (mix_err, drop_scan) outcome" where
  "scan_message x s =
     (case x of (i, msg) \<Rightarrow>
        if length msg < 16 then Panic SliceOutOfRange
        else
          let dest = take 16 msg; d = deadDrops s dest; c = counts s in
          if length d = 0 then
            Ok \<lparr>deadDrops = (deadDrops s)(dest := d @ [i]), counts = c\<lparr>Singles := Singles c + 1\<rparr>\<rparr>
          else if length d = 1 then
            Ok \<lparr>deadDrops = (deadDrops s)(dest := d @ [i]),
                counts = c\<lparr>Singles := Singles c - 1, Doubles := Doubles c + 1\<rparr>\<rparr>
          else Ok s)"

definition empty_scan :: drop_scan where
  "empty_scan = \<lparr>deadDrops = (\<lambda>_. []), counts = \<lparr>Singles = 0, Doubles = 0\<rparr>\<rparr>"

definition body_of :: "bytes \<Rightarrow> (mix_err, bytes) outcome" where
  "body_of msg =
     (if length msg < 16 + SizeEncryptedMessageBody then Panic SliceOutOfRange
      else Ok (slice 16 (16 + SizeEncryptedMessageBody) msg))"

text \<open>The second loop's body: the reply for message \<open>i\<close>, nil if its dead drop was never filled.\<close>

definition reply_message ::
  "bytes list \<Rightarrow> (bytes \<Rightarrow> nat list) \<Rightarrow> nat \<Rightarrow> (mix_err, bytes option) outcome" where
  "reply_message ms drops i =
     (let d = drops (take 16 (ms ! i)) in
      if length d = 1 then obind (body_of (ms ! i)) (\<lambda>b. Ok (Some b))
      else if length d = 2 then
        let other = (if i = d ! 0 then d ! 1 else d ! 0) in
        obind (body_of (ms ! other)) (\<lambda>b. Ok (Some b))
      else Ok None)"

definition convo_HandleMessages ::
  "bytes list \<Rightarrow> (mix_err, bytes option list \<times> access_count) outcome" where
  "convo_HandleMessages ms =
     obind (ofold scan_message (zip [0..<length ms] ms) empty_scan) (\<lambda>s.
     obind (omap (reply_message ms (deadDrops s)) [0..<length ms]) (\<lambda>rs.
       Ok (rs, counts s)))"

text \<open>The counts are offered to a buffered channel; if it is full they are dropped.\<close>

definition offer_counts :: "nat \<Rightarrow> access_count \<Rightarrow> access_count list \<Rightarrow> access_count list" where
  "offer_counts capacity c chan = (if length chan < capacity then chan @ [c] else chan)"

section \<open>Noise\<close>

text \<open>
  What is random: the two Laplace draws, the bytes \<open>rand.Read\<close> fills a message with, and the
  ephemeral keys inside \<open>onionbox.Seal\<close>, which is code of another module (the number of the
  message stands for its randomness).
\<close>

record convo_env =
  LaplaceSingles :: u32
  LaplaceDoubles :: u32
  RandSingle :: "nat \<Rightarrow> bytes"
  RandDouble :: "nat \<Rightarrow> bytes"
  RandBody :: "nat \<Rightarrow> bytes"
  OnionSeal :: "nat \<Rightarrow> bytes \<Rightarrow> bytes \<Rightarrow> bytes list \<Rightarrow> bytes"

text \<open>Documented size of an onion: \<open>onionbox.Overhead\<close> bytes per key.\<close>

definition onion_size :: "(nat \<Rightarrow> bytes \<Rightarrow> bytes \<Rightarrow> bytes list \<Rightarrow> bytes) \<Rightarrow> bool" where
  "onion_size seal \<longleftrightarrow>
     (\<forall>i m n ks. length (seal i m n ks) = length m + onionbox_Overhead * length ks)"

definition FillWithFakeSingles :: "convo_env \<Rightarrow> nat \<Rightarrow> bytes \<Rightarrow> bytes list \<Rightarrow> bytes list" where
  "FillWithFakeSingles C n nonce nextKeys =
     map (\<lambda>i. OnionSeal C i (go_copy (replicate sizeDeadDropMessage 0) (RandSingle C i)) nonce nextKeys) [0..<n]"

text \<open>The two messages of a pair: the second takes the dead drop of the first.\<close>

definition double_pair :: "convo_env \<Rightarrow> nat \<Rightarrow> bytes \<times> bytes" where
  "double_pair C i =
     (let msg1 = go_copy (replicate sizeDeadDropMessage 0) (RandDouble C i);
          msg2 = take 16 msg1 @ drop 16 (replicate sizeDeadDropMessage 0) in
      (msg1, go_copy_at 16 msg2 (RandBody C i)))"

text \<open>An odd last slot would keep its nil.\<close>

definition FillWithFakeDoubles ::
  "convo_env \<Rightarrow> nat \<Rightarrow> nat \<Rightarrow> bytes \<Rightarrow> bytes list \<Rightarrow> bytes list" where
  "FillWithFakeDoubles C base n nonce nextKeys =
     concat (map (\<lambda>i. case double_pair C i of (msg1, msg2) \<Rightarrow>
         [OnionSeal C (base + 2 * i) msg1 nonce nextKeys, OnionSeal C (base + 2 * i + 1) msg2 nonce nextKeys])
       [0..<n div 2]) @ replicate (n mod 2) []"

definition convo_GenerateNoise ::
  "convo_env \<Rightarrow> 'd round_settings \<Rightarrow> nat \<Rightarrow> (mix_err, bytes list) outcome" where
  "convo_GenerateNoise C s pos =
     (if \<not> pos < length (OnionKeys s) - 1 then Ok []
      else
        let nextServerKeys = drop (pos + 1) (OnionKeys s);
            nonce = ForwardNonce (Round s);
            numFakeSingles = LaplaceSingles C;
            numFakeDoubles = LaplaceDoubles C + LaplaceDoubles C mod 2;
            n = unat (numFakeSingles + numFakeDoubles) in
        if n < unat numFakeSingles then Panic SliceOutOfRange
        else Ok (FillWithFakeSingles C (unat numFakeSingles) nonce nextServerKeys @
                 FillWithFakeDoubles C (unat numFakeSingles) (n - unat numFakeSingles) nonce nextServerKeys))"

section \<open>The service\<close>

definition ConvoService :: "convo_env \<Rightarrow> 'd mix_service" where
  "ConvoService C =
     \<lparr>Bidirectional = True, SizeIncomingMessage = sizeDeadDropMessage,
      SizeReplyMessage = SizeEncryptedMessageBody,
      ParseServiceData = (\<lambda>_. Ok None),
      GenerateNoise = convo_GenerateNoise C,
      HandleMessages = (\<lambda>_ ms. obind (convo_HandleMessages ms) (\<lambda>(rs, _). Ok (HandledReplies rs)))\<rparr>"

section \<open>Lemmas: dead drop messages\<close>

lemmas convo_sizes = sizeDeadDropMessage_def SizeEncryptedMessageBody_def SizeMessageBody_def box_Overhead_def

lemma ddm_Marshal_append:
  assumes "length (DeadDrop m) = 16" and "length (EncryptedMessage m) = SizeEncryptedMessageBody"
  shows "ddm_Marshal m = DeadDrop m @ EncryptedMessage m"
  using assms by (simp add: ddm_Marshal_def Let_def go_copy_at_def convo_sizes)

text \<open>
  The wire format of a dead drop message is lossless in both directions: a message survives
  marshalling, the bytes of a message are 272 bytes long, any 272 bytes are the bytes of the
  message they unmarshal to, and anything else is an error.
\<close>

theorem dead_drop_roundtrip:
  "(length (DeadDrop m) = 16 \<and> length (EncryptedMessage m) = SizeEncryptedMessageBody \<longrightarrow>
      length (ddm_Marshal m) = 272 \<and> ddm_Unmarshal (ddm_Marshal m) = Ok m) \<and>
   (if length data = 272 then \<exists>m'. ddm_Unmarshal data = Ok m' \<and> ddm_Marshal m' = data
    else ddm_Unmarshal data = Err (ServiceError ''wrong size''))"
proof (intro conjI impI)
  assume m: "length (DeadDrop m) = 16 \<and> length (EncryptedMessage m) = SizeEncryptedMessageBody"
  then have eq: "ddm_Marshal m = DeadDrop m @ EncryptedMessage m" by (simp add: ddm_Marshal_append)
  show "length (ddm_Marshal m) = 272" unfolding eq using m by (simp add: convo_sizes)
  then show "ddm_Unmarshal (ddm_Marshal m) = Ok m"
    using m unfolding eq by (cases m) (simp add: ddm_Unmarshal_def convo_sizes)
next
  show "if length data = 272 then \<exists>m'. ddm_Unmarshal data = Ok m' \<and> ddm_Marshal m' = data
    else ddm_Unmarshal data = Err (ServiceError ''wrong size'')"
    using ddm_Marshal_append [of "\<lparr>DeadDrop = take 16 data, EncryptedMessage = drop 16 data\<rparr>"]
    by (simp add: ddm_Unmarshal_def convo_sizes)
qed

section \<open>Lemmas: the exchange\<close>

text \<open>The positions of the messages for a dead drop.\<close>

definition drop_idx :: "bytes list \<Rightarrow> bytes \<Rightarrow> nat list" where
  "drop_idx ms d = filter (\<lambda>i. take 16 (ms ! i) = d) [0..<length ms]"

lemma drop_idx_snoc:
  "drop_idx (ms @ [m]) d = drop_idx ms d @ (if take 16 m = d then [length ms] else [])"
proof -
  have "filter (\<lambda>i. take 16 ((ms @ [m]) ! i) = d) [0..<length ms] = drop_idx ms d"
    unfolding drop_idx_def by (rule filter_cong) (auto simp: nth_append)
  then show ?thesis by (simp add: drop_idx_def)
qed

lemma finite_drop_idx: "finite {d. drop_idx ms d \<noteq> []}"
proof (rule finite_subset)
  show "{d. drop_idx ms d \<noteq> []} \<subseteq> take 16 ` set ms"
    by (auto simp: drop_idx_def filter_empty_conv)
qed simp

definition drops_of :: "bytes list \<Rightarrow> (nat \<Rightarrow> bool) \<Rightarrow> nat" where
  "drops_of ms Q = card {d. drop_idx ms d \<noteq> [] \<and> Q (length (drop_idx ms d))}"

lemma drops_of_snoc:
  "int (drops_of (ms @ [m]) Q) = int (drops_of ms Q)
     - (if drop_idx ms (take 16 m) \<noteq> [] \<and> Q (length (drop_idx ms (take 16 m))) then 1 else 0)
     + (if Q (Suc (length (drop_idx ms (take 16 m)))) then 1 else 0)"
proof -
  let ?d = "take 16 m"
  let ?A = "{d. drop_idx ms d \<noteq> [] \<and> Q (length (drop_idx ms d))}"
  let ?B = "{d. drop_idx (ms @ [m]) d \<noteq> [] \<and> Q (length (drop_idx (ms @ [m]) d))}"
  have fin: "finite ?A" by (rule finite_subset [OF _ finite_drop_idx [of ms]]) auto
  have B: "?B = (?A - {?d}) \<union> (if Q (Suc (length (drop_idx ms ?d))) then {?d} else {})"
    by (auto simp: drop_idx_snoc split: if_splits)
  have "int (card (?A - {?d})) = int (card ?A) - (if ?d \<in> ?A then 1 else 0)"
    using fin card_Suc_Diff1 [of ?A ?d] by auto
  moreover have "card ?B = card (?A - {?d}) + (if Q (Suc (length (drop_idx ms ?d))) then 1 else 0)"
    unfolding B using fin card_insert_disjoint [of "?A - {?d}" ?d] by (simp del: card_Diff_insert)
  ultimately show ?thesis by (simp add: drops_of_def)
qed

definition scan_result :: "bytes list \<Rightarrow> drop_scan" where
  "scan_result ms =
     \<lparr>deadDrops = (\<lambda>d. take 2 (drop_idx ms d)),
      counts = \<lparr>Singles = int (drops_of ms (\<lambda>n. n = 1)), Doubles = int (drops_of ms (\<lambda>n. 2 \<le> n))\<rparr>\<rparr>"

lemma scan_step:
  assumes "16 \<le> length m"
  shows "scan_message (length ms, m) (scan_result ms) = Ok (scan_result (ms @ [m]))"
proof -
  let ?d = "take 16 m"
  let ?n = "length (drop_idx ms ?d)"
  have drops: "(\<lambda>d. take 2 (drop_idx (ms @ [m]) d)) =
      (if ?n < 2 then (\<lambda>d. take 2 (drop_idx ms d))(?d := drop_idx ms ?d @ [length ms])
       else (\<lambda>d. take 2 (drop_idx ms d)))"
    by (auto simp: drop_idx_snoc fun_eq_iff)
  consider "?n = 0" | "?n = 1" | "2 \<le> ?n" by linarith
  then show ?thesis
    using assms drops drops_of_snoc [of ms m "\<lambda>n. n = 1"] drops_of_snoc [of ms m "\<lambda>n. 2 \<le> n"]
    by cases (auto simp: scan_message_def scan_result_def Let_def)
qed

lemma scan_messages:
  assumes "list_all (\<lambda>m. 16 \<le> length m) ms"
  shows "ofold scan_message (zip [0..<length ms] ms) empty_scan = Ok (scan_result ms)"
  using assms
proof (induction ms rule: rev_induct)
  case Nil
  then show ?case by (simp add: empty_scan_def scan_result_def drop_idx_def drops_of_def)
next
  case (snoc m ms)
  then show ?case using scan_step [of m ms] by (simp add: ofold_append)
qed

text \<open>Whose message slot \<open>i\<close> gets.\<close>

definition partner :: "bytes list \<Rightarrow> nat \<Rightarrow> nat" where
  "partner ms i =
     (let d = drop_idx ms (take 16 (ms ! i)) in
      if length d = 1 then i else if i = d ! 0 then d ! 1 else d ! 0)"

lemma drop_idx_mem: "j \<in> set (drop_idx ms d) \<longleftrightarrow> j < length ms \<and> take 16 (ms ! j) = d"
  by (auto simp: drop_idx_def)

lemma partner_bound: "i < length ms \<Longrightarrow> partner ms i < length ms"
proof -
  assume i: "i < length ms"
  let ?d = "drop_idx ms (take 16 (ms ! i))"
  have mem: "i \<in> set ?d" using i by (simp add: drop_idx_mem)
  then have "?d \<noteq> []" by auto
  then have "?d ! 0 \<in> set ?d" "length ?d \<noteq> 1 \<Longrightarrow> ?d ! 1 \<in> set ?d"
    by (cases ?d; force)+
  then show ?thesis using i by (auto simp: partner_def Let_def drop_idx_mem)
qed

lemma HandleMessages_partner:
  assumes "list_all (\<lambda>m. length m = sizeDeadDropMessage) ms"
  shows "convo_HandleMessages ms =
    Ok (map (\<lambda>i. Some (drop 16 (ms ! partner ms i))) [0..<length ms], counts (scan_result ms))"
proof -
  have body: "body_of (ms ! j) = Ok (drop 16 (ms ! j))" if "j < length ms" for j
    using assms that by (simp add: list_all_length body_of_def slice_def convo_sizes)
  have "reply_message ms (deadDrops (scan_result ms)) i = Ok (Some (drop 16 (ms ! partner ms i)))"
    if "i \<in> set [0..<length ms]" for i
  proof -
    let ?d = "drop_idx ms (take 16 (ms ! i))"
    have "i \<in> set ?d" using that by (simp add: drop_idx_mem)
    then have "length ?d = 1 \<or> min (length ?d) 2 = 2" by (cases ?d rule: remdups_adj.cases) auto
    then show ?thesis
      using body [of "partner ms i"] partner_bound [of i ms] that
      by (auto simp: reply_message_def scan_result_def partner_def Let_def split: if_splits)
  qed
  then have "omap (reply_message ms (deadDrops (scan_result ms))) [0..<length ms] =
      Ok (map (\<lambda>i. Some (drop 16 (ms ! partner ms i))) [0..<length ms])"
    by (rule omap_Ok_map)
  moreover have "list_all (\<lambda>m. 16 \<le> length m) ms"
    using assms by (auto simp: list_all_iff convo_sizes)
  ultimately show ?thesis by (simp add: convo_HandleMessages_def scan_messages)
qed

interpretation convo: bidirectional_service "ConvoService C"
proof
  fix ms :: "bytes list" and s :: "'d round_settings"
  assume "list_all (\<lambda>m. length m = SizeIncomingMessage (ConvoService C :: 'd mix_service)) ms"
  then show "\<exists>rs. HandleMessages (ConvoService C) s ms = Ok (HandledReplies rs) \<and> length rs = length ms"
    by (simp add: ConvoService_def HandleMessages_partner)
qed (simp_all add: ConvoService_def convo_sizes)

lemma partner_two:
  assumes "i < length ms" and "j < length ms" and "i \<noteq> j" and "take 16 (ms ! i) = take 16 (ms ! j)"
    and "\<And>l. l < length ms \<Longrightarrow> take 16 (ms ! l) = take 16 (ms ! i) \<Longrightarrow> l = i \<or> l = j"
  shows "partner ms i = j"
proof -
  let ?d = "drop_idx ms (take 16 (ms ! i))"
  have "l \<in> set ?d \<longleftrightarrow> l = i \<or> l = j" for l
    using assms(1,2,4) assms(5) [of l] by (auto simp: drop_idx_mem)
  then have set: "set ?d = {i, j}" by auto
  have dist: "distinct ?d" by (simp add: drop_idx_def)
  then have "length ?d = 2" using set assms(3) distinct_card [of ?d] by simp
  then obtain a b where "?d = [a, b]" by (auto simp: length_Suc_conv numeral_2_eq_2)
  with set assms(3) show ?thesis by (auto simp: partner_def Let_def doubleton_eq_iff)
qed

text \<open>
  C12. The last server's exchange: for messages of the right size the service always replies; a
  message alone in its dead drop is returned to its sender, two messages that meet in a dead
  drop are swapped, and the access counts are the number of dead drops with one message and with
  more than one.
\<close>

theorem HandleMessages_exchange:
  assumes "list_all (\<lambda>m. length m = sizeDeadDropMessage) ms"
  shows "\<exists>rs c. convo_HandleMessages ms = Ok (rs, c) \<and> length rs = length ms \<and>
    Singles c = int (card {d. length (drop_idx ms d) = 1}) \<and>
    Doubles c = int (card {d. 2 \<le> length (drop_idx ms d)}) \<and>
    (\<forall>i < length ms. \<forall>j < length ms.
       (drop_idx ms (take 16 (ms ! i)) = [i] \<longrightarrow> rs ! i = Some (drop 16 (ms ! i))) \<and>
       (set (drop_idx ms (take 16 (ms ! i))) = {i, j} \<and> i \<noteq> j \<longrightarrow>
          rs ! i = Some (drop 16 (ms ! j)) \<and> rs ! j = Some (drop 16 (ms ! i))))"
proof -
  let ?rs = "map (\<lambda>i. Some (drop 16 (ms ! partner ms i))) [0..<length ms]"
  have pair: "?rs ! i = Some (drop 16 (ms ! j)) \<and> ?rs ! j = Some (drop 16 (ms ! i))"
    if "i < length ms" "j < length ms" "set (drop_idx ms (take 16 (ms ! i))) = {i, j}" "i \<noteq> j" for i j
  proof -
    have d: "take 16 (ms ! i) = take 16 (ms ! j)"
      using that(3) by (metis drop_idx_mem insertI1 insert_commute)
    have only: "l = i \<or> l = j" if "l < length ms" "take 16 (ms ! l) = take 16 (ms ! i)" for l
      using that \<open>set (drop_idx ms (take 16 (ms ! i))) = {i, j}\<close> by (metis drop_idx_mem insertE singletonD)
    have "partner ms i = j" using that d only by (intro partner_two) auto
    moreover have "partner ms j = i" using that d only by (intro partner_two) auto
    ultimately show ?thesis using that by simp
  qed
  have "counts (scan_result ms) = \<lparr>Singles = int (card {d. length (drop_idx ms d) = 1}),
      Doubles = int (card {d. 2 \<le> length (drop_idx ms d)})\<rparr>"
    by (simp add: scan_result_def drops_of_def)
      (intro conjI arg_cong [of _ _ card] Collect_cong; auto)
  then show ?thesis
    using pair by (auto simp: HandleMessages_partner [OF assms] partner_def Let_def)
qed

section \<open>Lemmas: noise\<close>

lemma double_pair_msgs:
  assumes "double_pair C i = (m1, m2)"
  shows "length m1 = sizeDeadDropMessage" "length m2 = sizeDeadDropMessage" "take 16 m1 = take 16 m2"
  using assms by (auto simp: double_pair_def Let_def go_copy_at_def convo_sizes)

lemma length_concat_pairs: "length (concat (map (\<lambda>i. case g i of (a, b) \<Rightarrow> [f i a, h i b]) xs)) = 2 * length xs"
  by (induction xs) (auto split: prod.splits)

lemma concat_pairs_nth:
  assumes "i < n" and "\<And>i. length (f i) = 2"
  shows "concat (map f [0..<n]) ! (2 * i) = f i ! 0 \<and> concat (map f [0..<n]) ! (2 * i + 1) = f i ! 1"
proof -
  have len: "length (concat (map f [0..<k])) = 2 * k" for k by (induction k) (simp_all add: assms(2))
  have "[0..<n] = [0..<i] @ i # [Suc i..<n]"
    using assms(1) upt_add_eq_append [of 0 i "n - i"] by (simp add: upt_conv_Cons)
  then have "concat (map f [0..<n]) = concat (map f [0..<i]) @ f i @ concat (map f [Suc i..<n])" by simp
  then show ?thesis using len [of i] assms(2) [of i] by (simp add: nth_append)
qed

lemma FillWithFakeDoubles_size:
  assumes "onion_size (OnionSeal C)" and "even n"
  shows "length (FillWithFakeDoubles C b n nonce ks) = n"
    and "list_all (\<lambda>x. length x = sizeDeadDropMessage + onionbox_Overhead * length ks)
           (FillWithFakeDoubles C b n nonce ks)"
proof -
  have "n mod 2 = 0" using assms(2) by presburger
  then show "length (FillWithFakeDoubles C b n nonce ks) = n"
    using assms(2) by (simp add: FillWithFakeDoubles_def length_concat_pairs)
  have "length x = sizeDeadDropMessage + onionbox_Overhead * length ks"
    if "x \<in> set (FillWithFakeDoubles C b n nonce ks)" for x
  proof -
    have "length (fst (double_pair C i)) = sizeDeadDropMessage"
      "length (snd (double_pair C i)) = sizeDeadDropMessage" for i
      by (rule double_pair_msgs [OF prod.collapse [symmetric]])+
    with that \<open>n mod 2 = 0\<close> assms(1) show ?thesis
      by (auto simp: FillWithFakeDoubles_def onion_size_def case_prod_unfold)
  qed
  then show "list_all (\<lambda>x. length x = sizeDeadDropMessage + onionbox_Overhead * length ks)
      (FillWithFakeDoubles C b n nonce ks)" by (simp add: list_all_iff)
qed

lemma even_doubles: "even (unat (x + x mod 2 :: u32))"
proof -
  have "unat (x + x mod 2) = (unat x + unat x mod 2) mod 2 ^ 32"
    by (simp add: unat_word_ariths unat_mod)
  moreover have "even (unat x + unat x mod 2)" by presburger
  ultimately show ?thesis by (simp add: dvd_mod_iff)
qed

text \<open>
  Noise: a server that is not the last adds exactly the drawn number of single messages and
  an even number of double messages, every one of them an onion of the size the next server
  accepts, and the messages of each pair are for the same dead drop; the last server adds none.
\<close>

theorem GenerateNoise_shape:
  assumes "onion_size (OnionSeal C)"
    and "unat (LaplaceSingles C) + unat (LaplaceDoubles C + LaplaceDoubles C mod 2) < 2 ^ 32"
  shows "\<exists>ns. convo_GenerateNoise C s pos = Ok ns \<and>
    (if pos + 1 < length (OnionKeys s)
     then length ns = unat (LaplaceSingles C) + unat (LaplaceDoubles C + LaplaceDoubles C mod 2) \<and>
       even (unat (LaplaceDoubles C + LaplaceDoubles C mod 2)) \<and>
       list_all (\<lambda>x. length x = sizeDeadDropMessage + onionbox_Overhead * (length (OnionKeys s) - (pos + 1))) ns \<and>
       (\<forall>i < unat (LaplaceDoubles C + LaplaceDoubles C mod 2) div 2.
          \<exists>m1 m2. ns ! (unat (LaplaceSingles C) + 2 * i) =
              OnionSeal C (unat (LaplaceSingles C) + 2 * i) m1 (ForwardNonce (Round s)) (drop (pos + 1) (OnionKeys s)) \<and>
            ns ! (unat (LaplaceSingles C) + 2 * i + 1) =
              OnionSeal C (unat (LaplaceSingles C) + 2 * i + 1) m2 (ForwardNonce (Round s)) (drop (pos + 1) (OnionKeys s)) \<and>
            take 16 m1 = take 16 m2)
     else ns = [])"
proof (cases "pos + 1 < length (OnionKeys s)")
  case True
  let ?s = "LaplaceSingles C" and ?d = "LaplaceDoubles C + LaplaceDoubles C mod 2"
  let ?ks = "drop (pos + 1) (OnionKeys s)" and ?n = "ForwardNonce (Round s)"
  let ?D = "FillWithFakeDoubles C (unat ?s) (unat ?d) ?n ?ks"
  have sum: "unat (?s + ?d) = unat ?s + unat ?d" using assms(2) by (rule unat_add_exact)
  have ns: "convo_GenerateNoise C s pos = Ok (FillWithFakeSingles C (unat ?s) ?n ?ks @ ?D)"
    using True sum less_diff_conv [of pos "length (OnionKeys s)" 1]
    by (simp add: convo_GenerateNoise_def Let_def)
  have "\<exists>m1 m2. ?D ! (2 * i) = OnionSeal C (unat ?s + 2 * i) m1 ?n ?ks \<and>
      ?D ! (2 * i + 1) = OnionSeal C (unat ?s + 2 * i + 1) m2 ?n ?ks \<and> take 16 m1 = take 16 m2"
    if i: "i < unat ?d div 2" for i
  proof -
    obtain m1 m2 where pair: "double_pair C i = (m1, m2)" by fastforce
    then have "take 16 m1 = take 16 m2" by (rule double_pair_msgs)
    with concat_pairs_nth [OF i, of "\<lambda>i. case double_pair C i of (msg1, msg2) \<Rightarrow>
         [OnionSeal C (unat ?s + 2 * i) msg1 ?n ?ks, OnionSeal C (unat ?s + 2 * i + 1) msg2 ?n ?ks]"] i pair
    show ?thesis
      by (intro exI [of _ m1] exI [of _ m2])
        (simp add: FillWithFakeDoubles_def nth_append length_concat_pairs split: prod.splits)
  qed
  then show ?thesis
    using True assms(1) ns even_doubles [of "LaplaceDoubles C"] FillWithFakeDoubles_size [OF assms(1) even_doubles]
    by (auto simp: FillWithFakeSingles_def list_all_iff onion_size_def nth_append)
next
  case False
  then have "\<not> pos < length (OnionKeys s) - 1" by linarith
  with False show ?thesis by (simp add: convo_GenerateNoise_def)
qed

section \<open>Lemmas: the service at the end of a chain\<close>

lemma served_convo:
  "list_all (\<lambda>m. length m = sizeDeadDropMessage) ms \<Longrightarrow>
   served (ConvoService C) s ms = map (\<lambda>i. Some (drop 16 (ms ! partner ms i))) [0..<length ms]"
  by (simp add: served_def ConvoService_def HandleMessages_partner)

lemma ConvoService_sizes [simp]:
  "SizeIncomingMessage (ConvoService C) = sizeDeadDropMessage"
  "SizeReplyMessage (ConvoService C) = SizeEncryptedMessageBody"
  by (simp_all add: ConvoService_def)

lemma hop_valid_last:
  assumes "box_length (Nacl E)" and "ready_round svc ch p st" and "Suc p = length ch"
  shows "list_all (\<lambda>m. length m = SizeIncomingMessage svc) (hop_valid E r st onions)"
    and "distinct (hop_valid E r st onions)"
proof -
  show "distinct (hop_valid E r st onions)"
    unfolding hop_valid_def using distinct_kept distinct_map by blast
  have "length m = SizeIncomingMessage svc" if "m \<in> set (hop_valid E r st onions)" for m
  proof -
    have "Some m \<in> set (map (hop_msg (Nacl E) r st) onions)"
      using that unfolding hop_valid_def by (rule set_kept)
    then obtain x where "hop_msg (Nacl E) r st x = Some m" by (auto dest: sym)
    moreover have "length ch - p = 1" using assms(3) by simp
    ultimately show ?thesis
      using hop_msg_length(1) [OF assms(1), of st r x m] assms(2)
      by (auto simp: ready_round_def onionbox_Overhead_def)
  qed
  then show "list_all (\<lambda>m. length m = SizeIncomingMessage svc) (hop_valid E r st onions)"
    by (simp add: list_all_iff)
qed

lemma chain_batch_sizes:
  assumes "box_length (Nacl E)" and "ready_hops E net svc service r ch p hops" and "hops \<noteq> []"
  shows "list_all (\<lambda>m. length m = SizeIncomingMessage svc) (chain_batch E r hops onions)"
    and "distinct (chain_batch E r hops onions)"
  using assms(2,3)
proof (induction hops arbitrary: p onions)
  case (Cons h hs)
  obtain k st where h: "h = (k, st)" by (cases h)
  {
    case 1
    then show ?case
      using Cons.IH(1) [of "Suc p"] hop_valid_last(1) [OF assms(1), of svc ch p st] h by (cases "hs = []") (auto simp: Let_def)
  next
    case 2
    then show ?case
      using Cons.IH(2) [of "Suc p"] hop_valid_last(2) [OF assms(1), of svc ch p st] h by (cases "hs = []") (auto simp: Let_def)
  }
qed simp_all

text \<open>A surviving onion gets the body of the message its dead drop's partner sent.\<close>

lemma slot_gets_partner:
  assumes env: "box_roundtrip (Nacl E)" "box_length (Nacl E)" "shuffle_ok (NewShuffler E)"
    and "ready_hops E net (ConvoService C) service r ch p hops" and "hops \<noteq> []"
    and "i < length onions" and "survives E r hops onions i"
    and "onion_path (Nacl E) r hops (onions ! i) = Some (ks, m)"
  obtains pos where "pos < length (chain_batch E r hops onions)" "chain_batch E r hops onions ! pos = m"
    and "unwrap (Nacl E) r ks (chain_replies E (ConvoService C) r hops onions ! i) =
      Some (drop 16 (chain_batch E r hops onions ! partner (chain_batch E r hops onions) pos))"
proof -
  let ?b = "chain_batch E r hops onions"
  have size: "list_all (\<lambda>m. length m = sizeDeadDropMessage) ?b"
    using chain_batch_sizes(1) [OF env(2) assms(4,5)] by simp
  from chain_reply_unwraps [OF env assms(4-7)] assms(8) obtain pos where pos: "pos < length ?b" "?b ! pos = m"
    and un: "\<And>rep. served (ConvoService C) (settings (snd (last hops))) ?b ! pos = Some rep \<Longrightarrow>
       length rep = SizeReplyMessage (ConvoService C) \<Longrightarrow>
       unwrap (Nacl E) r ks (chain_replies E (ConvoService C) r hops onions ! i) = Some rep" by auto
  have "length (drop 16 (?b ! partner ?b pos)) = SizeEncryptedMessageBody"
    using size partner_bound [OF pos(1)] by (simp add: list_all_length convo_sizes)
  then have "unwrap (Nacl E) r ks (chain_replies E (ConvoService C) r hops onions ! i) =
      Some (drop 16 (?b ! partner ?b pos))"
    using pos(1) by (intro un) (simp_all add: served_convo [OF size])
  with pos that show thesis by blast
qed

section \<open>Witnesses\<close>

definition meet_env :: convo_env where
  "meet_env = \<lparr>LaplaceSingles = 1, LaplaceDoubles = 1, RandSingle = (\<lambda>_. []), RandDouble = (\<lambda>_. []),
     RandBody = (\<lambda>_. []), OnionSeal = (\<lambda>_ m _ ks. replicate (48 * length ks) 0 @ m)\<rparr>"

definition meet_round :: "unit round_state" where
  "meet_round = (new_round_state (ConvoService meet_env) [\<lparr>Key = toy_key, Address = ''a''\<rparr>] 0
     toy_public toy_private)\<lparr>noiseDone := Some True\<rparr>"

definition meet_server :: "unit server" where
  "meet_server = toy_server\<lparr>Services := [''Convo'' \<mapsto> ConvoService meet_env],
     rounds := [(''Convo'', 7) \<mapsto> meet_round]\<rparr>"

definition meet_msg :: "byte \<Rightarrow> bytes" where
  "meet_msg b = replicate 16 5 @ replicate 256 b"

definition meet_onion :: "byte \<Rightarrow> bytes" where
  "meet_onion b = replicate 32 4 @ replicate 16 7 @ meet_msg b"

lemma toy_shuffle_ok: "shuffle_ok (NewShuffler toy_env)"
proof -
  have "bij_betw (\<lambda>i. n - Suc i) {..<n} {..<n}" for n :: nat
    by (rule bij_betw_byWitness [where f' = "\<lambda>i. n - Suc i"]) auto
  moreover have "map (\<lambda>i. xs ! (n - Suc i)) [0..<n] = rev xs" if "length xs = n" for xs :: "bytes option list" and n
    using that by (intro nth_equalityI) (auto simp: rev_nth)
  ultimately show ?thesis
    unfolding shuffle_ok_def toy_env_def by (intro allI) (rule exI [of _ "\<lambda>i. n - Suc i" for n], auto)
qed

lemma meet_hop:
  "hop_msg toy_nacl 7 meet_round (meet_onion b) = Some (meet_msg b)"
  "slot_key toy_nacl meet_round (meet_onion b) = replicate 32 7"
proof -
  show key: "slot_key toy_nacl meet_round (meet_onion b) = replicate 32 7"
    by (simp add: slot_key_def toy_nacl_def meet_onion_def meet_round_def new_round_state_def toy_private_def)
  have "right_size meet_round (meet_onion b)" "bidirectional meet_round"
    by (simp_all add: right_size_def meet_onion_def meet_msg_def meet_round_def new_round_state_def
        onionbox_Overhead_def convo_sizes ConvoService_def)
  then show "hop_msg toy_nacl 7 meet_round (meet_onion b) = Some (meet_msg b)"
    unfolding hop_msg_def slot_msg_def key by (simp add: toy_nacl_def toy_tag_def meet_onion_def)
qed

lemma meet_tail: "tail8 (meet_msg b) = replicate 8 b"
  by (simp add: tail8_def meet_msg_def)

lemma meet_kept: "hop_valid toy_env 7 meet_round [meet_onion 1, meet_onion 2] = [meet_msg 1, meet_msg 2]"
  by (simp add: hop_valid_def meet_hop toy_env_def meet_tail)

theorem dead_drop_roundtrip_witness:
  "ddm_Unmarshal (ddm_Marshal \<lparr>DeadDrop = replicate 16 5, EncryptedMessage = replicate 256 1\<rparr>) =
   Ok \<lparr>DeadDrop = replicate 16 5, EncryptedMessage = replicate 256 1\<rparr>"
  using dead_drop_roundtrip [of "\<lparr>DeadDrop = replicate 16 5, EncryptedMessage = replicate 256 1\<rparr>"]
  by (simp add: convo_sizes)

theorem HandleMessages_exchange_witness:
  "\<exists>rs c. convo_HandleMessages [meet_msg 1, meet_msg 2] = Ok (rs, c) \<and>
     rs ! 0 = Some (replicate 256 2) \<and> rs ! 1 = Some (replicate 256 1)"
proof -
  have "list_all (\<lambda>m. length m = sizeDeadDropMessage) [meet_msg 1, meet_msg 2]"
    by (simp add: meet_msg_def convo_sizes)
  from HandleMessages_exchange [OF this] obtain rs c where
    h: "convo_HandleMessages [meet_msg 1, meet_msg 2] = Ok (rs, c)"
    and ex: "\<forall>i < length [meet_msg 1, meet_msg 2]. \<forall>j < length [meet_msg 1, meet_msg 2].
       (drop_idx [meet_msg 1, meet_msg 2] (take 16 ([meet_msg 1, meet_msg 2] ! i)) = [i] \<longrightarrow>
          rs ! i = Some (drop 16 ([meet_msg 1, meet_msg 2] ! i))) \<and>
       (set (drop_idx [meet_msg 1, meet_msg 2] (take 16 ([meet_msg 1, meet_msg 2] ! i))) = {i, j} \<and> i \<noteq> j \<longrightarrow>
          rs ! i = Some (drop 16 ([meet_msg 1, meet_msg 2] ! j)) \<and>
          rs ! j = Some (drop 16 ([meet_msg 1, meet_msg 2] ! i)))" by blast
  have "set (drop_idx [meet_msg 1, meet_msg 2] (take 16 (meet_msg 1))) = {0, 1}"
    by (simp add: drop_idx_def meet_msg_def)
  with ex [rule_format, of 0 1] h show ?thesis by (auto simp: meet_msg_def)
qed

theorem GenerateNoise_shape_witness:
  "\<exists>ns. convo_GenerateNoise meet_env (empty_settings\<lparr>OnionKeys := [toy_key, toy_key]\<rparr>) 0 = Ok ns \<and>
     length ns = 3 \<and> list_all (\<lambda>x. length x = 320) ns"
proof -
  have "onion_size (OnionSeal meet_env)"
    by (simp add: onion_size_def meet_env_def onionbox_Overhead_def)
  then show ?thesis
    using GenerateNoise_shape [of meet_env "empty_settings\<lparr>OnionKeys := [toy_key, toy_key]\<rparr>" 0]
    by (auto simp: meet_env_def convo_sizes onionbox_Overhead_def)
qed

end
