(* ===== verification/Convo_Client.thy ===== *)
theory Convo_Client
  imports Coordinator Convo_Service
begin

text \<open>
  The conversation client (\<open>client.go\<close>, \<open>persist.go\<close>): the connection to the coordinator, the rounds
  it takes part in, the onions it sends and the replies it opens, and its persisted configuration.
  What it does for the user is behind the interface \<open>ConvoHandler\<close>; the onion box, the configuration
  server and the clock are inputs.
\<close>

section \<open>Interfaces\<close>

datatype client_err =
    NoConvoHandler | FetchingLatestConfig | DialingCoordinator | NotConnectedToConvo
  | CoordinatorSays u32 string | SkippingRound u32 | SkippingRunRound u32 | DifferentConfigs u32 | FetchingConfig
  | BadMixnetSettings u32 bytes | AbandoningRound u32 | RoundNotConfigured u32 | NoOnionKeys u32
  | WrongOnionCount u32 nat nat | MalformedOnion u32 nat nat | DecryptOnionFailed u32
  | ClientReadError | ClientJsonError | InvalidStartingConfig | UnexpectedInnerConfig
  | ClientPersistError os_err

text \<open>
  \<open>ConvoHandler\<close> over the state \<open>'h\<close> of whoever implements it. A reply that could not be opened is a
  nil slice, \<open>None\<close>.
\<close>

record 'h convo_handler =
  hd_Outgoing :: "u32 \<Rightarrow> 'h \<Rightarrow> (unit, 'h \<times> dead_drop_message list) outcome"
  hd_Replies :: "u32 \<Rightarrow> bytes option list \<Rightarrow> 'h \<Rightarrow> (unit, 'h) outcome"
  hd_NewConfig :: "signed_config list \<Rightarrow> 'h \<Rightarrow> (unit, 'h) outcome"
  hd_Error :: "client_err \<Rightarrow> 'h \<Rightarrow> 'h"
  hd_DebugError :: "client_err \<Rightarrow> 'h \<Rightarrow> 'h"
  hd_GlobalAnnouncement :: "string \<Rightarrow> 'h \<Rightarrow> 'h"

text \<open>
  \<open>onionbox.Seal\<close> returns the onion and the keys shared with the servers; the number names the
  ephemeral keys it draws. \<open>onionbox.Open\<close> takes the layers of a reply off.
\<close>

record onionbox =
  OB_Seal :: "nat \<Rightarrow> bytes \<Rightarrow> bytes \<Rightarrow> bytes list \<Rightarrow> bytes \<times> bytes list"
  OB_Open :: "bytes \<Rightarrow> bytes \<Rightarrow> bytes list \<Rightarrow> bytes option"

section \<open>State\<close>

record client_round =
  cr_Config :: ConvoConfig
  cr_ConfigParent :: signed_config
  cr_OnionKeys :: "bytes list list option"

text \<open>\<open>cl_rounds\<close> is \<open>None\<close> for the nil map before the first \<open>ConnectConvo\<close>.\<close>

record 'h convo_client =
  cl_PersistPath :: string
  cl_CoordinatorLatency :: int
  cl_handler :: 'h
  cl_rounds :: "(u32 \<rightharpoonup> client_round) option"
  cl_conn :: "conn option"
  cl_latestRound :: u32
  cl_convoConfig :: "signed_config option"
  cl_convoConfigHash :: string

definition notify :: "('h \<Rightarrow> 'h) \<Rightarrow> 'h convo_client \<Rightarrow> 'h convo_client" where
  "notify f c = c\<lparr>cl_handler := f (cl_handler c)\<rparr>"

definition client_round_of :: "'h convo_client \<Rightarrow> u32 \<Rightarrow> client_round option" where
  "client_round_of c r = (case cl_rounds c of None \<Rightarrow> None | Some m \<Rightarrow> m r)"

section \<open>Connection\<close>

text \<open>
  \<open>fetched\<close> is the configuration \<open>CurrentConfig\<close> returns, \<open>dialed\<close> the connection, if the calls succeed.
\<close>

definition ConnectConvo ::
  "'h convo_handler option \<Rightarrow> signed_config option \<Rightarrow> conn option \<Rightarrow> 'h convo_client \<Rightarrow>
   'h convo_client \<times> (client_err, unit) outcome" where
  "ConnectConvo H fetched dialed c =
     (if H = None then (c, Err NoConvoHandler)
      else
        let c = (if cl_rounds c = None then c\<lparr>cl_rounds := Some Map.empty\<rparr> else c) in
        case fetched of
          None \<Rightarrow> (c, Err FetchingLatestConfig)
        | Some conf \<Rightarrow>
            (case sc_Inner conf of
               None \<Rightarrow> (c, Panic FailedTypeAssertion)
             | Some inner \<Rightarrow>
                 (case dialed of
                    None \<Rightarrow> (c, Err DialingCoordinator)
                  | Some conn \<Rightarrow>
                      (c\<lparr>cl_conn := Some conn, cl_convoConfig := Some conf, cl_convoConfigHash := sc_Hash conf\<rparr>, Ok ()))))"

text \<open>The goroutine that serves the connection, when it ends.\<close>

definition convo_disconnected :: "'h convo_client \<Rightarrow> 'h convo_client" where
  "convo_disconnected c = c\<lparr>cl_conn := None\<rparr>"

definition CloseConvo :: "'h convo_client \<Rightarrow> 'h convo_client \<times> conn option" where
  "CloseConvo c = (case cl_conn c of None \<Rightarrow> (c, None) | Some conn \<Rightarrow> (c\<lparr>cl_conn := None\<rparr>, Some conn))"

definition LatestRound :: "'h convo_client \<Rightarrow> (client_err, u32) outcome" where
  "LatestRound c = (if cl_conn c = None then Err NotConnectedToConvo else Ok (cl_latestRound c))"

definition setLatestRound :: "u32 \<Rightarrow> 'h convo_client \<Rightarrow> 'h convo_client" where
  "setLatestRound round c = (if round > cl_latestRound c then c\<lparr>cl_latestRound := round\<rparr> else c)"

section \<open>Persistence\<close>

text \<open>The JSON of the persisted state holds a signed configuration, whose codec is another module's.\<close>

record state_codec =
  MarshalState :: "signed_config option \<Rightarrow> bytes"
  UnmarshalState :: "bytes \<Rightarrow> signed_config option option"

definition persistLocked ::
  "state_codec \<Rightarrow> os_calls \<Rightarrow> fs \<Rightarrow> 'h convo_client \<Rightarrow> fs list \<times> (client_err, unit) outcome" where
  "persistLocked J calls disk c =
     (case WriteFileAtomic calls (cl_PersistPath c) (MarshalState J (cl_convoConfig c)) disk of
        (states, None) \<Rightarrow> (states, Ok ())
      | (states, Some e) \<Rightarrow> (states, Err (ClientPersistError e)))"

definition cl_Persist ::
  "state_codec \<Rightarrow> os_calls \<Rightarrow> fs \<Rightarrow> 'h convo_client \<Rightarrow> fs list \<times> (client_err, unit) outcome" where
  "cl_Persist J calls disk c = persistLocked J calls disk c"

definition loadStateLocked ::
  "signed_config option \<Rightarrow> 'h convo_client \<Rightarrow> (client_err, 'h convo_client) outcome" where
  "loadStateLocked st c =
     (case st of
        None \<Rightarrow> Panic NilDereference
      | Some conf \<Rightarrow> Ok (c\<lparr>cl_convoConfig := Some conf, cl_convoConfigHash := sc_Hash conf\<rparr>))"

definition new_client :: "'h \<Rightarrow> string \<Rightarrow> 'h convo_client" where
  "new_client h path =
     \<lparr>cl_PersistPath = path, cl_CoordinatorLatency = 0, cl_handler = h, cl_rounds = None, cl_conn = None,
      cl_latestRound = 0, cl_convoConfig = None, cl_convoConfigHash = []\<rparr>"

definition LoadClient ::
  "state_codec \<Rightarrow> fs \<Rightarrow> 'h \<Rightarrow> string \<Rightarrow> (client_err, 'h convo_client) outcome" where
  "LoadClient J disk h path =
     (case disk path of
        None \<Rightarrow> Err ClientReadError
      | Some data \<Rightarrow>
          (case UnmarshalState J data of
             None \<Rightarrow> Err ClientJsonError
           | Some st \<Rightarrow> loadStateLocked st (new_client h path)))"

text \<open>\<open>valid\<close> is the verdict of the configuration's own \<open>Validate\<close>.\<close>

definition Bootstrap ::
  "bool \<Rightarrow> signed_config \<Rightarrow> 'h convo_client \<Rightarrow> 'h convo_client \<times> (client_err, unit) outcome" where
  "Bootstrap valid conf c =
     (if \<not> valid then (c, Err InvalidStartingConfig)
      else if sc_Inner conf = None then (c, Err UnexpectedInnerConfig)
      else (c\<lparr>cl_convoConfig := Some conf, cl_convoConfigHash := sc_Hash conf\<rparr>, Ok ()))"

section \<open>Messages of the coordinator\<close>

text \<open>\<open>strings.Contains\<close>.\<close>

fun Contains :: "string \<Rightarrow> string \<Rightarrow> bool" where
  "Contains sub [] \<longleftrightarrow> sub = []"
| "Contains sub (c # s) \<longleftrightarrow> take (length sub) (c # s) = sub \<or> Contains sub s"

definition globalAnnouncement ::
  "'h convo_handler \<Rightarrow> global_announcement \<Rightarrow> 'h convo_client \<Rightarrow> 'h convo_client" where
  "globalAnnouncement H v c = notify (hd_GlobalAnnouncement H (ga_Message v)) c"

definition convoRoundError :: "'h convo_handler \<Rightarrow> round_error \<Rightarrow> 'h convo_client \<Rightarrow> 'h convo_client" where
  "convoRoundError H v c =
     (if Contains ''round is closed:'' (re_Err v) \<or> Contains ''round not found'' (re_Err v)
      then notify (hd_DebugError H (CoordinatorSays (re_Round v) (re_Err v))) c
      else notify (hd_Error H (CoordinatorSays (re_Round v) (re_Err v))) c)"

subsection \<open>New rounds\<close>

text \<open>
  The configuration of an announced round: the current one, or the head of the chain the
  configuration server returns (\<open>fetched\<close>, \<open>None\<close> if the fetch fails), which is then persisted.
\<close>

definition round_config ::
  "'h convo_handler \<Rightarrow> signed_config list option \<Rightarrow> (client_err, unit) outcome \<Rightarrow> string \<Rightarrow> 'h convo_client \<Rightarrow>
   (unit, 'h convo_client \<times> signed_config option) outcome" where
  "round_config H fetched persisted hash c =
     (if hash = cl_convoConfigHash c then
        (case cl_convoConfig c of None \<Rightarrow> Panic NilDereference | Some conf \<Rightarrow> Ok (c, Some conf))
      else if cl_convoConfig c = None then Panic NilDereference
      else case fetched of
        None \<Rightarrow> Ok (notify (hd_Error H FetchingConfig) c, None)
      | Some configs \<Rightarrow>
          obind (hd_NewConfig H configs (cl_handler c)) (\<lambda>h.
            case configs of
              [] \<Rightarrow> Panic IndexOutOfRange
            | newConfig # _ \<Rightarrow>
                if persisted \<noteq> Ok () then Panic ExplicitPanic
                else Ok (c\<lparr>cl_handler := h, cl_convoConfig := Some newConfig, cl_convoConfigHash := hash\<rparr>,
                         Some newConfig)))"

text \<open>
  The handler of \<open>newround\<close> under the client's lock. The result tells whether the goroutine of the
  round is started. \<open>left\<close> is the time until the round's end, in nanoseconds.
\<close>

definition newConvoRound ::
  "'h convo_handler \<Rightarrow> signed_config list option \<Rightarrow> (client_err, unit) outcome \<Rightarrow> int \<Rightarrow> 'd new_round \<Rightarrow>
   'h convo_client \<Rightarrow> (unit, 'h convo_client \<times> client_round option) outcome" where
  "newConvoRound H fetched persisted left v c0 =
     (let c = setLatestRound (ni_Round v) c0 in
      if left < 20000000 then Ok (notify (hd_DebugError H (SkippingRound (ni_Round v))) c, None)
      else case client_round_of c (ni_Round v) of
        Some st \<Rightarrow>
          Ok (if sc_Hash (cr_ConfigParent st) \<noteq> ni_ConfigHash v
              then notify (hd_Error H (DifferentConfigs (ni_Round v))) c else c, None)
      | None \<Rightarrow>
          obind (round_config H fetched persisted (ni_ConfigHash v) c) (\<lambda>(c1, conf).
            case conf of
              None \<Rightarrow> Ok (c1, None)
            | Some conf \<Rightarrow>
                (case sc_Inner conf of
                   None \<Rightarrow> Panic FailedTypeAssertion
                 | Some inner \<Rightarrow>
                     (let st = \<lparr>cr_Config = inner, cr_ConfigParent = conf, cr_OnionKeys = None\<rparr> in
                      case cl_rounds c1 of
                        None \<Rightarrow> Panic NilDereference
                      | Some m \<Rightarrow> Ok (c1\<lparr>cl_rounds := Some (m(ni_Round v \<mapsto> st))\<rparr>, Some st)))))"

text \<open>
  The loop that checks the mixers' signatures of the settings: \<open>Err\<close> names the first key whose
  signature fails. \<open>ed25519.Verify\<close> panics on a key of the wrong size.
\<close>

fun verify_mixers ::
  "nacl \<Rightarrow> bytes \<Rightarrow> public_server_config list \<Rightarrow> bytes list \<Rightarrow> (bytes, unit) outcome" where
  "verify_mixers P msg [] sigs = Ok ()"
| "verify_mixers P msg (mixer # mixers) [] = Panic IndexOutOfRange"
| "verify_mixers P msg (mixer # mixers) (sig # sigs) =
     (if length (Key mixer) \<noteq> PublicKeySize then Panic ExplicitPanic
      else if Ed25519Verify P (Key mixer) msg sig then verify_mixers P msg mixers sigs
      else Err (Key mixer))"

definition seal_messages ::
  "onionbox \<Rightarrow> u32 \<Rightarrow> bytes list \<Rightarrow> dead_drop_message list \<Rightarrow> (bytes \<times> bytes list) list" where
  "seal_messages X round keys outgoing =
     map (\<lambda>(i, m). OB_Seal X i (ddm_Marshal m) (ForwardNonce round) keys) (zip [0..<length outgoing] outgoing)"

definition set_onion_keys :: "u32 \<Rightarrow> bytes list list \<Rightarrow> 'h convo_client \<Rightarrow> 'h convo_client" where
  "set_onion_keys round keys c =
     (case client_round_of c round of
        None \<Rightarrow> c
      | Some st \<Rightarrow> c\<lparr>cl_rounds := Some ((the (cl_rounds c))(round \<mapsto> st\<lparr>cr_OnionKeys := Some keys\<rparr>))\<rparr>)"

text \<open>
  The goroutine of a round: \<open>left1\<close> is the time left when the signatures are checked, \<open>left2\<close> when
  the onions are ready. The result carries the message sent to the coordinator, if any.
\<close>

definition client_runRound ::
  "nacl \<Rightarrow> settings_encoder \<Rightarrow> onionbox \<Rightarrow> 'h convo_handler \<Rightarrow> int \<Rightarrow> int \<Rightarrow> client_round \<Rightarrow> 'd new_round \<Rightarrow>
   'h convo_client \<Rightarrow> (unit, 'h convo_client \<times> onion_msg option) outcome" where
  "client_runRound P enc X H left1 left2 st v c =
     (let round = ni_Round v in
      case verify_mixers P (SigningMessage enc (ni_MixSettings v)) (cfg_MixServers (cr_Config st)) (ni_MixSignatures v) of
        Err key \<Rightarrow> Ok (notify (hd_Error H (BadMixnetSettings round key)) c, None)
      | Panic p \<Rightarrow> Panic p
      | Hang \<Rightarrow> Hang
      | Ok _ \<Rightarrow>
          if left1 < cl_CoordinatorLatency c then
            Ok (notify (hd_DebugError H (SkippingRunRound round)) c, None)
          else
            obind (hd_Outgoing H round (cl_handler c)) (\<lambda>(h, outgoing).
              let sealed = seal_messages X round (OnionKeys (ni_MixSettings v)) outgoing;
                  c1 = set_onion_keys round (map snd sealed) (c\<lparr>cl_handler := h\<rparr>) in
              if left2 < 10000000 then Ok (notify (hd_DebugError H (AbandoningRound round)) c1, None)
              else Ok (c1, Some \<lparr>om_Round = round, om_Onions = map fst sealed\<rparr>)))"

subsection \<open>Replies\<close>

text \<open>One turn of the loop over the onions of a reply.\<close>

definition open_reply ::
  "onionbox \<Rightarrow> 'h convo_handler \<Rightarrow> u32 \<Rightarrow> nat \<Rightarrow> bytes \<Rightarrow> bytes list \<Rightarrow> 'h \<Rightarrow> 'h \<times> bytes option" where
  "open_reply X H round want onion keys h =
     (if length onion \<noteq> want then (hd_Error H (MalformedOnion round (length onion) want) h, None)
      else case OB_Open X onion (BackwardNonce round) keys of
        None \<Rightarrow> (hd_Error H (DecryptOnionFailed round) h, None)
      | Some msg \<Rightarrow> (h, Some msg))"

fun open_replies ::
  "onionbox \<Rightarrow> 'h convo_handler \<Rightarrow> u32 \<Rightarrow> nat \<Rightarrow> (bytes \<times> bytes list) list \<Rightarrow> 'h \<Rightarrow> 'h \<times> bytes option list" where
  "open_replies X H round want [] h = (h, [])"
| "open_replies X H round want ((onion, keys) # os) h =
     (case open_reply X H round want onion keys h of
        (h1, m) \<Rightarrow> (case open_replies X H round want os h1 of (h2, ms) \<Rightarrow> (h2, m # ms)))"

definition expectedOnionSize :: "client_round \<Rightarrow> nat" where
  "expectedOnionSize st = SizeEncryptedMessageBody + length (cfg_MixServers (cr_Config st)) * box_Overhead"

definition delete_round :: "u32 \<Rightarrow> 'h convo_client \<Rightarrow> 'h convo_client" where
  "delete_round round c = c\<lparr>cl_rounds := map_option (\<lambda>m. m(round := None)) (cl_rounds c)\<rparr>"

definition openReplyOnion ::
  "onionbox \<Rightarrow> 'h convo_handler \<Rightarrow> onion_msg \<Rightarrow> 'h convo_client \<Rightarrow> (unit, 'h convo_client) outcome" where
  "openReplyOnion X H v c =
     (let round = om_Round v in
      case client_round_of c round of
        None \<Rightarrow> Ok (notify (hd_Error H (RoundNotConfigured round)) c)
      | Some st \<Rightarrow>
          (case cr_OnionKeys st of
             None \<Rightarrow> Ok (notify (hd_Error H (NoOnionKeys round)) c)
           | Some keys \<Rightarrow>
               if length keys \<noteq> length (om_Onions v) then
                 Ok (notify (hd_Error H (WrongOnionCount round (length keys) (length (om_Onions v)))) c)
               else
                 (case open_replies X H round (expectedOnionSize st) (zip (om_Onions v) keys) (cl_handler c) of
                    (h, msgs) \<Rightarrow>
                      obind (hd_Replies H round msgs h) (\<lambda>h'.
                        Ok (delete_round round (c\<lparr>cl_handler := h'\<rparr>))))))"

text \<open>\<open>convoMux\<close>: which handler a message of the coordinator reaches.\<close>

datatype mux_handler = MuxAnnouncement | MuxNewRound | MuxReply | MuxError

definition convoMux :: "string \<Rightarrow> mux_handler option" where
  "convoMux kind =
     (if kind = ''announcement'' then Some MuxAnnouncement
      else if kind = ''newround'' then Some MuxNewRound
      else if kind = ''reply'' then Some MuxReply
      else if kind = ''error'' then Some MuxError
      else None)"

section \<open>Lemmas: rounds and replies\<close>

lemma cl_fields_notify [simp]:
  "cl_rounds (notify f c) = cl_rounds c" "cl_latestRound (notify f c) = cl_latestRound c"
  "cl_handler (notify f c) = f (cl_handler c)" "client_round_of (notify f c) r = client_round_of c r"
  by (simp_all add: notify_def client_round_of_def)

lemma verify_mixers_Ok:
  "verify_mixers P msg mixers sigs = Ok () \<longleftrightarrow> length mixers \<le> length sigs \<and>
     list_all2 (\<lambda>mixer sig. length (Key mixer) = PublicKeySize \<and> Ed25519Verify P (Key mixer) msg sig)
       mixers (take (length mixers) sigs)"
  by (induction P msg mixers sigs rule: verify_mixers.induct) auto

lemma verify_mixers_short:
  assumes "length sigs < length mixers"
    and "list_all2 (\<lambda>mixer sig. length (Key mixer) = PublicKeySize \<and> Ed25519Verify P (Key mixer) msg sig)
       (take (length sigs) mixers) sigs"
  shows "verify_mixers P msg mixers sigs = Panic IndexOutOfRange"
  using assms by (induction P msg mixers sigs rule: verify_mixers.induct) auto

lemma length_seal_messages [simp]: "length (seal_messages X round keys ms) = length ms"
  by (simp add: seal_messages_def)

lemma nth_seal_messages:
  "i < length ms \<Longrightarrow> seal_messages X round keys ms ! i = OB_Seal X i (ddm_Marshal (ms ! i)) (ForwardNonce round) keys"
  by (simp add: seal_messages_def)

lemma client_round_of_set_onion_keys:
  "client_round_of (set_onion_keys round keys c) r =
     (if r = round then map_option (\<lambda>st. st\<lparr>cr_OnionKeys := Some keys\<rparr>) (client_round_of c r)
      else client_round_of c r)"
  by (auto simp: set_onion_keys_def client_round_of_def split: option.splits)

lemma client_runRound_sent:
  assumes "client_runRound P enc X H l1 l2 st v c = Ok (c', Some msg)"
  obtains h outgoing where "hd_Outgoing H (ni_Round v) (cl_handler c) = Ok (h, outgoing)"
    "verify_mixers P (SigningMessage enc (ni_MixSettings v)) (cfg_MixServers (cr_Config st)) (ni_MixSignatures v) = Ok ()"
    "cl_CoordinatorLatency c \<le> l1" "10000000 \<le> l2"
    "msg = \<lparr>om_Round = ni_Round v, om_Onions = map fst (seal_messages X (ni_Round v) (OnionKeys (ni_MixSettings v)) outgoing)\<rparr>"
    "c' = set_onion_keys (ni_Round v) (map snd (seal_messages X (ni_Round v) (OnionKeys (ni_MixSettings v)) outgoing))
       (c\<lparr>cl_handler := h\<rparr>)"
  using assms
  by (auto simp: client_runRound_def Let_def split: outcome.splits if_splits prod.splits)

lemma length_open_replies: "length (snd (open_replies X H round want os h)) = length os"
  by (induction os arbitrary: h) (auto split: prod.splits, metis snd_conv)

lemma open_replies_nth:
  "x < length os \<Longrightarrow> snd (open_replies X H round want os h) ! x =
     (if length (fst (os ! x)) \<noteq> want then None else OB_Open X (fst (os ! x)) (BackwardNonce round) (snd (os ! x)))"
proof (induction os arbitrary: h x)
  case (Cons p os)
  obtain onion keys where p: "p = (onion, keys)" by (cases p)
  obtain h1 m where m: "open_reply X H round want onion keys h = (h1, m)" by fastforce
  then have "m = (if length onion \<noteq> want then None else OB_Open X onion (BackwardNonce round) keys)"
    by (auto simp: open_reply_def split: if_splits option.splits)
  moreover have "snd (open_replies X H round want (p # os) h) = m # snd (open_replies X H round want os h1)"
    using p m by (simp split: prod.splits)
  ultimately show ?case using Cons p by (cases x) auto
qed simp

lemma openReplyOnion_opened:
  assumes "client_round_of c (om_Round v) = Some st" and "cr_OnionKeys st = Some keys"
    and "length keys = length (om_Onions v)"
  shows "\<exists>h msgs. openReplyOnion X H v c = obind (hd_Replies H (om_Round v) msgs h)
      (\<lambda>h'. Ok (delete_round (om_Round v) (c\<lparr>cl_handler := h'\<rparr>))) \<and>
    length msgs = length (om_Onions v) \<and>
    (\<forall>x < length msgs. msgs ! x =
       (if length (om_Onions v ! x) \<noteq> expectedOnionSize st then None
        else OB_Open X (om_Onions v ! x) (BackwardNonce (om_Round v)) (keys ! x)))"
proof -
  obtain h msgs where run: "open_replies X H (om_Round v) (expectedOnionSize st) (zip (om_Onions v) keys) (cl_handler c) = (h, msgs)"
    by fastforce
  have "length msgs = length (om_Onions v)"
    using length_open_replies [of X H "om_Round v" "expectedOnionSize st" "zip (om_Onions v) keys" "cl_handler c"] run assms(3)
    by simp
  moreover have "msgs ! x = (if length (om_Onions v ! x) \<noteq> expectedOnionSize st then None
        else OB_Open X (om_Onions v ! x) (BackwardNonce (om_Round v)) (keys ! x))" if "x < length (om_Onions v)" for x
    using open_replies_nth [of x "zip (om_Onions v) keys" X H "om_Round v" "expectedOnionSize st" "cl_handler c"] run that assms(3)
    by simp
  ultimately show ?thesis
    using run assms by (intro exI [of _ h] exI [of _ msgs]) (auto simp: openReplyOnion_def Let_def)
qed

lemma round_config_cases:
  assumes "round_config H fetched persisted hash c = Ok (c1, conf)"
  obtains (current) "c1 = c"
  | (failed) "c1 = notify (hd_Error H FetchingConfig) c"
  | (changed) newConfig rest h where "fetched = Some (newConfig # rest)"
      "hd_NewConfig H (newConfig # rest) (cl_handler c) = Ok h" "conf = Some newConfig"
      "c1 = c\<lparr>cl_handler := h, cl_convoConfig := Some newConfig, cl_convoConfigHash := hash\<rparr>"
proof -
  note d = assms [unfolded round_config_def]
  show thesis
  proof (cases "hash = cl_convoConfigHash c \<or> cl_convoConfig c = None \<or> fetched = None")
    case True
    then show thesis using d current failed by (auto split: if_splits option.splits)
  next
    case False
    then obtain configs h where new: "fetched = Some configs" "hd_NewConfig H configs (cl_handler c) = Ok h"
      using d by auto
    then show thesis using d False changed by (cases configs) (auto split: if_splits)
  qed
qed

lemma newConvoRound_cases:
  assumes "newConvoRound H fetched persisted left v c = Ok (c', st)"
  obtains (quiet) "st = None" "c' = setLatestRound (ni_Round v) c"
  | (errored) e where "st = None" "c' = notify (hd_Error H e) (setLatestRound (ni_Round v) c)"
  | (debugged) e where "st = None" "c' = notify (hd_DebugError H e) (setLatestRound (ni_Round v) c)"
  | (no_config) "st = None"
      "round_config H fetched persisted (ni_ConfigHash v) (setLatestRound (ni_Round v) c) = Ok (c', None)"
  | (started) c1 conf inner m where
      "round_config H fetched persisted (ni_ConfigHash v) (setLatestRound (ni_Round v) c) = Ok (c1, Some conf)"
      "sc_Inner conf = Some inner" "cl_rounds c1 = Some m"
      "client_round_of (setLatestRound (ni_Round v) c) (ni_Round v) = None"
      "st = Some \<lparr>cr_Config = inner, cr_ConfigParent = conf, cr_OnionKeys = None\<rparr>"
      "c' = c1\<lparr>cl_rounds := Some (m(ni_Round v \<mapsto> \<lparr>cr_Config = inner, cr_ConfigParent = conf, cr_OnionKeys = None\<rparr>))\<rparr>"
proof -
  let ?c = "setLatestRound (ni_Round v) c"
  note d = assms [unfolded newConvoRound_def Let_def]
  show thesis
  proof (cases "left < 20000000 \<or> client_round_of ?c (ni_Round v) \<noteq> None")
    case True
    then show thesis using d quiet errored debugged by (auto split: if_splits)
  next
    case False
    then obtain c1 conf where cfg: "round_config H fetched persisted (ni_ConfigHash v) ?c = Ok (c1, conf)"
      using d by auto
    show thesis
    proof (cases conf)
      case None
      then show thesis using d cfg False no_config by auto
    next
      case (Some conf')
      then show thesis using d cfg False started by (auto split: option.splits)
    qed
  qed
qed

section \<open>The handler interface\<close>

text \<open>
  What the client relies on: an implementation that keeps an invariant, always answers \<open>Outgoing\<close>
  with the same number of messages, and accepts that many replies. The client then keeps the
  invariant, never panics in a round whose settings are complete, and holds as many keys as it
  sent onions.
\<close>

definition client_inv :: "('h \<Rightarrow> bool) \<Rightarrow> nat \<Rightarrow> 'h convo_client \<Rightarrow> bool" where
  "client_inv I n c \<longleftrightarrow> I (cl_handler c) \<and> (\<forall>r st keys. client_round_of c r = Some st \<longrightarrow>
     cr_OnionKeys st = Some keys \<longrightarrow> length keys = n)"

locale convo_endpoint =
  fixes H :: "'h convo_handler" and I :: "'h \<Rightarrow> bool" and n :: nat
  assumes outgoing: "I h \<Longrightarrow> \<exists>h' ms. hd_Outgoing H r h = Ok (h', ms) \<and> I h' \<and> length ms = n"
    and replies: "I h \<Longrightarrow> length msgs = n \<Longrightarrow> \<exists>h'. hd_Replies H r msgs h = Ok h' \<and> I h'"
    and errors: "I h \<Longrightarrow> I (hd_Error H e h)" "I h \<Longrightarrow> I (hd_DebugError H e h)"
    and news: "I h \<Longrightarrow> configs \<noteq> [] \<Longrightarrow> \<exists>h'. hd_NewConfig H configs h = Ok h' \<and> I h'"
      "I h \<Longrightarrow> I (hd_GlobalAnnouncement H a h)"
begin

abbreviation Inv :: "'h convo_client \<Rightarrow> bool" where
  "Inv \<equiv> client_inv I n"

lemma notify_inv: "Inv c \<Longrightarrow> (\<And>h. I h \<Longrightarrow> I (f h)) \<Longrightarrow> Inv (notify f c)"
  by (simp add: client_inv_def)

lemma round_config_inv:
  assumes "Inv c" and "round_config H fetched persisted hash c = Ok (c1, conf)"
  shows "Inv c1"
  using assms(2)
proof (cases rule: round_config_cases)
  case failed
  then show ?thesis using assms(1) errors(1) by (simp add: notify_inv)
next
  case (changed newConfig rest h)
  then have "I h" using news(1) [of "cl_handler c" "newConfig # rest"] assms(1) by (auto simp: client_inv_def)
  with changed(4) assms(1) show ?thesis by (simp add: client_inv_def client_round_of_def)
qed (use assms(1) in simp)

lemma newConvoRound_inv:
  assumes "Inv c" and "newConvoRound H fetched persisted left v c = Ok (c', st)"
  shows "Inv c'"
proof -
  have latest: "Inv (setLatestRound r c)" for r
    using assms(1) by (simp add: client_inv_def setLatestRound_def client_round_of_def)
  have put: "Inv (c1\<lparr>cl_rounds := Some (m(r \<mapsto> \<lparr>cr_Config = a, cr_ConfigParent = b, cr_OnionKeys = None\<rparr>))\<rparr>)"
    if "Inv c1" "cl_rounds c1 = Some m" for c1 m r a b
    using that by (auto simp: client_inv_def client_round_of_def)
  show ?thesis
    using assms(2)
    by (cases rule: newConvoRound_cases)
      (use latest errors in \<open>auto intro!: notify_inv put dest: round_config_inv [OF latest]\<close>)
qed

lemma runRound_total:
  assumes "Inv c" and "verify_mixers P (SigningMessage enc (ni_MixSettings v)) (cfg_MixServers (cr_Config st))
      (ni_MixSignatures v) = r" and "\<forall>p. r \<noteq> Panic p" and "r \<noteq> Hang"
  shows "\<exists>c' msg. client_runRound P enc X H l1 l2 st v c = Ok (c', msg) \<and> Inv c' \<and>
    (\<forall>m. msg = Some m \<longrightarrow> length (om_Onions m) = n)"
proof (cases r)
  case (Ok u)
  obtain h outgoing where out: "hd_Outgoing H (ni_Round v) (cl_handler c) = Ok (h, outgoing)" "I h" "length outgoing = n"
    using outgoing [of "cl_handler c" "ni_Round v"] assms(1) by (auto simp: client_inv_def)
  let ?c1 = "set_onion_keys (ni_Round v) (map snd (seal_messages X (ni_Round v) (OnionKeys (ni_MixSettings v)) outgoing))
       (c\<lparr>cl_handler := h\<rparr>)"
  have "cl_handler ?c1 = h"
    by (simp add: set_onion_keys_def split: option.splits)
  moreover have "client_round_of (c\<lparr>cl_handler := h\<rparr>) q = client_round_of c q" for q
    by (simp add: client_round_of_def)
  ultimately have "Inv ?c1"
    using assms(1) out by (auto simp: client_inv_def client_round_of_set_onion_keys split: if_splits)
  then show ?thesis
    using Ok assms(1,2) out(1,2) errors
    by (auto simp: client_runRound_def Let_def out(3) intro!: notify_inv)
qed (use assms errors in \<open>auto simp: client_runRound_def Let_def intro!: notify_inv\<close>)

lemma open_replies_inv: "I h \<Longrightarrow> open_replies X H round want os h = (h', ms) \<Longrightarrow> I h'"
  using errors by (induction os arbitrary: h ms) (fastforce simp: open_reply_def split: prod.splits if_splits option.splits)+

lemma openReplyOnion_total:
  assumes "Inv c"
  shows "\<exists>c'. openReplyOnion X H v c = Ok c' \<and> Inv c'"
proof -
  have del: "Inv (delete_round r (c\<lparr>cl_handler := h\<rparr>))" if "I h" for r h
    using that assms by (auto simp: client_inv_def delete_round_def client_round_of_def split: option.splits if_splits)
  show ?thesis
  proof (cases "client_round_of c (om_Round v)")
    case None
    then show ?thesis using assms errors by (auto simp: openReplyOnion_def Let_def intro!: notify_inv)
  next
    case (Some st)
    show ?thesis
    proof (cases "cr_OnionKeys st")
      case None
      then show ?thesis using Some assms errors by (auto simp: openReplyOnion_def Let_def intro!: notify_inv)
    next
      case keys: (Some keys)
      then have n: "length keys = n" using Some assms by (auto simp: client_inv_def)
      obtain h msgs where run: "open_replies X H (om_Round v) (expectedOnionSize st) (zip (om_Onions v) keys) (cl_handler c) = (h, msgs)"
        by fastforce
      have "I h" using open_replies_inv [OF _ run] assms by (simp add: client_inv_def)
      moreover have "length msgs = length (zip (om_Onions v) keys)" using length_open_replies run by (metis snd_conv)
      ultimately have "length keys = length (om_Onions v) \<Longrightarrow> \<exists>h'. hd_Replies H (om_Round v) msgs h = Ok h' \<and> I h'"
        using replies n by simp
      then show ?thesis
        using Some keys run assms errors del
        by (auto simp: openReplyOnion_def Let_def intro!: notify_inv)
    qed
  qed
qed

end

lemma client_persist_roundtrip:
  assumes "persistLocked J calls disk c = (states, Ok ())" and "fresh_temp calls (cl_PersistPath c) disk"
    and "UnmarshalState J (MarshalState J (Some conf)) = Some (Some conf)" and "cl_convoConfig c = Some conf"
  shows "LoadClient J (last states) h (cl_PersistPath c) =
    Ok ((new_client h (cl_PersistPath c))\<lparr>cl_convoConfig := Some conf, cl_convoConfigHash := sc_Hash conf\<rparr>)"
proof -
  have w: "WriteFileAtomic calls (cl_PersistPath c) (MarshalState J (cl_convoConfig c)) disk = (states, None)"
    using assms(1) by (auto simp: persistLocked_def split: prod.splits option.splits)
  from WriteFileAtomic_states [OF assms(2) w] show ?thesis
    using assms(3,4) by (simp add: LoadClient_def loadStateLocked_def)
qed

section \<open>Properties\<close>

text \<open>
  C30. The client sends onions only into a round all of whose mixers vouch for it: when it sends a
  message, every mixer of the configuration it verified has a signature on the announced settings
  that verifies, enough time is left, the message is for the announced round with one onion per
  message of the handler, and the client keeps the keys to open the replies.
\<close>

theorem client_sends_verified:
  assumes "client_runRound P enc X H l1 l2 st v c = Ok (c', Some msg)"
  shows "length (cfg_MixServers (cr_Config st)) \<le> length (ni_MixSignatures v) \<and>
    list_all2 (\<lambda>mixer sig. Ed25519Verify P (Key mixer) (SigningMessage enc (ni_MixSettings v)) sig)
      (cfg_MixServers (cr_Config st)) (take (length (cfg_MixServers (cr_Config st))) (ni_MixSignatures v)) \<and>
    cl_CoordinatorLatency c \<le> l1 \<and> 10000000 \<le> l2 \<and> om_Round msg = ni_Round v \<and>
    (\<exists>h outgoing. hd_Outgoing H (ni_Round v) (cl_handler c) = Ok (h, outgoing) \<and>
       length (om_Onions msg) = length outgoing \<and>
       (client_round_of c (ni_Round v) = Some st0 \<longrightarrow> (\<exists>st' keys. client_round_of c' (ni_Round v) = Some st' \<and>
          cr_OnionKeys st' = Some keys \<and> length keys = length (om_Onions msg))))"
  using assms
proof (cases rule: client_runRound_sent)
  case (1 h outgoing)
  have "client_round_of (c\<lparr>cl_handler := h\<rparr>) q = client_round_of c q" for q by (simp add: client_round_of_def)
  then show ?thesis
    using 1 by (auto simp: verify_mixers_Ok client_round_of_set_onion_keys elim: list_all2_mono)
qed

text \<open>
  C31. A coordinator that announces fewer signatures than there are mixers, all of them genuine, makes
  the client panic: the index into the signatures is not checked.
\<close>

theorem short_signatures_crash:
  assumes "length (ni_MixSignatures v) < length (cfg_MixServers (cr_Config st))"
    and "list_all2 (\<lambda>mixer sig. length (Key mixer) = PublicKeySize \<and>
        Ed25519Verify P (Key mixer) (SigningMessage enc (ni_MixSettings v)) sig)
      (take (length (ni_MixSignatures v)) (cfg_MixServers (cr_Config st))) (ni_MixSignatures v)"
  shows "client_runRound P enc X H l1 l2 st v c = Panic IndexOutOfRange"
  using verify_mixers_short [OF assms] by (simp add: client_runRound_def)

lemma setLatestRound_fields [simp]:
  "client_round_of (setLatestRound r c) q = client_round_of c q" "cl_latestRound c \<le> cl_latestRound (setLatestRound r c)"
  "r \<le> cl_latestRound (setLatestRound r c)" "cl_rounds (setLatestRound r c) = cl_rounds c"
  by (auto simp: setLatestRound_def client_round_of_def)

lemma round_config_fields:
  assumes "round_config H fetched persisted hash c = Ok (c1, conf)"
  shows "cl_rounds c1 = cl_rounds c \<and> cl_latestRound c1 = cl_latestRound c"
  using assms by (cases rule: round_config_cases) simp_all

lemma newConvoRound_latest:
  assumes "newConvoRound H fetched persisted left v c = Ok (c', st)"
  shows "cl_latestRound c \<le> cl_latestRound c' \<and> ni_Round v \<le> cl_latestRound c'"
  using assms by (cases rule: newConvoRound_cases) (auto dest: round_config_fields)


definition mute_handler :: "unit convo_handler" where
  "mute_handler =
     \<lparr>hd_Outgoing = (\<lambda>r h. Ok (h, [\<lparr>DeadDrop = replicate 16 5, EncryptedMessage = replicate 256 6\<rparr>])),
      hd_Replies = (\<lambda>r ms h. Ok h), hd_NewConfig = (\<lambda>_ h. Ok h), hd_Error = (\<lambda>_ h. h),
      hd_DebugError = (\<lambda>_ h. h), hd_GlobalAnnouncement = (\<lambda>_ h. h)\<rparr>"

definition toy_onionbox :: onionbox where
  "toy_onionbox = \<lparr>OB_Seal = (\<lambda>i m n ks. (m, ks)), OB_Open = (\<lambda>c n ks. Some c)\<rparr>"

definition toy_info :: "unit new_round" where
  "toy_info = \<lparr>ni_Round = 7, ni_ConfigHash = ''h'', ni_MixSettings = empty_settings\<lparr>Service := ''Convo'', Round := 7\<rparr>,
     ni_MixSignatures = [toy_key @ SigningMessage toy_enc (empty_settings\<lparr>Service := ''Convo'', Round := 7\<rparr> :: unit round_settings)],
     ni_EndTime = 0\<rparr>"

definition toy_client_config :: signed_config where
  "toy_client_config = \<lparr>sc_Guardians = [], sc_Inner = Some (toy_config\<lparr>cfg_MixServers := [\<lparr>Key = toy_key, Address = ''a''\<rparr>]\<rparr>), sc_Hash = ''h'', sc_Service = ''Convo''\<rparr>"

definition toy_client :: "unit convo_client" where
  "toy_client = (new_client () ''c'')\<lparr>cl_rounds := Some Map.empty, cl_convoConfig := Some toy_client_config,
     cl_convoConfigHash := ''h''\<rparr>"

definition toy_client_round :: client_round where
  "toy_client_round = \<lparr>cr_Config = toy_config\<lparr>cfg_MixServers := [\<lparr>Key = toy_key, Address = ''a''\<rparr>]\<rparr>,
     cr_ConfigParent = toy_client_config, cr_OnionKeys = None\<rparr>"

theorem client_sends_verified_witness:
  "\<exists>c' msg. client_runRound toy_nacl toy_enc toy_onionbox mute_handler 0 10000000 toy_client_round toy_info toy_client = Ok (c', Some msg) \<and>
     om_Round msg = 7 \<and> length (cfg_MixServers (cr_Config toy_client_round)) \<le> length (ni_MixSignatures toy_info)"
proof -
  obtain c' msg where run: "client_runRound toy_nacl toy_enc toy_onionbox mute_handler 0 10000000 toy_client_round toy_info toy_client =
      Ok (c', Some msg)"
    by (simp add: client_runRound_def toy_info_def toy_client_round_def toy_client_def new_client_def mute_handler_def
        toy_nacl_def PublicKeySize_def toy_key_def Let_def)
  from client_sends_verified [OF run, of toy_client_round] run show ?thesis by (auto simp: toy_info_def)
qed

theorem short_signatures_crash_witness:
  "client_runRound toy_nacl toy_enc toy_onionbox mute_handler 0 0 toy_client_round (toy_info\<lparr>ni_MixSignatures := []\<rparr>) toy_client =
     Panic IndexOutOfRange"
  by (rule short_signatures_crash) (simp_all add: toy_client_round_def)


end
