(* ===== verification/Convo_Exchange.thy ===== *)
theory Convo_Exchange
  imports Mix_Chain Coordinator_Rounds Convo_Client
begin

text \<open>
  A conversation round as its clients see it: the exchange of two messages in the chain of servers,
  the clients that take part in the round, and how each opens its part of the replies.
\<close>

section \<open>The exchange in the chain\<close>

lemma round_exchange:
  assumes env: "spans_ok (Spans E)" "box_roundtrip (Nacl E)" "box_length (Nacl E)"
    "shuffle_ok (NewShuffler E)" "\<forall>s n. Conns E s n = None"
    and hops: "ready_hops E net (ConvoService C) service r ch 0 hops" "hops \<noteq> []" "length hops \<le> fuel"
    and size: "length onions + hops_size hops < 2 ^ 32"
    and coord: "net (fst (hd hops)) = Some srv" "ctx = Some (TLSInfo [Ed25519Key (CoordinatorKey srv)])"
    and i: "i < length onions" "survives E r hops onions i"
      "onion_path (Nacl E) r hops (onions ! i) = Some (ki, mi)"
    and j: "j < length onions" "survives E r hops onions j"
      "onion_path (Nacl E) r hops (onions ! j) = Some (kj, mj)"
    and meet: "mi \<noteq> mj" "take 16 mi = take 16 mj"
      "list_all (\<lambda>m. take 16 m = take 16 mi \<longrightarrow> m = mi \<or> m = mj) (chain_batch E r hops onions)"
  shows "\<exists>net' rs. RunRoundBidirectional E (closeRound fuel E) net ctx (ch ! 0) service r onions =
      (net', Ok (map Some rs)) \<and> length rs = length onions \<and>
    (\<forall>c \<in> set rs. length c = SizeEncryptedMessageBody + length ch * box_Overhead) \<and>
    unwrap (Nacl E) r ki (rs ! i) = Some (drop 16 mj) \<and>
    unwrap (Nacl E) r kj (rs ! j) = Some (drop 16 mi)"
proof -
  let ?b = "chain_batch E r hops onions"
  let ?rs = "chain_replies E (ConvoService C) r hops onions"
  obtain k st hs where h: "hops = (k, st) # hs" using hops(2) by (cases hops) auto
  then have st: "chain st = ch" "myPos st = 0" "ch \<noteq> []" using hops(1) by (auto simp: ready_round_def)
  have "authPrev srv ctx (snd (hd hops)) = Ok ()"
    using hops(1) h coord by (simp add: authPrev_def ready_round_def)
  from convo.chain_round [OF env(1,3,4) _ hops size coord(1) this] env(5)
  obtain net' where run: "RunRoundBidirectional E (closeRound fuel E) net ctx (ch ! 0) service r onions =
      (net', Ok (map Some ?rs))" by auto
  have len: "length c = SizeEncryptedMessageBody + length ch * box_Overhead" if "c \<in> set ?rs" for c
  proof -
    have "length c = replyMsgSize (ConvoService C) st + box_Overhead"
      using chain_replies_length [OF env(3)] that unfolding h by blast
    moreover obtain m where "length ch = Suc m" using st(3) by (cases ch) auto
    ultimately show ?thesis using st by (simp add: replyMsgSize_def ConvoService_def)
  qed
  obtain a where a: "a < length ?b" "?b ! a = mi"
    "unwrap (Nacl E) r ki (?rs ! i) = Some (drop 16 (?b ! partner ?b a))"
    using slot_gets_partner [OF env(2-4) hops(1,2) i] .
  obtain b where b: "b < length ?b" "?b ! b = mj"
    "unwrap (Nacl E) r kj (?rs ! j) = Some (drop 16 (?b ! partner ?b b))"
    using slot_gets_partner [OF env(2-4) hops(1,2) j] .
  have only: "l = a \<or> l = b" if "l < length ?b" "take 16 (?b ! l) = take 16 mi" for l
  proof -
    have "?b ! l = mi \<or> ?b ! l = mj" using meet(3) that by (simp add: list_all_length)
    then show ?thesis
      using chain_batch_sizes(2) [OF env(3) hops(1,2), of onions] that(1) a b nth_eq_iff_index_eq by metis
  qed
  have ab: "a \<noteq> b" "take 16 (?b ! a) = take 16 (?b ! b)" using a b meet by auto
  have "partner ?b a = b"
    using a(2) only by (intro partner_two [OF a(1) b(1) ab]) simp
  moreover have "partner ?b b = a"
    using b(2) meet(2) only by (intro partner_two [OF b(1) a(1) ab(1) [symmetric] ab(2) [symmetric]]) auto
  ultimately have "partner ?b a = b" "partner ?b b = a" by simp_all
  then show ?thesis using run a b len length_chain_replies [OF hops(2)] by auto
qed

section \<open>Clients of a round\<close>

text \<open>
  What the onion box does for a chain of servers: every sealed dead drop message passes the servers,
  which end up with the keys \<open>Seal\<close> returned, and \<open>Open\<close> takes off one layer per key.
\<close>

definition seals_for :: "nacl \<Rightarrow> u32 \<Rightarrow> (bytes \<times> 'd round_state) list \<Rightarrow> bytes list \<Rightarrow> onionbox \<Rightarrow> bool" where
  "seals_for P r hops keys X \<longleftrightarrow>
     (\<forall>i m. length m = sizeDeadDropMessage \<longrightarrow>
        onion_path P r hops (fst (OB_Seal X i m (ForwardNonce r) keys)) =
          Some (snd (OB_Seal X i m (ForwardNonce r) keys), m)) \<and>
     (\<forall>c ks. OB_Open X c (BackwardNonce r) ks = unwrap P r ks c)"

text \<open>
  A client that takes part in round \<open>r\<close>: it knows the chain \<open>ch\<close> of the round, its goroutine sent the
  onions that are bundle \<open>p\<close> of the batch, for the messages \<open>ms\<close> of its handler.
\<close>

definition joins ::
  "mix_env \<Rightarrow> settings_encoder \<Rightarrow> (bytes \<times> 'd round_state) list \<Rightarrow> public_server_config list \<Rightarrow> u32 \<Rightarrow>
   onion_bundle list \<Rightarrow> nat \<Rightarrow> onionbox \<Rightarrow> 'h convo_handler \<Rightarrow> 'h convo_client \<Rightarrow> 'd new_round \<Rightarrow>
   dead_drop_message list \<Rightarrow> 'h convo_client \<Rightarrow> bool" where
  "joins E enc hops ch r out p X H c v ms c' \<longleftrightarrow>
     (\<exists>st l1 l2 msg h. client_round_of c r = Some st \<and> cfg_MixServers (cr_Config st) = ch \<and> ni_Round v = r \<and>
        hd_Outgoing H r (cl_handler c) = Ok (h, ms) \<and>
        client_runRound (Nacl E) enc X H l1 l2 st v c = Ok (c', Some msg) \<and>
        p < length out \<and> ob_onions (out ! p) = om_Onions msg) \<and>
     seals_for (Nacl E) r hops (OnionKeys (ni_MixSettings v)) X"

text \<open>The position of message \<open>x\<close> of bundle \<open>p\<close> in the batch.\<close>

definition slot :: "onion_bundle list \<Rightarrow> nat \<Rightarrow> nat \<Rightarrow> nat" where
  "slot out p x = length (concat (map ob_onions (take p out))) + x"

lemma concat_nth_slot:
  assumes "p < length xss" and "x < length (xss ! p)"
  shows "length (concat (take p xss)) + x < length (concat xss) \<and>
    concat xss ! (length (concat (take p xss)) + x) = xss ! p ! x"
proof -
  have "concat xss = concat (take p xss) @ xss ! p @ concat (drop (Suc p) xss)"
    using id_take_nth_drop [OF assms(1)] by (metis concat.simps(2) concat_append)
  then show ?thesis using assms(2) by (simp add: nth_append)
qed

lemma slot_nth:
  assumes "p < length out" and "x < length (ob_onions (out ! p))"
  shows "slot out p x < length (concat (map ob_onions out)) \<and>
    concat (map ob_onions out) ! slot out p x = ob_onions (out ! p) ! x"
  using concat_nth_slot [of p "map ob_onions out" x] assms by (simp add: slot_def take_map)

text \<open>The state of a client that took part, and its onions.\<close>

lemma joins_state:
  assumes "joins E enc hops ch r out p X H c v ms c'"
  obtains st where "p < length out" "length (ob_onions (out ! p)) = length ms"
    "client_round_of c' r = Some st" "cfg_MixServers (cr_Config st) = ch"
    "cr_OnionKeys st = Some (map snd (seal_messages X r (OnionKeys (ni_MixSettings v)) ms))"
    "\<And>x. x < length ms \<Longrightarrow> ob_onions (out ! p) ! x =
       fst (OB_Seal X x (ddm_Marshal (ms ! x)) (ForwardNonce r) (OnionKeys (ni_MixSettings v)))"
proof -
  obtain st l1 l2 msg h where j: "client_round_of c r = Some st" "cfg_MixServers (cr_Config st) = ch" "ni_Round v = r"
    "hd_Outgoing H r (cl_handler c) = Ok (h, ms)"
    "client_runRound (Nacl E) enc X H l1 l2 st v c = Ok (c', Some msg)"
    "p < length out" "ob_onions (out ! p) = om_Onions msg" using assms by (auto simp: joins_def)
  let ?sealed = "seal_messages X r (OnionKeys (ni_MixSettings v)) ms"
  from j(5) have msg: "om_Onions msg = map fst ?sealed"
    and c': "c' = set_onion_keys r (map snd ?sealed) (c\<lparr>cl_handler := h\<rparr>)"
    using j(3,4) by (auto elim!: client_runRound_sent)
  have "client_round_of c' r = Some (st\<lparr>cr_OnionKeys := Some (map snd ?sealed)\<rparr>)"
    using j(1) by (simp add: c' client_round_of_set_onion_keys) (simp add: client_round_of_def)
  then show thesis
    using j msg by (intro that [of "st\<lparr>cr_OnionKeys := Some (map snd ?sealed)\<rparr>"]) (auto simp: nth_seal_messages)
qed

text \<open>How a client that took part opens its reply.\<close>

lemma joined_reply:
  assumes "joins E enc hops ch r out p X H c v ms c'"
    and "length os = length ms" and "\<forall>b \<in> set os. length b = SizeEncryptedMessageBody + length ch * box_Overhead"
    and "x < length ms" and "length (ddm_Marshal (ms ! x)) = sizeDeadDropMessage"
    and "onion_path (Nacl E) r hops (ob_onions (out ! p) ! x) = Some (ks, m)"
    and "unwrap (Nacl E) r ks (os ! x) = Some body"
  shows "\<exists>h msgs. openReplyOnion X H \<lparr>om_Round = r, om_Onions = os\<rparr> c' =
      obind (hd_Replies H r msgs h) (\<lambda>h'. Ok (delete_round r (c'\<lparr>cl_handler := h'\<rparr>))) \<and>
    length msgs = length ms \<and> msgs ! x = Some body"
  using assms(1)
proof (cases rule: joins_state)
  case (1 st)
  let ?seal = "\<lambda>i. OB_Seal X i (ddm_Marshal (ms ! i)) (ForwardNonce r) (OnionKeys (ni_MixSettings v))"
  let ?keys = "map snd (seal_messages X r (OnionKeys (ni_MixSettings v)) ms)"
  have seals: "seals_for (Nacl E) r hops (OnionKeys (ni_MixSettings v)) X" using assms(1) by (simp add: joins_def)
  have "ks = snd (?seal x)" using seals assms(4-6) 1(6) by (auto simp: seals_for_def)
  moreover have "?keys ! x = snd (?seal x)" using assms(4) by (simp add: nth_seal_messages)
  moreover have "OB_Open X (os ! x) (BackwardNonce r) (?keys ! x) = unwrap (Nacl E) r (?keys ! x) (os ! x)"
    using seals by (simp add: seals_for_def)
  ultimately have "OB_Open X (os ! x) (BackwardNonce r) (?keys ! x) = Some body" using assms(7) by simp
  moreover have "length (os ! x) = expectedOnionSize st"
    using assms(2-4) 1(4) by (simp add: expectedOnionSize_def)
  moreover obtain h msgs where "openReplyOnion X H \<lparr>om_Round = r, om_Onions = os\<rparr> c' =
      obind (hd_Replies H r msgs h) (\<lambda>h'. Ok (delete_round r (c'\<lparr>cl_handler := h'\<rparr>)))" "length msgs = length os"
    "\<forall>x < length msgs. msgs ! x = (if length (os ! x) \<noteq> expectedOnionSize st then None
        else OB_Open X (os ! x) (BackwardNonce r) (?keys ! x))"
    using openReplyOnion_opened [of c' "\<lparr>om_Round = r, om_Onions = os\<rparr>" st ?keys X H] 1(3,5) assms(2) by auto
  ultimately show ?thesis using assms(2,4) by (intro exI [of _ h] exI [of _ msgs]) simp
qed


lemma joined_onion:
  assumes "joins E enc hops ch r out p X H c v ms c'" and "x < length ms"
    and "length (ddm_Marshal (ms ! x)) = sizeDeadDropMessage"
  shows "slot out p x < length (concat (map ob_onions out)) \<and>
    concat (map ob_onions out) ! slot out p x = ob_onions (out ! p) ! x \<and>
    (\<exists>ks. onion_path (Nacl E) r hops (ob_onions (out ! p) ! x) = Some (ks, ddm_Marshal (ms ! x)))"
  using assms(1)
proof (cases rule: joins_state)
  case (1 st)
  have "seals_for (Nacl E) r hops (OnionKeys (ni_MixSettings v)) X" using assms(1) by (simp add: joins_def)
  then show ?thesis using slot_nth [of p out x] 1 assms(2,3) by (auto simp: seals_for_def)
qed

text \<open>The part of the replies that belongs to a bundle.\<close>

lemma part_of_slot:
  assumes "concat parts = map Some rs" and "map length parts = map (\<lambda>b. length (ob_onions b)) out"
    and "p < length out" and "x < length (ob_onions (out ! p))"
  shows "p < length parts \<and> length (parts ! p) = length (ob_onions (out ! p)) \<and>
    map reply_bytes (parts ! p) ! x = rs ! slot out p x \<and> set (map reply_bytes (parts ! p)) \<subseteq> set rs"
proof -
  have len: "length parts = length out" using assms(2) by (metis length_map)
  have lp: "length (parts ! q) = length (ob_onions (out ! q))" if "q < length out" for q
    using assms(2) that len by (metis nth_map)
  have "map length (take p parts) = map length (take p (map ob_onions out))"
    using assms(2) by (metis (no_types, lifting) map_map comp_apply map_eq_conv take_map)
  then have off: "length (concat (take p parts)) = length (concat (map ob_onions (take p out)))"
    by (simp add: length_concat take_map comp_def)
  have p: "p < length parts" "x < length (parts ! p)" using assms(3,4) len lp by auto
  from concat_nth_slot [OF p] off assms(1)
  have "slot out p x < length rs" "parts ! p ! x = Some (rs ! slot out p x)" by (auto simp: slot_def)
  moreover have "set (parts ! p) \<subseteq> Some ` set rs"
    using nth_mem [OF p(1)] assms(1) by (metis UN_upper set_concat set_map)
  ultimately show ?thesis
    using p lp assms(3) by (auto simp: reply_bytes_def)
qed


section \<open>A concrete round\<close>

definition meet_box :: onionbox where
  "meet_box = \<lparr>OB_Seal = (\<lambda>i m n ks. (replicate 32 4 @ replicate 16 7 @ m, [replicate 32 7])),
     OB_Open = (\<lambda>c n ks. unwrap toy_nacl 7 ks c)\<rparr>"

definition meet_handler :: "byte \<Rightarrow> unit convo_handler" where
  "meet_handler b = mute_handler\<lparr>hd_Outgoing :=
     (\<lambda>r h. Ok (h, [\<lparr>DeadDrop = replicate 16 5, EncryptedMessage = replicate 256 b\<rparr>]))\<rparr>"

definition meet_client :: "unit convo_client" where
  "meet_client = toy_client\<lparr>cl_rounds := Some [7 \<mapsto> toy_client_round]\<rparr>"

lemma meet_box_seals: "seals_for toy_nacl 7 [(toy_key, meet_round)] keys meet_box"
proof -
  have "onion_path toy_nacl 7 [(toy_key, meet_round)] (replicate 32 4 @ replicate 16 7 @ m) = Some ([replicate 32 7], m)"
    if "length m = sizeDeadDropMessage" for m
  proof -
    let ?o = "replicate 32 4 @ replicate 16 7 @ m"
    have key: "slot_key toy_nacl meet_round ?o = replicate 32 7"
      by (simp add: slot_key_def toy_nacl_def meet_round_def new_round_state_def toy_private_def)
    have "right_size meet_round ?o" "bidirectional meet_round"
      using that by (simp_all add: right_size_def meet_round_def new_round_state_def onionbox_Overhead_def convo_sizes ConvoService_def)
    then have "hop_msg toy_nacl 7 meet_round ?o = Some m"
      unfolding hop_msg_def slot_msg_def key by (simp add: toy_nacl_def toy_tag_def)
    with key show ?thesis by simp
  qed
  then show ?thesis by (simp add: seals_for_def meet_box_def)
qed

lemma meet_client_joins:
  assumes "p < length out" and "ob_onions (out ! p) = [meet_onion b]"
  shows "\<exists>c'. joins toy_env toy_enc [(toy_key, meet_round)] [\<lparr>Key = toy_key, Address = ''a''\<rparr>] 7 out p meet_box
    (meet_handler b) meet_client toy_info [\<lparr>DeadDrop = replicate 16 5, EncryptedMessage = replicate 256 b\<rparr>] c'"
proof -
  let ?m = "\<lparr>DeadDrop = replicate 16 5, EncryptedMessage = replicate 256 b\<rparr>"
  have "ddm_Marshal ?m = meet_msg b"
    by (subst ddm_Marshal_append) (simp_all add: meet_msg_def convo_sizes)
  then have sealed: "seal_messages meet_box 7 keys [?m] = [(meet_onion b, [replicate 32 7])]" for keys
    by (simp add: seal_messages_def meet_box_def meet_onion_def)
  have E: "Nacl toy_env = toy_nacl" by (simp add: toy_env_def)
  have out: "hd_Outgoing (meet_handler b) 7 (cl_handler meet_client) = Ok ((), [?m])" by (simp add: meet_handler_def)
  have ver: "verify_mixers toy_nacl (SigningMessage toy_enc (ni_MixSettings toy_info))
      (cfg_MixServers (cr_Config toy_client_round)) (ni_MixSignatures toy_info) = Ok ()"
    by (simp add: toy_info_def toy_client_round_def toy_nacl_def PublicKeySize_def toy_key_def)
  have info: "ni_Round toy_info = 7" "cl_CoordinatorLatency meet_client = 0"
    by (simp_all add: toy_info_def meet_client_def toy_client_def new_client_def)
  obtain c' where run: "client_runRound toy_nacl toy_enc meet_box (meet_handler b) 0 10000000 toy_client_round toy_info meet_client =
      Ok (c', Some \<lparr>om_Round = 7, om_Onions = [meet_onion b]\<rparr>)"
    using ver out by (simp add: client_runRound_def info sealed Let_def)
  have st: "client_round_of meet_client 7 = Some toy_client_round"
    "cfg_MixServers (cr_Config toy_client_round) = [\<lparr>Key = toy_key, Address = ''a''\<rparr>]"
    by (simp_all add: meet_client_def client_round_of_def toy_client_round_def)
  show ?thesis
    unfolding joins_def E
  proof (intro exI conjI)
    show "client_runRound toy_nacl toy_enc meet_box (meet_handler b) 0 10000000 toy_client_round toy_info meet_client =
      Ok (c', Some \<lparr>om_Round = 7, om_Onions = [meet_onion b]\<rparr>)" by (fact run)
  qed (use st info out assms meet_box_seals in auto)
qed

end
