(* ===== verification/Conversation.thy ===== *)
theory Conversation
  imports Convo_Service
begin

text \<open>
  One conversation of the client (\<open>cmd/gjallarhorn-client/conversation.go\<close>): the message format, the
  queue of outgoing messages with its sequence numbers and acknowledgements, the key that is rolled
  forward with the rounds, the dead drop of a round and the agreement on the round a key starts at.
  The hash functions and \<open>nacl/secretbox\<close> are parameters.
\<close>

section \<open>State\<close>

record convo_crypto =
  Sum256 :: "bytes \<Rightarrow> bytes"
  Sum512_256 :: "bytes \<Rightarrow> bytes"
  HmacSha256 :: "bytes \<Rightarrow> bytes \<Rightarrow> bytes"
  SecretSeal :: "bytes \<Rightarrow> bytes \<Rightarrow> bytes \<Rightarrow> bytes"
  SecretOpen :: "bytes \<Rightarrow> bytes \<Rightarrow> bytes \<Rightarrow> bytes option"

text \<open>Documented behaviour: a sealed message opens to itself, and is \<open>secretbox.Overhead\<close> longer.\<close>

definition secretbox_ok :: "convo_crypto \<Rightarrow> bool" where
  "secretbox_ok H \<longleftrightarrow>
     (\<forall>m n k. SecretOpen H (SecretSeal H m n k) n k = Some m) \<and>
     (\<forall>m n k. length (SecretSeal H m n k) = length m + 16)"

record seq_msg =
  RelativeSeq :: u32
  Msg :: bytes

record convo_round =
  sentMessage :: bytes
  roundKey :: bytes
  created :: nat

record keywheel_start =
  ks_sessionKey :: bytes
  ks_convoRound :: u32

text \<open>
  \<open>view\<close> holds the lines of the conversation's view, \<open>None\<close> while the window does not exist; times
  are nanoseconds. The incoming queue is an association list without repeated keys.
\<close>

record conversation =
  peerUsername :: string
  myUsername :: string
  view :: "string list option"
  cv_rounds :: "u32 \<rightharpoonup> convo_round"
  pendingCall :: "keywheel_start option"
  outQueue :: "seq_msg list"
  lastOut :: int
  inQueue :: "(u32 \<times> bytes) list"
  relativeSeq :: u32
  seqBase :: u32
  cv_ack :: u32
  sessionKey :: "bytes option"
  sessionKeyRound :: u32
  lastPeerResponding :: bool
  lastLatency :: nat
  lastRound :: u32
  unread :: bool
  focused :: bool

definition cv_Init :: "conversation \<Rightarrow> conversation" where
  "cv_Init c =
     c\<lparr>relativeSeq := 0, seqBase := 0, lastPeerResponding := False, cv_rounds := Map.empty,
       inQueue := []\<rparr>"

section \<open>Messages\<close>

record convo_message =
  Seq :: u32
  Ack :: u32
  Lowest :: bool
  UserText :: bytes

definition SizeUserText :: nat where
  "SizeUserText = SizeMessageBody - 4 - 4 - 1"

definition cm_Marshal :: "convo_message \<Rightarrow> bytes" where
  "cm_Marshal cm =
     (let msg = replicate SizeMessageBody 0;
          msg = go_copy_at 0 msg (PutUint32 (Seq cm));
          msg = go_copy_at 4 msg (PutUint32 (Ack cm));
          msg = msg[8 := (if Lowest cm then 1 else 0)] in
      go_copy_at 9 msg (UserText cm))"

definition cm_Unmarshal :: "bytes \<Rightarrow> convo_message option" where
  "cm_Unmarshal msg =
     (if length msg \<noteq> SizeMessageBody then None
      else Some \<lparr>Seq = Uint32 (slice 0 4 msg), Ack = Uint32 (slice 4 8 msg),
                 Lowest = (msg ! 8 \<noteq> 0), UserText = drop 9 msg\<rparr>)"

section \<open>Output\<close>

datatype ansi_code = Bold | Foreground nat | Green | Yellow

type_synonym colorf = "ansi_code list \<Rightarrow> string \<Rightarrow> string"

definition formatUserMessage :: "colorf \<Rightarrow> conversation \<Rightarrow> bool \<Rightarrow> string \<Rightarrow> string" where
  "formatUserMessage col c fromMe msg =
     (let mx = (if length (peerUsername c) > length (myUsername c)
                then length (peerUsername c) else length (myUsername c)) + 1;
          username = (if fromMe then myUsername c else peerUsername c);
          codes = (if fromMe then [Bold] else []);
          pad = replicate (mx - length username) CHR '' '' in
      pad @ col codes username @ '' '' @ col [Foreground 27] ''|'' @ '' '' @ msg)"

text \<open>\<open>clock\<close> is the formatted time of day. The message is marked unread if nobody looks at it.\<close>

definition cv_Printf :: "colorf \<Rightarrow> string \<Rightarrow> string \<Rightarrow> conversation \<Rightarrow> conversation" where
  "cv_Printf col clock line c =
     (case view c of
        None \<Rightarrow> c
      | Some ls \<Rightarrow>
          (let c' = c\<lparr>view := Some (ls @ [col [Foreground 8] clock @ '' '' @ line])\<rparr> in
           if \<not> focused c' then c'\<lparr>unread := True\<rparr> else c'))"

text \<open>The synchronous variant marks the conversation unread even when its view is missing.\<close>

definition cv_PrintfSync :: "colorf \<Rightarrow> string \<Rightarrow> string \<Rightarrow> conversation \<Rightarrow> conversation" where
  "cv_PrintfSync col clock line c =
     (let c' = (case view c of
                  None \<Rightarrow> c
                | Some ls \<Rightarrow> c\<lparr>view := Some (ls @ [col [Foreground 8] clock @ '' '' @ line])\<rparr>) in
      if \<not> focused c' then c'\<lparr>unread := True\<rparr> else c')"

definition warningPrefix :: "colorf \<Rightarrow> string" where
  "warningPrefix col = col [Foreground 11] ''-!-'' @ '' ''"

definition cv_Warnf :: "colorf \<Rightarrow> string \<Rightarrow> string \<Rightarrow> conversation \<Rightarrow> conversation" where
  "cv_Warnf col clock line c = cv_Printf col clock (warningPrefix col @ line) c"

definition cv_WarnfSync :: "colorf \<Rightarrow> string \<Rightarrow> string \<Rightarrow> conversation \<Rightarrow> conversation" where
  "cv_WarnfSync col clock line c = cv_PrintfSync col clock (warningPrefix col @ line) c"

section \<open>The outgoing queue\<close>

definition queue_text :: "bytes \<Rightarrow> conversation \<Rightarrow> conversation" where
  "queue_text msg c =
     c\<lparr>outQueue := outQueue c @ [\<lparr>RelativeSeq = relativeSeq c, Msg = msg\<rparr>],
       relativeSeq := relativeSeq c + 1\<rparr>"

definition QueueTextMessage :: "colorf \<Rightarrow> string \<Rightarrow> bytes \<Rightarrow> conversation \<Rightarrow> conversation" where
  "QueueTextMessage col clock msg c =
     (let c' = queue_text msg c in
      cv_Printf col clock (formatUserMessage col c' True (str_of msg) @ [CHR 0x0A]) c')"

text \<open>
  The critical section of \<open>NextMessage\<close> that picks the message of a round. An index beyond the queue
  cannot happen here: it is below the length or zero.
\<close>

definition next_payload :: "u32 \<Rightarrow> conversation \<Rightarrow> conversation \<times> convo_message" where
  "next_payload round c =
     (let msg = \<lparr>Seq = 0, Ack = cv_ack c, Lowest = False, UserText = replicate SizeUserText 0\<rparr> in
      if outQueue c = [] then (c, msg)
      else
        let c1 = (if seqBase c = 0 then c\<lparr>seqBase := round + 1\<rparr> else c);
            advance = (lastOut c1 \<noteq> -1 \<and> lastOut c1 + 1 < int (length (outQueue c1)));
            c2 = c1\<lparr>lastOut := (if advance then lastOut c1 + 1 else 0)\<rparr>;
            out = outQueue c2 ! nat (lastOut c2) in
        (c2, msg\<lparr>Lowest := \<not> advance, Seq := RelativeSeq out + seqBase c2, UserText := Msg out\<rparr>))"

section \<open>Keys\<close>

text \<open>
  The loop of \<open>rollKey\<close> from \<open>keyRound\<close> up to \<open>targetRound\<close>; the key is overwritten in place by each
  digest. A nil key is dereferenced by the copy.
\<close>

definition roll_step :: "convo_crypto \<Rightarrow> nat \<Rightarrow> bytes \<Rightarrow> bytes" where
  "roll_step H r key = Sum512_256 H (PutUint32 (word_of_nat r) @ key)"

definition rollKey ::
  "convo_crypto \<Rightarrow> bytes option \<Rightarrow> u32 \<Rightarrow> u32 \<Rightarrow> (unit, bytes option) outcome" where
  "rollKey H currentKey keyRound targetRound =
     (if keyRound > targetRound then Ok None
      else case currentKey of
        None \<Rightarrow> Panic NilDereference
      | Some k \<Rightarrow> Ok (Some (fold (roll_step H) [unat keyRound..<unat targetRound] k)))"

definition rollAndReplaceKey ::
  "convo_crypto \<Rightarrow> u32 \<Rightarrow> conversation \<Rightarrow> (unit, conversation \<times> bytes option) outcome" where
  "rollAndReplaceKey H targetRound c =
     obind (rollKey H (sessionKey c) (sessionKeyRound c) targetRound) (\<lambda>newKey.
       case newKey of
         None \<Rightarrow> Ok (c, None)
       | Some k \<Rightarrow> Ok (c\<lparr>sessionKey := Some k, sessionKeyRound := targetRound\<rparr>, Some k))"

definition name_nonce :: "convo_crypto \<Rightarrow> u32 \<Rightarrow> string \<Rightarrow> bytes" where
  "name_nonce H round name =
     (let nonce = go_copy_at 0 (replicate 24 0) (PutUint32 round) in
      go_copy_at 4 nonce (take 16 (Sum256 H (ascii name))))"

definition cv_Seal :: "convo_crypto \<Rightarrow> conversation \<Rightarrow> bytes \<Rightarrow> u32 \<Rightarrow> bytes \<Rightarrow> bytes" where
  "cv_Seal H c message round key = SecretSeal H message (name_nonce H round (peerUsername c)) key"

definition cv_Open :: "convo_crypto \<Rightarrow> conversation \<Rightarrow> bytes \<Rightarrow> u32 \<Rightarrow> bytes \<Rightarrow> bytes option" where
  "cv_Open H c ctxt round key = SecretOpen H ctxt (name_nonce H round (myUsername c)) key"

definition deadDrop :: "convo_crypto \<Rightarrow> u32 \<Rightarrow> bytes \<Rightarrow> bytes" where
  "deadDrop H round key =
     go_copy (replicate 16 0) (HmacSha256 H key (ascii ''DeadDrop'' @ PutUint32 round))"

section \<open>NextMessage\<close>

text \<open>\<open>dummy\<close> is the random message of a round whose key is gone; \<open>now\<close> is the clock.\<close>

definition NextMessage ::
  "convo_crypto \<Rightarrow> dead_drop_message \<Rightarrow> nat \<Rightarrow> u32 \<Rightarrow> conversation \<Rightarrow>
   (unit, conversation \<times> dead_drop_message) outcome" where
  "NextMessage H dummy now round c =
     (case next_payload round (c\<lparr>lastRound := round\<rparr>) of
        (c1, msg) \<Rightarrow>
          obind (rollAndReplaceKey H round c1) (\<lambda>(c2, key).
            case key of
              None \<Rightarrow> Ok (c2, dummy)
            | Some k \<Rightarrow>
                let ctxt = cv_Seal H c2 (cm_Marshal msg) round k;
                    encmsg = go_copy (replicate SizeEncryptedMessageBody 0) ctxt in
                Ok (c2\<lparr>cv_rounds := (cv_rounds c2)(round \<mapsto>
                         \<lparr>sentMessage = encmsg, roundKey = k, created = now\<rparr>)\<rparr>,
                    \<lparr>DeadDrop = deadDrop H round k, EncryptedMessage = encmsg\<rparr>)))"

section \<open>Reply\<close>

definition Solo :: "conversation \<Rightarrow> bool" where
  "Solo c \<longleftrightarrow> peerUsername c = myUsername c"

text \<open>The loop that drops what the peer acknowledged and moves \<open>lastOut\<close> along.\<close>

fun ack_loop :: "u32 \<Rightarrow> u32 \<Rightarrow> seq_msg list \<Rightarrow> int \<Rightarrow> seq_msg list \<times> int" where
  "ack_loop base a [] lo = ([], lo)"
| "ack_loop base a (out # rest) lo =
     (if 0 < base \<and> RelativeSeq out + base \<le> a
      then ack_loop base a rest (if 0 < lo then lo - 1 else lo)
      else case ack_loop base a rest lo of (q, lo') \<Rightarrow> (out # q, lo'))"

definition del_key :: "u32 \<Rightarrow> (u32 \<times> bytes) list \<Rightarrow> (u32 \<times> bytes) list" where
  "del_key k q = filter (\<lambda>x. fst x \<noteq> k) q"

text \<open>The loop that takes the longest run of messages that starts at \<open>i\<close>.\<close>

function take_run :: "u32 \<Rightarrow> u32 \<Rightarrow> (u32 \<times> bytes) list \<Rightarrow> bytes list \<times> u32 \<times> (u32 \<times> bytes) list" where
  "take_run a i q =
     (case map_of q i of
        None \<Rightarrow> ([], a, q)
      | Some body \<Rightarrow>
          (case take_run i (i + 1) (del_key i q) of (bs, a', q') \<Rightarrow> (body # bs, a', q')))"
  by pat_completeness auto
termination
proof (relation "measure (\<lambda>(a, i, q). length q)", goal_cases)
  case (2 a i q body)
  then have "(i, body) \<in> set q" by (auto dest: map_of_SomeD)
  then have "length (filter (\<lambda>x. fst x \<noteq> i) q) < length q"
    by (intro length_filter_less) auto
  then show ?case by (simp add: del_key_def)
qed simp

declare take_run.simps [simp del]

text \<open>The critical section of \<open>Reply\<close> for a peer's message, and the bodies to display.\<close>

definition accept_payload :: "nat \<Rightarrow> convo_message \<Rightarrow> conversation \<Rightarrow> conversation \<times> bytes list" where
  "accept_payload latency msg c =
     (case ack_loop (seqBase c) (Ack msg) (outQueue c) (lastOut c) of
        (q, lo) \<Rightarrow>
          (let c1 = c\<lparr>lastLatency := latency, outQueue := q, lastOut := lo\<rparr> in
           if Seq msg > cv_ack c1 then
             let inq = (Seq msg, UserText msg) # del_key (Seq msg) (inQueue c1);
                 a = (if Lowest msg then Seq msg - 1 else cv_ack c1) in
             (case take_run a (a + 1) inq of
                (bodies, a', inq') \<Rightarrow> (c1\<lparr>cv_ack := a', inQueue := inq'\<rparr>, bodies))
           else (c1, [])))"

definition TrimRight0 :: "string \<Rightarrow> string" where
  "TrimRight0 s = rev (dropWhile (\<lambda>ch. ch = CHR 0x00) (rev s))"

definition display_bodies :: "colorf \<Rightarrow> string \<Rightarrow> bytes list \<Rightarrow> conversation \<Rightarrow> conversation" where
  "display_bodies col clock bodies c =
     fold (\<lambda>body c. cv_PrintfSync col clock
             (formatUserMessage col c False (TrimRight0 (str_of body)) @ [CHR 0x0A]) c) bodies c"

text \<open>
  The round is looked up and deleted, and with it every round before \<open>round - 10\<close>, a subtraction in
  32 bits. The deferred function records whether the peer responded.
\<close>

definition prune_rounds :: "u32 \<Rightarrow> (u32 \<rightharpoonup> convo_round) \<Rightarrow> (u32 \<rightharpoonup> convo_round)" where
  "prune_rounds round m = (\<lambda>r. if r = round \<or> r < round - 10 then None else m r)"

definition cv_Reply ::
  "convo_crypto \<Rightarrow> colorf \<Rightarrow> string \<Rightarrow> nat \<Rightarrow> u32 \<Rightarrow> bytes \<Rightarrow> conversation \<Rightarrow> conversation" where
  "cv_Reply H col clock now round encmsg c =
     (let found = cv_rounds c round;
          c1 = c\<lparr>cv_rounds := prune_rounds round (cv_rounds c)\<rparr> in
      case found of
        None \<Rightarrow> c1\<lparr>lastPeerResponding := False\<rparr>
      | Some st \<Rightarrow>
          if encmsg = sentMessage st \<and> \<not> Solo c1 then c1\<lparr>lastPeerResponding := False\<rparr>
          else case cv_Open H c1 encmsg round (roundKey st) of
            None \<Rightarrow> c1\<lparr>lastPeerResponding := False\<rparr>
          | Some msgdata \<Rightarrow>
              (case cm_Unmarshal msgdata of
                 None \<Rightarrow> c1\<lparr>lastPeerResponding := False\<rparr>
               | Some msg \<Rightarrow>
                   (case accept_payload (now - created st) msg c1 of
                      (c2, bodies) \<Rightarrow>
                        (display_bodies col clock bodies c2)\<lparr>lastPeerResponding := True\<rparr>)))"

record cv_status =
  PeerResponding :: bool
  StatusRound :: u32
  LatencyNanos :: nat
  Unread :: bool
  Unacked :: nat

definition cv_Status :: "conversation \<Rightarrow> cv_status" where
  "cv_Status c =
     \<lparr>PeerResponding = lastPeerResponding c, StatusRound = lastRound c,
      LatencyNanos = lastLatency c, Unread = unread c, Unacked = length (outQueue c)\<rparr>"

section \<open>roundSyncer\<close>

record roundSyncer =
  roundingIncrement :: u32

definition stdRoundSyncer :: roundSyncer where
  "stdRoundSyncer = \<lparr>roundingIncrement = 10000\<rparr>"

definition epochStart :: "roundSyncer \<Rightarrow> u32 \<Rightarrow> (unit, u32 \<times> int) outcome" where
  "epochStart rs round =
     (let c = roundingIncrement rs in
      if c = 0 then Panic DivideByZero
      else Ok (round div c * c, uint ((round div c) mod 2)))"

definition outgoingCallConvoRound :: "roundSyncer \<Rightarrow> u32 \<Rightarrow> (unit, u32 \<times> int) outcome" where
  "outgoingCallConvoRound rs latestRound = epochStart rs latestRound"

definition incomingCallConvoRound :: "roundSyncer \<Rightarrow> u32 \<Rightarrow> int \<Rightarrow> (unit, u32) outcome" where
  "incomingCallConvoRound rs latestRound intent =
     obind (epochStart rs latestRound) (\<lambda>(start, currIntent).
       if currIntent = intent then Ok start else Ok (start - roundingIncrement rs))"

section \<open>Lemmas: formats, keys, rounds\<close>

lemma SizeUserText_231: "SizeUserText = 231"
  by (simp add: SizeUserText_def SizeMessageBody_def)

lemma cm_Marshal_append:
  "cm_Marshal cm = PutUint32 (Seq cm) @ PutUint32 (Ack cm) @ [if Lowest cm then 1 else 0] @
     go_copy (replicate 231 0) (UserText cm)"
proof -
  have rep: "replicate 240 0 = replicate 4 0 @ replicate 4 0 @ [0] @ (replicate 231 0 :: bytes)"
    by (simp add: replicate_add [symmetric] replicate_app_Cons_same flip: replicate_Suc)
  have 1: "go_copy_at 0 (replicate 240 0) (PutUint32 (Seq cm)) = PutUint32 (Seq cm) @ replicate 4 0 @ [0] @ replicate 231 0"
    unfolding rep by (simp add: go_copy_at_def go_copy_def)
  have 2: "go_copy_at 4 (PutUint32 (Seq cm) @ replicate 4 0 @ [0] @ replicate 231 0) (PutUint32 (Ack cm)) =
      PutUint32 (Seq cm) @ PutUint32 (Ack cm) @ [0] @ replicate 231 0"
    by (simp add: go_copy_at_def go_copy_def)
  show ?thesis
    unfolding cm_Marshal_def Let_def SizeMessageBody_def 1 2
    by (simp add: go_copy_at_def list_update_append)
qed

lemma Uint32_PutUint32_only: "Uint32 (PutUint32 v) = v"
  using Uint32_PutUint32 [of v "[]"] by simp

lemma cm_roundtrip:
  "cm_Unmarshal (cm_Marshal cm) = Some (cm\<lparr>UserText := go_copy (replicate 231 0) (UserText cm)\<rparr>)"
proof -
  have len: "length (cm_Marshal cm) = SizeMessageBody"
    by (simp add: cm_Marshal_append SizeMessageBody_def)
  show ?thesis
    unfolding cm_Unmarshal_def using len
    by (simp add: cm_Marshal_append slice_def nth_append Uint32_PutUint32_only)
qed

lemma rollKey_compose:
  assumes "a \<le> b" and "b \<le> c"
  shows "obind (rollKey H k a b) (\<lambda>k'. rollKey H k' b c) = rollKey H k a c"
proof -
  have "unat a \<le> unat b" "unat b \<le> unat c" using assms by (simp_all add: word_le_nat_alt)
  then have "[unat a..<unat c] = [unat a..<unat b] @ [unat b..<unat c]"
    using upt_add_eq_append [of "unat a" "unat b" "unat c - unat b"] by simp
  moreover have "\<not> a > b" "\<not> b > c" "\<not> a > c" using assms by auto
  ultimately show ?thesis by (simp add: rollKey_def split: option.splits)
qed

lemma unat_div32: "unat (x div y :: u32) = unat x div unat y"
  by (simp add: unat_div)

lemma epoch_div:
  fixes n x c :: nat
  assumes "0 < c" and "x \<le> c"
  shows "(n + x) div c = n div c \<or> (n + x) div c = n div c + 1"
proof -
  have "(n + x) div c \<le> (n + c) div c" using assms(2) by (intro div_le_mono) simp
  moreover have "n div c \<le> (n + x) div c" by (intro div_le_mono) simp
  moreover have "(n + c) div c = n div c + 1" using assms(1) by (simp add: div_add_self2)
  ultimately show ?thesis by linarith
qed

lemma roundSyncer_agree:
  assumes "roundingIncrement rs \<noteq> 0" and "X \<le> roundingIncrement rs" and "unat r + unat X < 2 ^ 32"
    and "outgoingCallConvoRound rs r = Ok (agreed, intent)"
  shows "incomingCallConvoRound rs (r + X) intent = Ok agreed"
proof -
  let ?c = "roundingIncrement rs"
  have c: "0 < unat ?c" using assms(1) by (simp add: unat_gt_0)
  have sum: "unat (r + X) = unat r + unat X" using assms(3) by (rule unat_add_exact)
  have ag: "agreed = r div ?c * ?c" "intent = uint ((r div ?c) mod 2)"
    using assms(1,4) by (auto simp: outgoingCallConvoRound_def epochStart_def Let_def)
  have "unat X \<le> unat ?c" using assms(2) by (simp add: word_le_nat_alt)
  from epoch_div [OF c this, of "unat r"]
  have "unat ((r + X) div ?c) = unat (r div ?c) \<or> unat ((r + X) div ?c) = unat (r div ?c) + 1"
    by (simp add: unat_div32 sum)
  then show ?thesis
  proof
    assume "unat ((r + X) div ?c) = unat (r div ?c)"
    then have "(r + X) div ?c = r div ?c" by (simp add: word_unat_eq_iff)
    then show ?thesis using assms(1) ag by (simp add: incomingCallConvoRound_def epochStart_def Let_def)
  next
    assume suc: "unat ((r + X) div ?c) = unat (r div ?c) + 1"
    then have e: "(r + X) div ?c = r div ?c + 1"
      using unat_add_exact [of "r div ?c" 1] unat32_less [of "(r + X) div ?c"] by (simp add: word_unat_eq_iff)
    have "uint (((r + X) div ?c) mod 2) \<noteq> intent"
    proof -
      have "unat (((r + X) div ?c) mod 2) = (unat (r div ?c) + 1) mod 2" "unat ((r div ?c) mod 2) = unat (r div ?c) mod 2"
        by (simp_all add: unat_mod suc)
      then have "unat (((r + X) div ?c) mod 2) \<noteq> unat ((r div ?c) mod 2)" by presburger
      then show ?thesis unfolding ag by (simp add: word_uint_eq_iff [symmetric] word_unat_eq_iff)
    qed
    then show ?thesis using assms(1) ag e
      by (simp add: incomingCallConvoRound_def epochStart_def Let_def distrib_right)
  qed
qed

section \<open>One direction of a conversation\<close>

definition pad_text :: "bytes \<Rightarrow> bytes" where
  "pad_text t = go_copy (replicate 231 0) t"

text \<open>
  One direction of a conversation: a sender, a receiver, the messages the sender put on the wire,
  the acknowledgements the receiver sent, the texts the user typed and the bodies displayed.
\<close>

record link =
  sender :: conversation
  receiver :: conversation
  wire :: "convo_message list"
  acks :: "u32 list"
  texts :: "bytes list"
  shown :: "bytes list"

inductive link_step :: "link \<Rightarrow> link \<Rightarrow> bool" where
  type_text: "unat (seqBase (sender L)) + length (texts L) + 1 < 2 ^ 32 \<Longrightarrow>
    link_step L (L\<lparr>sender := queue_text t (sender L), texts := texts L @ [t]\<rparr>)"
| send: "next_payload round (sender L) = (a, m) \<Longrightarrow> cm_Unmarshal (cm_Marshal m) = Some m' \<Longrightarrow>
    (seqBase (sender L) = 0 \<longrightarrow>
       cv_ack (receiver L) \<le> round \<and> unat round + 1 + length (texts L) < 2 ^ 32) \<Longrightarrow>
    link_step L (L\<lparr>sender := a, wire := wire L @ [m']\<rparr>)"
| deliver: "m \<in> set (wire L) \<Longrightarrow> accept_payload lat m (receiver L) = (b, bodies) \<Longrightarrow>
    link_step L (L\<lparr>receiver := b, shown := shown L @ bodies\<rparr>)"
| answer: "next_payload round (receiver L) = (b, m) \<Longrightarrow>
    link_step L (L\<lparr>receiver := b, acks := acks L @ [Ack m]\<rparr>)"
| receiver_types: "link_step L (L\<lparr>receiver := queue_text t (receiver L)\<rparr>)"
| hear_ack: "Ack m \<in> set (acks L) \<Longrightarrow> accept_payload lat m (sender L) = (a, bodies) \<Longrightarrow>
    link_step L (L\<lparr>sender := a\<rparr>)"

inductive link_reachable :: "link \<Rightarrow> bool" where
  fresh: "outQueue (sender L) = [] \<Longrightarrow> relativeSeq (sender L) = 0 \<Longrightarrow> seqBase (sender L) = 0 \<Longrightarrow>
    0 \<le> lastOut (sender L) \<Longrightarrow> inQueue (receiver L) = [] \<Longrightarrow> wire L = [] \<Longrightarrow> acks L = [] \<Longrightarrow>
    texts L = [] \<Longrightarrow> shown L = [] \<Longrightarrow> link_reachable L"
| step: "link_reachable L \<Longrightarrow> link_step L L' \<Longrightarrow> link_reachable L'"

section \<open>The queue of the sender\<close>

definition queued :: "bytes list \<Rightarrow> nat \<Rightarrow> seq_msg list" where
  "queued ts k = map (\<lambda>i. \<lparr>RelativeSeq = word_of_nat i, Msg = ts ! i\<rparr>) [k..<length ts]"

lemma queued_append: "k \<le> length ts \<Longrightarrow> queued (ts @ [t]) k =
    queued ts k @ [\<lparr>RelativeSeq = word_of_nat (length ts), Msg = t\<rparr>]"
  by (auto simp: queued_def nth_append intro!: map_cong)

lemma ack_loop_lastOut: "ack_loop base a q lo = (q', lo') \<Longrightarrow> 0 \<le> lo \<Longrightarrow> 0 \<le> lo'"
  by (induction q arbitrary: lo q' lo') (auto split: if_splits prod.splits)

lemma ack_loop_filter:
  "fst (ack_loop base a q lo) = filter (\<lambda>out. \<not> (0 < base \<and> RelativeSeq out + base \<le> a)) q"
  by (induction q arbitrary: lo) (simp_all add: case_prod_unfold)

lemma unat_seq:
  "unat base + i < 2 ^ 32 \<Longrightarrow> unat (word_of_nat i + base :: u32) = unat base + i"
  using unat_add_exact [of "word_of_nat i" base] by (simp add: unat32_of_nat)

lemma ack_loop_queued:
  assumes "k \<le> length ts" and "unat base + length ts < 2 ^ 32" and "base \<noteq> 0"
  shows "fst (ack_loop base a (queued ts k) lo) =
    queued ts (max k (min (length ts) (Suc (unat a) - unat base)))"
proof -
  let ?k = "max k (min (length ts) (Suc (unat a) - unat base))"
  have "filter (\<lambda>out. \<not> (0 < base \<and> RelativeSeq out + base \<le> a)) (queued ts k) =
      map (\<lambda>i. \<lparr>RelativeSeq = word_of_nat i, Msg = ts ! i\<rparr>)
        (filter (\<lambda>i. \<not> (0 < base \<and> word_of_nat i + base \<le> a)) [k..<length ts])"
    by (simp add: queued_def filter_map comp_def)
  also have "filter (\<lambda>i. \<not> (0 < base \<and> word_of_nat i + base \<le> a)) [k..<length ts] =
      filter (\<lambda>i. ?k \<le> i) [k..<length ts]"
    using assms by (intro filter_cong refl) (auto simp: word_le_nat_alt unat_seq word_gt_0)
  also have "filter (\<lambda>i. ?k \<le> i) [k..<length ts] = [?k..<length ts]"
  proof -
    have "[k..<length ts] = [k..<?k] @ [?k..<length ts]"
      using upt_add_eq_append [of k ?k "length ts - ?k"] assms(1) by simp
    moreover have "filter (\<lambda>i. ?k \<le> i) [k..<?k] = []" "filter (\<lambda>i. ?k \<le> i) [?k..<length ts] = [?k..<length ts]"
      by (auto simp: filter_empty_conv simp del: max.bounded_iff)
    ultimately show ?thesis by (metis append_Nil filter_append)
  qed
  finally show ?thesis by (simp add: ack_loop_filter queued_def)
qed

section \<open>The queue of the receiver\<close>

definition in_order :: "u32 \<Rightarrow> bytes list \<Rightarrow> nat \<Rightarrow> (u32 \<times> bytes) list \<Rightarrow> bool" where
  "in_order base ts d q \<longleftrightarrow> (\<forall>(k, v) \<in> set q. \<exists>i < length ts. d \<le> i \<and>
     unat k = unat base + i \<and> v = pad_text (ts ! i))"

lemma del_key_set: "set (del_key k q) = {x \<in> set q. fst x \<noteq> k}"
  by (auto simp: del_key_def)

lemma take_run_spec:
  assumes "take_run a i q = (bs, a', q')" and "in_order base ts d q"
    and "unat base + length ts < 2 ^ 32" and "base \<noteq> 0" and "d \<le> length ts"
    and "unat i = unat base + d" and "unat a + 1 = unat base + d"
  shows "\<exists>d'. d \<le> d' \<and> d' \<le> length ts \<and> bs = map pad_text (map ((!) ts) [d..<d']) \<and>
    unat a' + 1 = unat base + d' \<and> in_order base ts d' q'"
  using assms(1,2,5-7)
proof (induction a i q arbitrary: d bs rule: take_run.induct)
  case (1 a i q)
  show ?case
  proof (cases "map_of q i")
    case None
    then have "bs = []" "a' = a" "q' = q" using "1.prems"(1) by (auto simp: take_run.simps [of a i q])
    then show ?thesis using "1.prems" by (intro exI [of _ d]) auto
  next
    case (Some body)
    then have mem: "(i, body) \<in> set q" by (rule map_of_SomeD)
    then have d: "d < length ts" "body = pad_text (ts ! d)"
      using "1.prems"(2,4) by (auto simp: in_order_def)
    obtain bs1 where rec: "take_run i (i + 1) (del_key i q) = (bs1, a', q')" "bs = body # bs1"
      using "1.prems"(1) Some by (auto simp: take_run.simps [of a i q] split: prod.splits)
    have "in_order base ts (Suc d) (del_key i q)"
    proof (unfold in_order_def, clarify)
      fix k v assume "(k, v) \<in> set (del_key i q)"
      then have kv: "(k, v) \<in> set q" "k \<noteq> i" by (auto simp: del_key_set)
      then obtain j where "j < length ts" "d \<le> j" "unat k = unat base + j" "v = pad_text (ts ! j)"
        using "1.prems"(2) by (auto simp: in_order_def)
      moreover have "j \<noteq> d" using calculation(3) "1.prems"(4) kv(2) by (auto simp: word_unat_eq_iff)
      ultimately show "\<exists>j < length ts. Suc d \<le> j \<and> unat k = unat base + j \<and> v = pad_text (ts ! j)" by auto
    qed
    moreover have "unat (i + 1) = unat base + Suc d"
      using unat_add_exact [of i 1] "1.prems"(4) assms(3) d(1) by simp
    ultimately obtain d' where "Suc d \<le> d'" "d' \<le> length ts" "bs1 = map pad_text (map ((!) ts) [Suc d..<d'])"
      "unat a' + 1 = unat base + d'" "in_order base ts d' q'"
      using "1.IH" [OF Some rec(1)] d(1) "1.prems"(4) by auto
    then show ?thesis using rec(2) d by (intro exI [of _ d']) (simp add: upt_conv_Cons)
  qed
qed

section \<open>The invariant of the link\<close>

text \<open>
  The invariant with \<open>k\<close> texts acknowledged to the sender and \<open>d\<close> displayed by the receiver.
\<close>

definition wire_ok :: "u32 \<Rightarrow> bytes list \<Rightarrow> nat \<Rightarrow> convo_message \<Rightarrow> bool" where
  "wire_ok base ts d m \<longleftrightarrow> Seq m = 0 \<or>
     (\<exists>i < length ts. unat (Seq m) = unat base + i \<and> UserText m = pad_text (ts ! i) \<and> (Lowest m \<longrightarrow> i \<le> d))"

definition acked_to :: "u32 \<Rightarrow> nat \<Rightarrow> u32 \<Rightarrow> bool" where
  "acked_to base d a \<longleftrightarrow> (if d = 0 then unat a < unat base else unat a + 1 = unat base + d)"

definition link_inv :: "link \<Rightarrow> nat \<Rightarrow> nat \<Rightarrow> bool" where
  "link_inv L k d \<longleftrightarrow>
     (let A = sender L; B = receiver L; base = seqBase A; n = length (texts L) in
      0 \<le> lastOut A \<and> unat base + n < 2 ^ 32 \<and> relativeSeq A = word_of_nat n \<and>
      outQueue A = queued (texts L) k \<and> k \<le> d \<and> d \<le> n \<and>
      shown L = map pad_text (take d (texts L)) \<and>
      in_order base (texts L) d (inQueue B) \<and>
      list_all (wire_ok base (texts L) d) (wire L) \<and>
      list_all (\<lambda>a. unat a \<le> unat (cv_ack B)) (acks L) \<and>
      (if base = 0 then d = 0 \<and> inQueue B = [] \<and> list_all (\<lambda>m. Seq m = 0) (wire L)
       else acked_to base d (cv_ack B)))"

lemma next_payload_fields:
  assumes "next_payload r c = (c', m)"
  shows "Ack m = cv_ack c" "cv_ack c' = cv_ack c" "inQueue c' = inQueue c" "outQueue c' = outQueue c"
    "relativeSeq c' = relativeSeq c"
  using assms by (auto simp: next_payload_def Let_def split: if_splits)

lemma next_payload_queued:
  assumes "next_payload r c = (c', m)" and "outQueue c = queued ts k" and "0 \<le> lastOut c"
    and "k \<le> length ts"
  shows "0 \<le> lastOut c'"
    and "seqBase c' = (if k < length ts \<and> seqBase c = 0 then r + 1 else seqBase c)"
    and "Seq m = 0 \<and> k = length ts \<or>
      (\<exists>i < length ts. k \<le> i \<and> Seq m = word_of_nat i + seqBase c' \<and> UserText m = ts ! i \<and> (Lowest m \<longrightarrow> i = k))"
proof -
  have len: "length (outQueue c) = length ts - k" using assms(2) by (simp add: queued_def)
  show "0 \<le> lastOut c'"
    using assms(1,3) by (auto simp: next_payload_def Let_def split: if_splits)
  show "seqBase c' = (if k < length ts \<and> seqBase c = 0 then r + 1 else seqBase c)"
    using assms(1) len by (auto simp: next_payload_def Let_def split: if_splits)
  show "Seq m = 0 \<and> k = length ts \<or>
      (\<exists>i < length ts. k \<le> i \<and> Seq m = word_of_nat i + seqBase c' \<and> UserText m = ts ! i \<and> (Lowest m \<longrightarrow> i = k))"
  proof (cases "outQueue c = []")
    case True
    then show ?thesis using assms(1,4) len by (auto simp: next_payload_def Let_def)
  next
    case False
    then have "k < length ts" using len by (cases "outQueue c") auto
    define j where "j = nat (lastOut c')"
    have j: "j < length ts - k" "Lowest m \<Longrightarrow> j = 0"
      "Seq m = RelativeSeq (outQueue c ! j) + seqBase c'" "UserText m = Msg (outQueue c ! j)"
      using assms(1,3) len False \<open>k < length ts\<close>
      by (auto simp: next_payload_def Let_def j_def split: if_splits)
    then have "outQueue c ! j = \<lparr>RelativeSeq = word_of_nat (k + j), Msg = ts ! (k + j)\<rparr>"
      unfolding assms(2) by (simp add: queued_def)
    with j show ?thesis by (intro disjI2 exI [of _ "k + j"]) auto
  qed
qed

lemma accept_fields:
  assumes "accept_payload lat m c = (c', bodies)" and "0 \<le> lastOut c"
  shows "outQueue c' = fst (ack_loop (seqBase c) (Ack m) (outQueue c) (lastOut c))"
    and "seqBase c' = seqBase c" and "relativeSeq c' = relativeSeq c" and "0 \<le> lastOut c'"
  using assms ack_loop_lastOut
  by (auto simp: accept_payload_def Let_def split: prod.splits if_splits)

lemma accept_receives:
  assumes "accept_payload lat m c = (c', bodies)"
  shows "if Seq m > cv_ack c then
      (\<exists>inq. take_run (if Lowest m then Seq m - 1 else cv_ack c) ((if Lowest m then Seq m - 1 else cv_ack c) + 1)
          ((Seq m, UserText m) # del_key (Seq m) (inQueue c)) = (bodies, cv_ack c', inQueue c'))
    else bodies = [] \<and> cv_ack c' = cv_ack c \<and> inQueue c' = inQueue c"
  using assms by (auto simp: accept_payload_def Let_def split: prod.splits if_splits)

lemma take_run_none: "map_of q i = None \<Longrightarrow> take_run a i q = ([], a, q)"
  by (simp add: take_run.simps)

lemma deliver_payload:
  assumes "accept_payload lat m B = (B', bodies)" and "wire_ok base ts d m"
    and "in_order base ts d (inQueue B)" and "acked_to base d (cv_ack B)"
    and "unat base + length ts < 2 ^ 32" and "base \<noteq> 0" and "d \<le> length ts"
  shows "\<exists>d'. d \<le> d' \<and> d' \<le> length ts \<and> bodies = map pad_text (map ((!) ts) [d..<d']) \<and>
    acked_to base d' (cv_ack B') \<and> in_order base ts d' (inQueue B') \<and> unat (cv_ack B) \<le> unat (cv_ack B')"
proof (cases "Seq m > cv_ack B")
  case False
  then show ?thesis using accept_receives [OF assms(1)] assms by (intro exI [of _ d]) simp
next
  case True
  let ?inq = "(Seq m, UserText m) # del_key (Seq m) (inQueue B)"
  let ?a = "if Lowest m then Seq m - 1 else cv_ack B"
  have run: "take_run ?a (?a + 1) ?inq = (bodies, cv_ack B', inQueue B')"
    using accept_receives [OF assms(1)] True by simp
  have "Seq m \<noteq> 0" using True by auto
  then obtain i where i: "i < length ts" "unat (Seq m) = unat base + i" "UserText m = pad_text (ts ! i)"
    "Lowest m \<Longrightarrow> i \<le> d" using assms(2) by (auto simp: wire_ok_def)
  have base: "0 < unat base" using assms(6) by (simp add: unat_gt_0)
  have gt: "unat (cv_ack B) < unat base + i" using True i(2) by (simp add: word_less_nat_alt)
  then have di: "d \<le> i" using assms(4) by (auto simp: acked_to_def split: if_splits)
  have inq: "in_order base ts d ?inq"
    using assms(3) i(1-3) di by (auto simp: in_order_def del_key_set)
  have low: "unat (Seq m - 1) + 1 = unat base + d" if "Lowest m"
    using i(2) i(4) [OF that] di base unat_add_exact [of "Seq m - 1" 1] unat32_less [of "Seq m"]
    by (simp add: unat_minus_one [OF \<open>Seq m \<noteq> 0\<close>])
  show ?thesis
  proof (cases "unat ?a + 1 = unat base + d")
    case a: True
    have "unat (?a + 1) = unat base + d"
      using a unat_add_exact [of ?a 1] assms(5,7) by simp
    from take_run_spec [OF run inq assms(5-7) this a] obtain d' where
      d': "d \<le> d'" "d' \<le> length ts" "bodies = map pad_text (map ((!) ts) [d..<d'])"
      "unat (cv_ack B') + 1 = unat base + d'" "in_order base ts d' (inQueue B')" by blast
    moreover have "unat (cv_ack B) \<le> unat (cv_ack B')"
      using d'(1,4) assms(4) by (auto simp: acked_to_def split: if_splits)
    moreover have "acked_to base d' (cv_ack B')" using d'(4) by (auto simp: acked_to_def)
    ultimately show ?thesis by blast
  next
    case a: False
    then have nl: "\<not> Lowest m" using low by auto
    then have "d = 0" "unat (cv_ack B) + 1 < unat base"
      using a assms(4) by (auto simp: acked_to_def split: if_splits)
    then have "unat (cv_ack B + 1) < unat base"
      using unat_add_exact [of "cv_ack B" 1] unat32_less [of base] by simp
    moreover have "unat base \<le> unat k" if "(k, v) \<in> set ?inq" for k v
      using inq that unfolding in_order_def by fastforce
    ultimately have "(cv_ack B + 1, v) \<notin> set ?inq" for v using not_le by blast
    then have "map_of ?inq (cv_ack B + 1) = None"
      unfolding map_of_eq_None_iff image_iff by (metis prod.collapse)
    then have "bodies = []" "cv_ack B' = cv_ack B" "inQueue B' = ?inq"
      using run nl by (auto simp: take_run_none)
    with inq assms(4,7) show ?thesis by (intro exI [of _ d]) simp
  qed
qed

lemma link_inv_mono:
  assumes "in_order base ts d q" shows "in_order base (ts @ [t]) d q"
  using assms by (fastforce simp: in_order_def nth_append)

lemma wire_ok_mono:
  "wire_ok base ts d m \<Longrightarrow> wire_ok base (ts @ [t]) d m"
  "wire_ok base ts d m \<Longrightarrow> d \<le> d' \<Longrightarrow> wire_ok base ts d' m"
  by (fastforce simp: wire_ok_def nth_append)+

lemma inv_type_text:
  assumes "link_inv L k d" and "unat (seqBase (sender L)) + length (texts L) + 1 < 2 ^ 32"
  shows "link_inv (L\<lparr>sender := queue_text t (sender L), texts := texts L @ [t]\<rparr>) k d"
  using assms link_inv_mono wire_ok_mono(1)
  by (auto simp: link_inv_def Let_def queue_text_def queued_append list_all_iff)

lemma inv_send:
  assumes inv: "link_inv L k d" and np: "next_payload r (sender L) = (a, m)"
    and m': "cm_Unmarshal (cm_Marshal m) = Some m'"
    and first: "seqBase (sender L) = 0 \<longrightarrow>
       cv_ack (receiver L) \<le> r \<and> unat r + 1 + length (texts L) < 2 ^ 32"
  shows "link_inv (L\<lparr>sender := a, wire := wire L @ [m']\<rparr>) k d"
proof -
  let ?ts = "texts L" and ?base = "seqBase (sender L)"
  have q: "outQueue (sender L) = queued ?ts k" "0 \<le> lastOut (sender L)" "k \<le> length ?ts" "k \<le> d" "d \<le> length ?ts"
    using inv by (auto simp: link_inv_def Let_def)
  note f = next_payload_fields [OF np] and p = next_payload_queued [OF np q(1-3)]
  have eq: "Seq m' = Seq m" "UserText m' = pad_text (UserText m)" "Lowest m' = Lowest m"
    using m' by (auto simp: cm_roundtrip pad_text_def)
  show ?thesis
  proof (cases "?base = 0 \<and> k < length ?ts")
    case True
    then have r: "cv_ack (receiver L) \<le> r" "unat r + 1 + length ?ts < 2 ^ 32" using first by auto
    have base: "seqBase a = r + 1" "unat (r + 1) = unat r + 1"
      using p(2) True unat_add_exact [of r 1] r(2) by auto
    then have "seqBase a \<noteq> 0" by auto
    have old: "d = 0" "inQueue (receiver L) = []" "list_all (\<lambda>m. Seq m = 0) (wire L)" "k = 0"
      using inv True q(4) by (auto simp: link_inv_def Let_def)
    obtain i where "i < length ?ts" "Seq m = word_of_nat i + seqBase a" "UserText m = ?ts ! i" "Lowest m \<longrightarrow> i = k"
      using p(3) True by auto
    then have "wire_ok (seqBase a) ?ts d m'"
      using eq base r(2) unat_seq [of "seqBase a" i] old by (auto simp: wire_ok_def)
    moreover have "acked_to (seqBase a) d (cv_ack (receiver L))"
      using old(1) base r(1) by (auto simp: acked_to_def word_le_nat_alt)
    moreover have "list_all (wire_ok (seqBase a) ?ts d) (wire L)"
      using old(3) by (auto simp: list_all_iff wire_ok_def)
    ultimately show ?thesis
      using inv old base r(2) f p(1) \<open>seqBase a \<noteq> 0\<close> by (auto simp: link_inv_def Let_def in_order_def)
  next
    case False
    then have same: "seqBase a = ?base" using p(2) by auto
    have ok: "wire_ok ?base ?ts d m' \<and> (?base = 0 \<longrightarrow> Seq m' = 0)"
    proof (cases "k = length ?ts")
      case True
      then show ?thesis using p(3) eq by (auto simp: wire_ok_def)
    next
      case neq: False
      then obtain i where "i < length ?ts" "Seq m = word_of_nat i + ?base" "UserText m = ?ts ! i" "Lowest m \<longrightarrow> i = k"
        using p(3) same by auto
      moreover have "unat ?base + length ?ts < 2 ^ 32" using inv by (auto simp: link_inv_def Let_def)
      ultimately show ?thesis
        using eq unat_seq [of ?base i] q(4) neq q(3) False by (auto simp: wire_ok_def)
    qed
    then show ?thesis
      using inv f p(1) same by (auto simp: link_inv_def Let_def)
  qed
qed

lemma inv_deliver:
  assumes inv: "link_inv L k d" and "m \<in> set (wire L)" and acc: "accept_payload lat m (receiver L) = (b, bodies)"
  shows "\<exists>d'. link_inv (L\<lparr>receiver := b, shown := shown L @ bodies\<rparr>) k d'"
proof -
  let ?ts = "texts L" and ?base = "seqBase (sender L)"
  have i: "in_order ?base ?ts d (inQueue (receiver L))" "unat ?base + length ?ts < 2 ^ 32" "d \<le> length ?ts" "k \<le> d"
    "wire_ok ?base ?ts d m" "shown L = map pad_text (take d ?ts)"
    using inv assms(2) by (auto simp: link_inv_def Let_def list_all_iff)
  show ?thesis
  proof (cases "?base = 0")
    case True
    then have "Seq m = 0" using inv assms(2) by (auto simp: link_inv_def Let_def list_all_iff)
    then have "bodies = []" "cv_ack b = cv_ack (receiver L)" "inQueue b = inQueue (receiver L)"
      using accept_receives [OF acc] by auto
    then show ?thesis using inv by (intro exI [of _ d]) (auto simp: link_inv_def Let_def)
  next
    case False
    then have "acked_to ?base d (cv_ack (receiver L))" using inv by (auto simp: link_inv_def Let_def)
    from deliver_payload [OF acc i(5,1) this i(2) False i(3)] obtain d' where
      d': "d \<le> d'" "d' \<le> length ?ts" "bodies = map pad_text (map ((!) ?ts) [d..<d'])"
      "acked_to ?base d' (cv_ack b)" "in_order ?base ?ts d' (inQueue b)"
      "unat (cv_ack (receiver L)) \<le> unat (cv_ack b)" by blast
    have "take d ?ts @ map ((!) ?ts) [d..<d'] = take d' ?ts"
      using d'(1,2) slice_map_nth [of d "d' - d" ?ts] take_add [of d "d' - d" ?ts] by (simp add: slice_def)
    then have "shown L @ bodies = map pad_text (take d' ?ts)"
      unfolding i(6) d'(3) map_append [symmetric] by simp
    then show ?thesis
      using inv d' i(4) False wire_ok_mono(2) [OF _ d'(1)]
      by (intro exI [of _ d']) (fastforce simp: link_inv_def Let_def list_all_iff)
  qed
qed

lemma inv_answer:
  assumes "link_inv L k d" and "next_payload r (receiver L) = (b, m)"
  shows "link_inv (L\<lparr>receiver := b, acks := acks L @ [Ack m]\<rparr>) k d"
  using assms(1) next_payload_fields [OF assms(2)] by (auto simp: link_inv_def Let_def)

lemma inv_hear_ack:
  assumes inv: "link_inv L k d" and "Ack m \<in> set (acks L)"
    and acc: "accept_payload lat m (sender L) = (a, bodies)"
  shows "\<exists>k'. link_inv (L\<lparr>sender := a\<rparr>) k' d"
proof -
  let ?ts = "texts L" and ?base = "seqBase (sender L)"
  have i: "outQueue (sender L) = queued ?ts k" "k \<le> d" "d \<le> length ?ts" "unat ?base + length ?ts < 2 ^ 32"
    "0 \<le> lastOut (sender L)" "unat (Ack m) \<le> unat (cv_ack (receiver L))"
    using inv assms(2) by (auto simp: link_inv_def Let_def list_all_iff)
  note f = accept_fields [OF acc i(5)]
  define k' where "k' = (if ?base = 0 then k else max k (min (length ?ts) (Suc (unat (Ack m)) - unat ?base)))"
  have "k \<le> length ?ts" using i(2,3) by simp
  then have q: "outQueue a = queued ?ts k'"
    unfolding f(1) i(1) k'_def using ack_loop_queued [OF _ i(4)] by (auto simp: ack_loop_filter)
  have "k' \<le> d"
  proof (cases "?base = 0")
    case False
    then have "acked_to ?base d (cv_ack (receiver L))" using inv by (auto simp: link_inv_def Let_def)
    then show ?thesis using i(2,6) False by (auto simp: k'_def acked_to_def split: if_splits)
  qed (use i(2) in \<open>simp add: k'_def\<close>)
  then show ?thesis using inv q f by (intro exI [of _ k']) (auto simp: link_inv_def Let_def)
qed

lemma link_step_inv: "link_step L L' \<Longrightarrow> link_inv L k d \<Longrightarrow> \<exists>k d. link_inv L' k d"
proof (induction rule: link_step.induct)
  case (type_text L t)
  then show ?case using inv_type_text by blast
next
  case (send round L a m m')
  then show ?case using inv_send by blast
next
  case (deliver m L lat b bodies)
  then show ?case using inv_deliver by blast
next
  case (answer round L b m)
  then show ?case using inv_answer by blast
next
  case (receiver_types L t)
  then have "link_inv (L\<lparr>receiver := queue_text t (receiver L)\<rparr>) k d"
    by (simp add: link_inv_def Let_def queue_text_def)
  then show ?case by blast
next
  case (hear_ack m L lat a bodies)
  then show ?case using inv_hear_ack by blast
qed

lemma link_reachable_inv: "link_reachable L \<Longrightarrow> \<exists>k d. link_inv L k d"
proof (induction rule: link_reachable.induct)
  case (fresh L)
  then show ?case
    by (intro exI [of _ 0]) (simp add: link_inv_def Let_def queued_def in_order_def)
next
  case (step L L')
  then show ?case using link_step_inv by blast
qed

lemma delivery_in_order:
  assumes "link_reachable L"
  shows "\<exists>d k. k \<le> d \<and> d \<le> length (texts L) \<and> shown L = map pad_text (take d (texts L)) \<and>
    map Msg (outQueue (sender L)) = drop k (texts L)"
proof -
  obtain k d where "link_inv L k d" using link_reachable_inv [OF assms] by blast
  then have "k \<le> d" "d \<le> length (texts L)" "shown L = map pad_text (take d (texts L))"
    "outQueue (sender L) = queued (texts L) k" by (auto simp: link_inv_def Let_def)
  moreover have "map ((!) (texts L)) [k..<length (texts L)] = drop k (texts L)"
    by (auto intro!: nth_equalityI)
  ultimately show ?thesis by (intro exI [of _ d] exI [of _ k]) (simp add: queued_def comp_def)
qed

section \<open>Properties\<close>

lemma TrimRight0_pad: "TrimRight0 (str_of (pad_text t)) = TrimRight0 (str_of (take 231 t))"
proof -
  have "pad_text t = take 231 t @ replicate (231 - length t) 0"
    by (cases "length t \<le> 231") (simp_all add: pad_text_def go_copy_def)
  moreover have "char_of (unat (0 :: byte)) = CHR 0x00" by (simp add: char_of_def)
  ultimately show ?thesis
    by (simp add: TrimRight0_def str_of_def dropWhile_append)
qed

text \<open>
  The 240 bytes of a conversation message carry the sequence number, the acknowledgement, the
  flag and the first 231 bytes of the text, padded with zeros; a text without trailing zeros
  that fits is displayed as it was typed, a longer one is cut.
\<close>

theorem convo_message_roundtrip:
  "length (cm_Marshal cm) = SizeMessageBody \<and>
   cm_Unmarshal (cm_Marshal cm) = Some (cm\<lparr>UserText := pad_text (UserText cm)\<rparr>) \<and>
   TrimRight0 (str_of (pad_text t)) = TrimRight0 (str_of (take SizeUserText t))"
  by (simp add: cm_roundtrip pad_text_def [symmetric] TrimRight0_pad SizeUserText_231)
    (simp add: cm_Marshal_append SizeMessageBody_def)

text \<open>
  Rolling a key forward in two steps is rolling it forward in one, so peers that rolled at
  different times agree; and a key is never rolled back: for an earlier round there is no key.
\<close>

theorem rollKey_forward:
  assumes "a \<le> b" and "b \<le> c"
  shows "obind (rollKey H k a b) (\<lambda>k'. rollKey H k' b c) = rollKey H k a c \<and>
    (a < b \<longrightarrow> rollKey H k b a = Ok None)"
  using rollKey_compose [OF assms] by (auto simp: rollKey_def)

definition toy_crypto :: convo_crypto where
  "toy_crypto = \<lparr>Sum256 = (\<lambda>b. go_copy (replicate 32 0) b), Sum512_256 = (\<lambda>b. go_copy (replicate 32 0) b),
     HmacSha256 = (\<lambda>k m. go_copy (replicate 32 0) (m @ k)),
     SecretSeal = (\<lambda>m n k. replicate 16 0 @ m),
     SecretOpen = (\<lambda>b n k. if 16 \<le> length b then Some (drop 16 b) else None)\<rparr>"

theorem rollKey_forward_witness:
  "obind (rollKey toy_crypto (Some [1]) 2 3) (\<lambda>k'. rollKey toy_crypto k' 3 5) = rollKey toy_crypto (Some [1]) 2 5"
  using rollKey_forward [of 2 3 5 toy_crypto "Some [1]"] by simp

text \<open>
  The caller and the callee of a conversation agree on the round its key starts at whenever the
  callee's latest round is at most one increment ahead of the caller's, as the comment on
  \<open>roundSyncer\<close> promises, provided the round numbers do not wrap.
\<close>

theorem roundSyncer_agreement:
  assumes "roundingIncrement rs \<noteq> 0" and "X \<le> roundingIncrement rs" and "unat r + unat X < 2 ^ 32"
  shows "\<exists>agreed intent. outgoingCallConvoRound rs r = Ok (agreed, intent) \<and>
    incomingCallConvoRound rs (r + X) intent = Ok agreed \<and> agreed \<le> r"
proof -
  let ?c = "roundingIncrement rs"
  have out: "outgoingCallConvoRound rs r = Ok (r div ?c * ?c, uint ((r div ?c) mod 2))"
    using assms(1) by (simp add: outgoingCallConvoRound_def epochStart_def Let_def)
  moreover have "r div ?c * ?c \<le> r"
  proof -
    have "unat r div unat ?c * unat ?c \<le> unat r" by simp
    then show ?thesis
      using mod_less_eq_dividend [THEN order_trans]
      by (simp add: word_le_nat_alt unat_word_ariths(2) unat_div32)
  qed
  ultimately show ?thesis using roundSyncer_agree [OF assms out] by blast
qed

theorem roundSyncer_agreement_witness:
  "\<exists>agreed intent. outgoingCallConvoRound stdRoundSyncer 12345 = Ok (agreed, intent) \<and>
    incomingCallConvoRound stdRoundSyncer 22345 intent = Ok agreed"
  using roundSyncer_agreement [of stdRoundSyncer 10000 12345] by (auto simp: stdRoundSyncer_def)


definition toy_convo :: "string \<Rightarrow> string \<Rightarrow> conversation" where
  "toy_convo me peer =
     \<lparr>peerUsername = peer, myUsername = me, view = Some [], cv_rounds = Map.empty, pendingCall = None,
      outQueue = [], lastOut = 0, inQueue = [], relativeSeq = 0, seqBase = 0, cv_ack = 0,
      sessionKey = Some (replicate 32 1), sessionKeyRound = 5, lastPeerResponding = False, lastLatency = 0,
      lastRound = 0, unread = False, focused = False\<rparr>"

definition toy_link :: link where
  "toy_link = \<lparr>sender = toy_convo ''alice'' ''bob'', receiver = toy_convo ''bob'' ''alice'', wire = [],
     acks = [], texts = [], shown = []\<rparr>"


lemma NextMessage_keyed:
  assumes "secretbox_ok H" and "rollKey H (sessionKey c) (sessionKeyRound c) r = Ok (Some k)"
    and "next_payload r (c\<lparr>lastRound := r\<rparr>) = (c1, msg)"
  shows "NextMessage H dummy now r c =
    Ok (c1\<lparr>sessionKey := Some k, sessionKeyRound := r, cv_rounds := (cv_rounds c1)(r \<mapsto>
          \<lparr>sentMessage = cv_Seal H c (cm_Marshal msg) r k, roundKey = k, created = now\<rparr>)\<rparr>,
        \<lparr>DeadDrop = deadDrop H r k, EncryptedMessage = cv_Seal H c (cm_Marshal msg) r k\<rparr>)"
proof -
  have "sessionKey c1 = sessionKey c" "sessionKeyRound c1 = sessionKeyRound c" "peerUsername c1 = peerUsername c"
    using assms(3) by (auto simp: next_payload_def Let_def split: if_splits)
  moreover have "length (cv_Seal H c (cm_Marshal msg) r k) = SizeEncryptedMessageBody"
    using assms(1) by (simp add: cv_Seal_def secretbox_ok_def cm_Marshal_append convo_sizes)
  ultimately show ?thesis
    using assms(2,3) by (simp add: NextMessage_def rollAndReplaceKey_def cv_Seal_def Let_def)
qed

lemma meet_in_dead_drop:
  assumes "secretbox_ok H" and "peerUsername A = myUsername B" and "peerUsername B = myUsername A"
    and "rollKey H (sessionKey A) (sessionKeyRound A) r = Ok (Some k)"
    and "rollKey H (sessionKey B) (sessionKeyRound B) r = Ok (Some k)"
  shows "\<exists>A' B' mA mB. NextMessage H dA now r A = Ok (A', mA) \<and> NextMessage H dB now r B = Ok (B', mB) \<and>
    DeadDrop mA = DeadDrop mB \<and> length (DeadDrop mA) = 16 \<and>
    length (EncryptedMessage mA) = SizeEncryptedMessageBody \<and>
    cv_Open H A' (EncryptedMessage mB) r k = Some (cm_Marshal (snd (next_payload r (B\<lparr>lastRound := r\<rparr>)))) \<and>
    lastPeerResponding (cv_Reply H col clk later r (EncryptedMessage mB) A') =
      (EncryptedMessage mB \<noteq> EncryptedMessage mA \<or> Solo A)"
proof -
  obtain A1 a where a: "next_payload r (A\<lparr>lastRound := r\<rparr>) = (A1, a)" by fastforce
  obtain B1 b where b: "next_payload r (B\<lparr>lastRound := r\<rparr>) = (B1, b)" by fastforce
  note nA = NextMessage_keyed [OF assms(1,4) a, of dA now] and nB = NextMessage_keyed [OF assms(1,5) b, of dB now]
  have names: "myUsername A1 = myUsername A" "peerUsername A1 = peerUsername A"
    using a by (auto simp: next_payload_def Let_def split: if_splits)
  have op: "SecretOpen H (cv_Seal H B (cm_Marshal b) r k) (name_nonce H r (myUsername A)) k = Some (cm_Marshal b)"
    using assms(1,3) by (simp add: cv_Seal_def secretbox_ok_def)
  have len: "length (cv_Seal H A (cm_Marshal a) r k) = SizeEncryptedMessageBody"
    using assms(1) by (simp add: cv_Seal_def secretbox_ok_def cm_Marshal_append convo_sizes)
  have solo: "peerUsername A1 = myUsername A1 \<longleftrightarrow> peerUsername A = myUsername A" by (simp add: names)
  show ?thesis
    unfolding nA nB
    by (simp add: cv_Open_def names op b len deadDrop_def cv_Reply_def Let_def Solo_def cm_roundtrip
        split: prod.splits)
qed

text \<open>
  Peers that hold the same key meet: in the same round both write to the same dead drop,
  messages of the right size, and each opens what the other sent and takes the other to be
  responding, unless it got its own message back.
\<close>

theorem peers_meet:
  assumes "secretbox_ok H" and "peerUsername A = myUsername B" and "peerUsername B = myUsername A"
    and "rollKey H (sessionKey A) (sessionKeyRound A) r = Ok (Some k)"
    and "rollKey H (sessionKey B) (sessionKeyRound B) r = Ok (Some k)"
  shows "\<exists>A' B' mA mB. NextMessage H dA now r A = Ok (A', mA) \<and> NextMessage H dB now r B = Ok (B', mB) \<and>
    DeadDrop mA = DeadDrop mB \<and> length (DeadDrop mA) = 16 \<and>
    length (EncryptedMessage mA) = SizeEncryptedMessageBody \<and>
    cv_Open H A' (EncryptedMessage mB) r k = Some (cm_Marshal (snd (next_payload r (B\<lparr>lastRound := r\<rparr>)))) \<and>
    lastPeerResponding (cv_Reply H col clk later r (EncryptedMessage mB) A') =
      (EncryptedMessage mB \<noteq> EncryptedMessage mA \<or> Solo A)"
  using assms by (rule meet_in_dead_drop)

lemma toy_crypto_ok: "secretbox_ok toy_crypto"
  by (simp add: secretbox_ok_def toy_crypto_def)

theorem peers_meet_witness:
  "\<exists>A' B' mA mB. NextMessage toy_crypto \<lparr>DeadDrop = [], EncryptedMessage = []\<rparr> 0 7 (toy_convo ''alice'' ''bob'') = Ok (A', mA) \<and>
    NextMessage toy_crypto \<lparr>DeadDrop = [], EncryptedMessage = []\<rparr> 0 7 (toy_convo ''bob'' ''alice'') = Ok (B', mB) \<and>
    DeadDrop mA = DeadDrop mB"
proof -
  let ?a = "toy_convo ''alice'' ''bob''" and ?b = "toy_convo ''bob'' ''alice''"
  have names: "peerUsername ?a = myUsername ?b" "peerUsername ?b = myUsername ?a"
    by (simp_all add: toy_convo_def)
  have "rollKey toy_crypto (sessionKey (toy_convo x y)) (sessionKeyRound (toy_convo x y)) 7 =
      Ok (Some (fold (roll_step toy_crypto) [5..<7] (replicate 32 1)))" for x y
    by (simp add: toy_convo_def rollKey_def)
  from peers_meet [OF toy_crypto_ok names this this] show ?thesis by blast
qed

text \<open>
  Forgetting old rounds: from round 10 on a reply keeps exactly the later rounds and the ten
  before it; below round 10 the subtraction wraps and every round the client can be waiting for
  is forgotten, so replies of rounds in flight are lost.
\<close>

theorem prune_rounds_window:
  "(10 \<le> unat round \<longrightarrow> prune_rounds round m r =
      (if r = round \<or> unat r + 10 < unat round then None else m r)) \<and>
   (unat round < 10 \<and> unat r < 4294967286 \<longrightarrow> prune_rounds round m r = None)"
proof (intro conjI impI)
  assume "10 \<le> unat round"
  then have "unat (round - 10) = unat round - 10"
    by (simp add: unat_sub word_le_nat_alt)
  with \<open>10 \<le> unat round\<close> show "prune_rounds round m r =
      (if r = round \<or> unat r + 10 < unat round then None else m r)"
    by (auto simp: prune_rounds_def word_less_nat_alt)
next
  assume "unat round < 10 \<and> unat r < 4294967286"
  have minus: "(4294967286 :: u32) = - 10" by simp
  have sub: "round - 10 = round + 4294967286" unfolding minus by simp
  have "unat (round - 10) = unat round + 4294967286"
    unfolding sub using \<open>unat round < 10 \<and> unat r < 4294967286\<close> unat_add_exact [of round 4294967286] by simp
  with \<open>unat round < 10 \<and> unat r < 4294967286\<close> show "prune_rounds round m r = None"
    by (auto simp: prune_rounds_def word_less_nat_alt)
qed

theorem prune_rounds_window_witness:
  "prune_rounds 5 [6 \<mapsto> \<lparr>sentMessage = [], roundKey = [], created = 0\<rparr>] 6 = None"
  using prune_rounds_window [of 5 "[6 \<mapsto> \<lparr>sentMessage = [], roundKey = [], created = 0\<rparr>]" 6] by simp

end
