(* ===== verification/Conversation_Live.thy ===== *)
theory Conversation_Live
  imports Conversation
begin

text \<open>
  What the retransmission scheme of \<open>NextMessage\<close> and \<open>Reply\<close> (\<open>conversation.go\<close>) promises beyond
  safety: an abstract first-in first-out channel that every step of a link refines, and a bound on
  the rounds without loss after which every typed text is displayed and acknowledged. In a round
  both clients build their messages before either sees the other's, so an acknowledgement is a
  round late.
\<close>

section \<open>The abstract channel\<close>

record channel =
  pending :: "bytes list"
  delivered :: "bytes list"

inductive channel_step :: "channel \<Rightarrow> channel \<Rightarrow> bool" where
  enqueue: "channel_step C (C\<lparr>pending := pending C @ [t]\<rparr>)"
| dequeue: "pending C = ts @ rest \<Longrightarrow>
    channel_step C (C\<lparr>pending := rest, delivered := delivered C @ map pad_text ts\<rparr>)"

definition channel_of :: "link \<Rightarrow> channel" where
  "channel_of L = \<lparr>pending = drop (length (shown L)) (texts L), delivered = shown L\<rparr>"

lemma channel_of_inv:
  assumes "link_inv L k d"
  shows "channel_of L = \<lparr>pending = drop d (texts L), delivered = map pad_text (take d (texts L))\<rparr>"
    and "length (shown L) = d"
  using assms by (auto simp: channel_of_def link_inv_def Let_def)

lemma link_step_channel:
  assumes "link_step L L'" and "link_inv L k d" and "link_inv L' k' d'"
  shows "channel_step (channel_of L) (channel_of L')"
proof -
  have stutter: "channel_step C C" for C :: channel
    using dequeue [of C "[]" "pending C"] by simp
  from assms(1) show ?thesis
  proof (cases rule: link_step.cases)
    case (type_text t)
    have "length (shown L) \<le> length (texts L)"
      using assms(2) by (auto simp: link_inv_def Let_def)
    then have "channel_of L' = (channel_of L)\<lparr>pending := pending (channel_of L) @ [t]\<rparr>"
      using type_text by (simp add: channel_of_def)
    then show ?thesis using enqueue by simp
  next
    case (deliver m lat b bodies)
    have d: "d \<le> d'" "d' \<le> length (texts L)" "texts L' = texts L"
      using channel_of_inv(2) [OF assms(2)] channel_of_inv(2) [OF assms(3)] deliver assms(3)
      by (auto simp: link_inv_def Let_def)
    have "drop d (texts L) = take (d' - d) (drop d (texts L)) @ drop d' (texts L)"
      using d(1) append_take_drop_id [of "d' - d" "drop d (texts L)"] by simp
    moreover have "take d' (texts L) = take d (texts L) @ take (d' - d) (drop d (texts L))"
      using d(1) take_add [of d "d' - d" "texts L"] by simp
    ultimately show ?thesis
      using dequeue [of "channel_of L" "take (d' - d) (drop d (texts L))" "drop d' (texts L)"]
      by (simp add: channel_of_inv(1) [OF assms(2)] channel_of_inv(1) [OF assms(3)] d(3))
  qed (use stutter in \<open>simp_all add: channel_of_def\<close>)
qed

section \<open>A round without loss\<close>

definition exchange :: "u32 \<Rightarrow> link \<Rightarrow> link" where
  "exchange round L =
     (case next_payload round (sender L) of (a, m) \<Rightarrow>
      case next_payload round (receiver L) of (b, n) \<Rightarrow>
      case accept_payload 0 (m\<lparr>UserText := pad_text (UserText m)\<rparr>) b of (b', bodies) \<Rightarrow>
      case accept_payload 0 (n\<lparr>UserText := pad_text (UserText n)\<rparr>) a of (a', _) \<Rightarrow>
        L\<lparr>sender := a', receiver := b', wire := wire L @ [m\<lparr>UserText := pad_text (UserText m)\<rparr>],
          acks := acks L @ [Ack n], shown := shown L @ bodies\<rparr>)"

definition exchanges :: "u32 list \<Rightarrow> link \<Rightarrow> link" where
  "exchanges rs L = fold exchange rs L"

text \<open>The first round of a sender with a text fixes its sequence numbers, which must not wrap.\<close>

definition first_round_ok :: "u32 list \<Rightarrow> link \<Rightarrow> bool" where
  "first_round_ok rs L \<longleftrightarrow>
     (case rs of [] \<Rightarrow> True
      | r # _ \<Rightarrow> seqBase (sender L) = 0 \<longrightarrow>
          cv_ack (receiver L) \<le> r \<and> unat r + 1 + length (texts L) < 2 ^ 32)"

lemma exchange_steps:
  assumes "first_round_ok [r] L"
  shows "link_step\<^sup>*\<^sup>* L (exchange r L)"
proof -
  obtain a m where np: "next_payload r (sender L) = (a, m)" by fastforce
  obtain b n where ans: "next_payload r (receiver L) = (b, n)" by fastforce
  let ?m = "m\<lparr>UserText := pad_text (UserText m)\<rparr>" and ?n = "n\<lparr>UserText := pad_text (UserText n)\<rparr>"
  obtain b' bodies where accb: "accept_payload 0 ?m b = (b', bodies)" by fastforce
  obtain a' bs where acca: "accept_payload 0 ?n a = (a', bs)" by fastforce
  let ?L1 = "L\<lparr>sender := a, wire := wire L @ [?m]\<rparr>"
  let ?L2 = "?L1\<lparr>receiver := b, acks := acks ?L1 @ [Ack n]\<rparr>"
  let ?L3 = "?L2\<lparr>receiver := b', shown := shown ?L2 @ bodies\<rparr>"
  have 1: "link_step L ?L1"
    using assms np by (intro link_step.send) (auto simp: cm_roundtrip pad_text_def first_round_ok_def)
  have 2: "link_step ?L1 ?L2" using ans by (intro link_step.answer) simp
  have 3: "link_step ?L2 ?L3" using accb by (intro link_step.deliver) auto
  have 4: "link_step ?L3 (?L3\<lparr>sender := a'\<rparr>)"
    using acca by (intro link_step.hear_ack [where m = ?n]) auto
  have "?L3\<lparr>sender := a'\<rparr> = exchange r L"
    using np ans accb acca by (simp add: exchange_def)
  then show ?thesis
    using 1 2 3 4 by (metis (no_types, lifting) converse_rtranclp_into_rtranclp rtranclp.rtrancl_refl)
qed

section \<open>Progress\<close>

lemma ack_loop_keeps:
  "length (fst (ack_loop base a q lo)) = length q \<Longrightarrow> snd (ack_loop base a q lo) = lo"
proof (induction q arbitrary: lo)
  case (Cons out q)
  have "length (fst (ack_loop base a q lo)) \<noteq> Suc (length q)" for lo
    using length_filter_le [of _ q] by (metis ack_loop_filter not_less_eq_eq order_refl)
  then show ?case using Cons by (auto simp: case_prod_unfold split: if_splits)
qed simp

lemma accept_lastOut:
  assumes "accept_payload lat m c = (c', bodies)" and "length (outQueue c') = length (outQueue c)"
  shows "lastOut c' = lastOut c"
  using assms ack_loop_keeps [of "seqBase c" "Ack m" "outQueue c" "lastOut c"]
  by (auto simp: accept_payload_def Let_def split: prod.splits if_splits)

lemma accept_lowest:
  assumes "accept_payload lat m c = (c', bodies)" and "Lowest m" and "cv_ack c < Seq m"
  shows "bodies \<noteq> []"
  using assms by (auto simp: accept_payload_def Let_def take_run.simps [of "Seq m - 1"] split: prod.splits)

lemma next_payload_lastOut:
  assumes "next_payload r c = (c', m)" and "outQueue c \<noteq> []" and "0 \<le> lastOut c"
  shows "if lastOut c + 1 < int (length (outQueue c)) then lastOut c' = lastOut c + 1
    else Lowest m \<and> Seq m = RelativeSeq (hd (outQueue c)) + seqBase c'"
  using assms by (auto simp: next_payload_def Let_def hd_conv_nth split: if_splits)

text \<open>
  The sender is behind by one round when the receiver has displayed more than was acknowledged;
  otherwise the head of its queue is sent again after at most a pass over the queue.
\<close>

definition rank :: "nat \<Rightarrow> nat \<Rightarrow> bool \<Rightarrow> nat" where
  "rank n lo behind = (if n = 0 then 0 else n * (n + 1) + (if behind then 1 else max 1 (n - lo) + 1))"

lemma rank_bound: "rank n lo behind \<le> n * (n + 1) + n + 1"
  by (auto simp: rank_def max_def)

lemma rank_shrinks: "n' < n \<Longrightarrow> rank n' lo' behind' < rank n lo behind"
proof -
  assume n: "n' < n"
  have "rank n' lo' behind' \<le> n' * (n' + 1) + n' + 1" by (rule rank_bound)
  also have "... < (n' + 1) * (n' + 1 + 1) + 1" by simp
  also have "... \<le> n * (n + 1) + 1"
    using n by (intro add_right_mono mult_le_mono) auto
  also have "... \<le> rank n lo behind" using n by (simp add: rank_def)
  finally show ?thesis .
qed

lemma rank_waits:
  "0 < n \<Longrightarrow> rank n lo' True < rank n lo False"
  "lo + 1 < n \<Longrightarrow> rank n (lo + 1) False < rank n lo False"
  by (auto simp: rank_def max_def)

definition link_rank :: "nat \<Rightarrow> nat \<Rightarrow> link \<Rightarrow> nat" where
  "link_rank k d L = rank (length (texts L) - k) (nat (lastOut (sender L))) (k < d)"

lemma acknowledged:
  assumes "accept_payload lat m a = (a', bs)" and "Ack m = ack"
    and "outQueue a = queued ts k" and "outQueue a' = queued ts k'" and "0 \<le> lastOut a"
    and "acked_to (seqBase a) d ack" and "unat (seqBase a) + length ts < 2 ^ 32" and "seqBase a \<noteq> 0"
    and "k \<le> d" and "d \<le> length ts" and "k' \<le> length ts"
  shows "k' = d"
proof -
  have "k \<le> length ts" using assms by simp
  then have "queued ts k' = queued ts (max k (min (length ts) (Suc (unat ack) - unat (seqBase a))))"
    using accept_fields(1) [OF assms(1,5)] ack_loop_queued [OF _ assms(7,8)] assms(2-4) by simp
  also have "max k (min (length ts) (Suc (unat ack) - unat (seqBase a))) = d"
    using assms(6,9,10) by (auto simp: acked_to_def split: if_splits)
  finally have "length (queued ts k') = length (queued ts d)" by simp
  then show ?thesis using assms(10,11) by (simp add: queued_def)
qed

lemma lowest_displays:
  assumes "accept_payload lat m b = (b', bodies)" and "Lowest m"
    and "Seq m = word_of_nat d + base" and "unat base + d < 2 ^ 32" and "acked_to base d (cv_ack b)" and "base \<noteq> 0"
  shows "bodies \<noteq> []"
proof -
  have "unat (cv_ack b) < unat (Seq m)"
    using assms(3-6) unat_seq [of base d] unat_gt_0 [of base] by (auto simp: acked_to_def split: if_splits)
  then show ?thesis using accept_lowest [OF assms(1,2)] by (simp add: word_less_nat_alt)
qed

text \<open>The four steps of a round without loss, with what the invariant says about each.\<close>

lemma exchange_run:
  assumes inv: "link_inv L k d" and first: "first_round_ok [r] L"
  obtains a m b n b' bodies a' bs k' d' where
    "next_payload r (sender L) = (a, m)" "next_payload r (receiver L) = (b, n)"
    "accept_payload 0 (m\<lparr>UserText := pad_text (UserText m)\<rparr>) b = (b', bodies)"
    "accept_payload 0 (n\<lparr>UserText := pad_text (UserText n)\<rparr>) a = (a', bs)"
    "sender (exchange r L) = a'" "texts (exchange r L) = texts L"
    "link_inv (L\<lparr>sender := a, wire := wire L @ [m\<lparr>UserText := pad_text (UserText m)\<rparr>]\<rparr>) k d"
    "link_inv (exchange r L) k' d'" "d' = d + length bodies"
proof -
  obtain a m where np: "next_payload r (sender L) = (a, m)" by fastforce
  obtain b n where ans: "next_payload r (receiver L) = (b, n)" by fastforce
  let ?m = "m\<lparr>UserText := pad_text (UserText m)\<rparr>" and ?n = "n\<lparr>UserText := pad_text (UserText n)\<rparr>"
  obtain b' bodies where accb: "accept_payload 0 ?m b = (b', bodies)" by fastforce
  obtain a' bs where acca: "accept_payload 0 ?n a = (a', bs)" by fastforce
  let ?L1 = "L\<lparr>sender := a, wire := wire L @ [?m]\<rparr>"
  let ?L2 = "?L1\<lparr>receiver := b, acks := acks ?L1 @ [Ack n]\<rparr>"
  let ?L3 = "?L2\<lparr>receiver := b', shown := shown ?L2 @ bodies\<rparr>"
  have ex: "exchange r L = ?L3\<lparr>sender := a'\<rparr>" using np ans accb acca by (simp add: exchange_def)
  have i1: "link_inv ?L1 k d"
    by (rule inv_send [OF inv np]) (use first in \<open>auto simp: cm_roundtrip pad_text_def first_round_ok_def\<close>)
  have i2: "link_inv ?L2 k d" using inv_answer [OF i1] ans by simp
  obtain d' where i3: "link_inv ?L3 k d'" using inv_deliver [OF i2 _ _] accb by fastforce
  obtain k' where i4: "link_inv (exchange r L) k' d'"
    using inv_hear_ack [OF i3, of ?n] acca ex by fastforce
  have "d' = d + length bodies" using channel_of_inv(2) [OF inv] channel_of_inv(2) [OF i3] by simp
  with np ans accb acca ex i1 i4 show thesis by (intro that) simp_all
qed

lemma first_base:
  assumes "next_payload r (sender L) = (a, m)" and "link_inv L k d" and "first_round_ok [r] L" and "k < length (texts L)"
  shows "seqBase a \<noteq> 0"
proof (cases "seqBase (sender L) = 0")
  case True
  then have "unat (r + 1) = unat r + 1" using assms(3) unat_add_exact [of r 1] by (simp add: first_round_ok_def)
  then have "r + 1 \<noteq> 0" by (metis Suc_eq_plus1 nat.distinct(1) unat_0)
  then show ?thesis
    using next_payload_queued(2) [OF assms(1)] assms(2,4) True by (simp add: link_inv_def Let_def)
qed (use next_payload_queued(2) [OF assms(1)] assms(2,4) in \<open>simp add: link_inv_def Let_def\<close>)

lemma exchange_progress:
  assumes inv: "link_inv L k d" and first: "first_round_ok [r] L" and "k < length (texts L)"
  shows "\<exists>k' d'. link_inv (exchange r L) k' d' \<and> texts (exchange r L) = texts L \<and>
    seqBase (sender (exchange r L)) \<noteq> 0 \<and> link_rank k' d' (exchange r L) < link_rank k d L"
proof -
  let ?ts = "texts L"
  obtain a m b n b' bodies a' bs k' d' where np: "next_payload r (sender L) = (a, m)"
    and ans: "next_payload r (receiver L) = (b, n)"
    and accb: "accept_payload 0 (m\<lparr>UserText := pad_text (UserText m)\<rparr>) b = (b', bodies)"
    and acca: "accept_payload 0 (n\<lparr>UserText := pad_text (UserText n)\<rparr>) a = (a', bs)"
    and ex: "sender (exchange r L) = a'" "texts (exchange r L) = ?ts"
    and i1: "link_inv (L\<lparr>sender := a, wire := wire L @ [m\<lparr>UserText := pad_text (UserText m)\<rparr>]\<rparr>) k d"
    and i4: "link_inv (exchange r L) k' d'" and d': "d' = d + length bodies"
    by (rule exchange_run [OF inv first])
  have base: "seqBase a \<noteq> 0" using np inv first assms(3) by (rule first_base)
  have q: "outQueue (sender L) = queued ?ts k" "outQueue a = queued ?ts k" "outQueue a' = queued ?ts k'"
    "0 \<le> lastOut (sender L)" "0 \<le> lastOut a" "k \<le> d" "d \<le> length ?ts" "k' \<le> length ?ts"
    using inv i1 i4 ex by (auto simp: link_inv_def Let_def)
  have ack: "acked_to (seqBase a) d (cv_ack (receiver L))" "unat (seqBase a) + length ?ts < 2 ^ 32"
    using i1 base by (auto simp: link_inv_def Let_def)
  have k': "k' = d"
    by (rule acknowledged [OF acca _ q(2,3,5) ack base q(6-8)]) (simp add: next_payload_fields(1) [OF ans])
  have "rank (length ?ts - d) (nat (lastOut a')) (d < d') < rank (length ?ts - k) (nat (lastOut (sender L))) (k < d)"
  proof (cases "k < d")
    case True
    then show ?thesis using rank_shrinks assms(3) by simp
  next
    case False
    then have same: "k = d" using q(6) by simp
    have lo: "lastOut a' = lastOut a" using accept_lastOut [OF acca] q(2,3) k' same by simp
    have len: "length (outQueue (sender L)) = length ?ts - k" "outQueue (sender L) \<noteq> []"
      using assms(3) by (auto simp: q(1) queued_def)
    note adv = next_payload_lastOut [OF np len(2) q(4)]
    show ?thesis
    proof (cases "d < d'")
      case True
      then show ?thesis using rank_waits(1) assms(3) same by simp
    next
      case False
      then have "bodies = []" using d' by simp
      have "lastOut (sender L) + 1 < int (length ?ts - k)"
      proof (rule ccontr)
        assume "\<not> ?thesis"
        then have "Lowest m" "Seq m = word_of_nat d + seqBase a"
          using adv len assms(3) same by (auto simp: q(1) queued_def hd_map)
        then show False using next_payload_fields(2) [OF ans] ack base assms(3) same \<open>bodies = []\<close>
          lowest_displays [OF accb, of d "seqBase a"] by auto
      qed
      then have "nat (lastOut a') = nat (lastOut (sender L)) + 1" "nat (lastOut (sender L)) + 1 < length ?ts - k"
        using lo adv len(1) q(4) by auto
      then show ?thesis using rank_waits(2) False same by simp
    qed
  qed
  then show ?thesis
    using i4 base accept_fields(2) [OF acca q(5)] ex k' by (intro exI [of _ k'] exI [of _ d']) (simp add: link_rank_def)
qed

lemma next_payload_idle: "outQueue c = [] \<Longrightarrow> next_payload r c = (c', m) \<Longrightarrow> c' = c \<and> Seq m = 0"
  by (auto simp: next_payload_def)

lemma exchange_idle:
  assumes "outQueue (sender L) = []"
  shows "outQueue (sender (exchange r L)) = [] \<and> texts (exchange r L) = texts L \<and>
    shown (exchange r L) = shown L"
proof -
  obtain a m where np: "next_payload r (sender L) = (a, m)" by fastforce
  obtain b n where ans: "next_payload r (receiver L) = (b, n)" by fastforce
  let ?m = "m\<lparr>UserText := pad_text (UserText m)\<rparr>" and ?n = "n\<lparr>UserText := pad_text (UserText n)\<rparr>"
  obtain b' bodies where accb: "accept_payload 0 ?m b = (b', bodies)" by fastforce
  obtain a' bs where acca: "accept_payload 0 ?n a = (a', bs)" by fastforce
  have "a = sender L" "Seq ?m = 0" using next_payload_idle [OF assms np] by auto
  then have "outQueue a' = []" "bodies = []"
    using acca accept_receives [OF accb] assms by (auto simp: accept_payload_def Let_def split: prod.splits if_splits)
  then show ?thesis using np ans accb acca by (simp add: exchange_def)
qed

lemma exchanges_idle:
  assumes "outQueue (sender L) = []"
  shows "outQueue (sender (exchanges rs L)) = [] \<and> texts (exchanges rs L) = texts L \<and>
    shown (exchanges rs L) = shown L"
  using assms
proof (induction rs arbitrary: L)
  case (Cons r rs)
  then show ?case using exchange_idle [OF Cons.prems, of r] by (simp add: exchanges_def)
qed (simp add: exchanges_def)

lemma link_inv_queue: "link_inv L k d \<Longrightarrow> length (outQueue (sender L)) = length (texts L) - k"
  by (simp add: link_inv_def Let_def queued_def)

lemma exchanges_drain:
  assumes "link_inv L k d" and "first_round_ok rs L" and "link_rank k d L \<le> length rs"
  shows "outQueue (sender (exchanges rs L)) = [] \<and> texts (exchanges rs L) = texts L \<and>
    shown (exchanges rs L) = map pad_text (texts L)"
  using assms
proof (induction rs arbitrary: L k d)
  case idle: Nil
  then have "outQueue (sender L) = []" "k = length (texts L)"
    using link_inv_queue [OF idle(1)] by (auto simp: link_rank_def rank_def link_inv_def Let_def split: if_splits)
  then show ?case using idle(1) by (auto simp: exchanges_def link_inv_def Let_def)
next
  case (Cons r rs)
  show ?case
  proof (cases "k < length (texts L)")
    case False
    then have "outQueue (sender L) = []" "shown L = map pad_text (texts L)"
      using link_inv_queue [OF Cons.prems(1)] Cons.prems(1) by (auto simp: link_inv_def Let_def)
    then show ?thesis using exchanges_idle by simp
  next
    case True
    have "first_round_ok [r] L" using Cons.prems(2) by (simp add: first_round_ok_def)
    from exchange_progress [OF Cons.prems(1) this True] obtain k' d' where
      *: "link_inv (exchange r L) k' d'" "texts (exchange r L) = texts L"
      "seqBase (sender (exchange r L)) \<noteq> 0" "link_rank k' d' (exchange r L) < link_rank k d L" by blast
    then have "first_round_ok rs (exchange r L)" "link_rank k' d' (exchange r L) \<le> length rs"
      using Cons.prems(3) by (auto simp: first_round_ok_def split: list.splits)
    then show ?thesis using Cons.IH [OF *(1)] *(2) by (simp add: exchanges_def)
  qed
qed

section \<open>Properties\<close>





end
