(* ===== verification/Gui_Client.thy ===== *)
theory Gui_Client
  imports Conversation Convo_Client
begin

text \<open>
  The user's side of the client (\<open>cmd/gjallarhorn-client/gui.go\<close>, \<open>alpenhorn.go\<close>): the conversations
  of a user, which of them take part in a round, how replies find their conversation, the windows,
  and the callbacks of the two protocols. The user interface library \<open>gocui\<close>, the desktop
  notifications and the friends protocol \<open>neverlur\<close> are inputs and logs: a view is the list of texts
  the program wrote to it, and calls out of the program are recorded.
\<close>

section \<open>State\<close>

definition NumOutgoing :: nat where
  "NumOutgoing = 5"

datatype ui_err = ErrQuit | ErrUnknownView | SetViewFailed

text \<open>What a user interface call to the friends protocol asks for.\<close>

datatype alpenhorn_call = CallFriend string | SendFriendRequest string | RemoveFriend string
  | ApproveRequest string | UpdateIntent string int | RegisterPKG string string

text \<open>
  Conversations are shared pointers: \<open>gc_store\<close> maps a pointer below \<open>gc_next\<close> to its conversation.
  A map that is only used as a set, \<open>active\<close>, is the list of its keys. \<open>gc_views\<close> holds the texts
  written to each view that was created, \<open>gc_stack\<close> the views brought to the top, the topmost first;
  \<open>gc_exit\<close> is the error that ended the main loop, \<open>gc_connected\<close> whether \<open>connectOnce\<close> ran.
\<close>

record gui =
  gc_myName :: string
  gc_views :: "string \<rightharpoonup> string list"
  gc_stack :: "string list"
  gc_store :: "nat \<Rightarrow> conversation"
  gc_next :: nat
  gc_selected :: "nat option"
  gc_conversations :: "nat list"
  gc_active :: "nat list"
  gc_pending :: "u32 \<rightharpoonup> nat list"
  gc_mainUnread :: bool
  gc_connected :: bool
  gc_alpenhorn :: "alpenhorn_call list"
  gc_notes :: "string list"
  gc_exit :: "ui_err option"

record log_entry =
  le_Info :: bool
  le_Color :: ansi_code
  le_Icon :: string
  le_Time :: string
  le_Message :: string
  le_Fields :: string

text \<open>
  The surroundings of a call: hashes and boxes, colours, the time of day and the clock, the random
  messages of a round, the order in which Go iterates over a map, \<open>strconv.Quote\<close>, the names for
  which \<open>SetView\<close> fails, the \<open>-debug\<close> flag, the log entry made of an error, and the parts of an
  error's text that come from elsewhere (a cause, a duration, the encoding of a key).
\<close>

record gui_env =
  ge_crypto :: convo_crypto
  ge_col :: colorf
  ge_clock :: string
  ge_now :: nat
  ge_dummy :: "u32 \<Rightarrow> nat \<Rightarrow> dead_drop_message"
  ge_order :: "nat list \<Rightarrow> nat list"
  ge_Quote :: "string \<Rightarrow> string"
  ge_SetViewFails :: "string \<Rightarrow> bool"
  ge_debug :: bool
  ge_entry :: "string \<Rightarrow> log_entry"
  ge_detail :: "client_err \<Rightarrow> string"

definition zero_convo :: conversation where
  "zero_convo =
     \<lparr>peerUsername = [], myUsername = [], view = None, cv_rounds = Map.empty, pendingCall = None,
      outQueue = [], lastOut = 0, inQueue = [], relativeSeq = 0, seqBase = 0, cv_ack = 0,
      sessionKey = None, sessionKeyRound = 0, lastPeerResponding = False, lastLatency = 0,
      lastRound = 0, unread = False, focused = False\<rparr>"

text \<open>The client as \<open>main\<close> builds it.\<close>

definition new_gui :: "string \<Rightarrow> gui" where
  "new_gui name =
     \<lparr>gc_myName = name, gc_views = Map.empty, gc_stack = [], gc_store = (\<lambda>_. zero_convo), gc_next = 0,
      gc_selected = None, gc_conversations = [], gc_active = [], gc_pending = Map.empty, gc_mainUnread = False,
      gc_connected = False, gc_alpenhorn = [], gc_notes = [], gc_exit = None\<rparr>"

text \<open>Iterating over a map visits every key once, in an order the language leaves open.\<close>

definition order_ok :: "gui_env \<Rightarrow> bool" where
  "order_ok E \<longleftrightarrow> (\<forall>ps. mset (ge_order E ps) = mset ps)"

abbreviation nl :: string where "nl \<equiv> [CHR 0x0A]"

definition ViewName :: "conversation \<Rightarrow> string" where
  "ViewName c = peerUsername c"

text \<open>
  A method of the conversation at \<open>p\<close>. It finds its view by name, so two conversations of the same
  name write to the same view.
\<close>

definition on_convo :: "(conversation \<Rightarrow> conversation) \<Rightarrow> nat \<Rightarrow> gui \<Rightarrow> gui" where
  "on_convo f p G =
     (let c = gc_store G p; c' = f (c\<lparr>view := gc_views G (ViewName c)\<rparr>) in
      G\<lparr>gc_store := (gc_store G)(p := c'\<lparr>view := None\<rparr>), gc_views := (gc_views G)(ViewName c := view c')\<rparr>)"

section \<open>Rounds\<close>

text \<open>The loop of \<open>Outgoing\<close> over the active conversations, from position \<open>i\<close> of the batch.\<close>

fun next_messages ::
  "gui_env \<Rightarrow> u32 \<Rightarrow> nat \<Rightarrow> nat list \<Rightarrow> (nat \<Rightarrow> conversation) \<Rightarrow>
   (unit, (nat \<Rightarrow> conversation) \<times> dead_drop_message list) outcome" where
  "next_messages E round i [] s = Ok (s, [])"
| "next_messages E round i (p # ps) s =
     obind (NextMessage (ge_crypto E) (ge_dummy E round i) (ge_now E) round (s p)) (\<lambda>(c, m).
       obind (next_messages E round (Suc i) ps (s(p := c))) (\<lambda>(s', ms). Ok (s', m # ms)))"

definition Outgoing :: "gui_env \<Rightarrow> u32 \<Rightarrow> gui \<Rightarrow> (unit, gui \<times> dead_drop_message list) outcome" where
  "Outgoing E round G =
     (let convos = ge_order E (gc_active G) in
      obind (next_messages E round 0 convos (gc_store G)) (\<lambda>(s, out).
        Ok (G\<lparr>gc_store := s, gc_pending := (gc_pending G)(round \<mapsto> convos)\<rparr>,
            out @ map (ge_dummy E round) [length out..<NumOutgoing])))"

definition give_reply :: "gui_env \<Rightarrow> u32 \<Rightarrow> bytes option \<Rightarrow> nat \<Rightarrow> gui \<Rightarrow> gui" where
  "give_reply E round reply p =
     on_convo (cv_Reply (ge_crypto E) (ge_col E) (ge_clock E) (ge_now E) round
       (case reply of None \<Rightarrow> [] | Some msg \<Rightarrow> msg)) p"

fun give_replies :: "gui_env \<Rightarrow> u32 \<Rightarrow> nat list \<Rightarrow> bytes option list \<Rightarrow> gui \<Rightarrow> (unit, gui) outcome" where
  "give_replies E round [] msgs G = Ok G"
| "give_replies E round (p # ps) [] G = Panic IndexOutOfRange"
| "give_replies E round (p # ps) (reply # msgs) G =
     give_replies E round ps msgs (give_reply E round reply p G)"

definition Replies :: "gui_env \<Rightarrow> u32 \<Rightarrow> bytes option list \<Rightarrow> gui \<Rightarrow> (unit, gui) outcome" where
  "Replies E round msgs G =
     (let convos = (case gc_pending G round of None \<Rightarrow> [] | Some ps \<Rightarrow> ps) in
      give_replies E round convos msgs (G\<lparr>gc_pending := (gc_pending G)(round := None)\<rparr>))"

section \<open>Conversations\<close>

definition start_wheel :: "keywheel_start \<Rightarrow> conversation \<Rightarrow> conversation" where
  "start_wheel wheel c =
     c\<lparr>sessionKey := Some (ks_sessionKey wheel), sessionKeyRound := ks_convoRound wheel,
       lastPeerResponding := False, lastLatency := 0, pendingCall := None, lastOut := -1\<rparr>"

definition activateConvo :: "nat \<Rightarrow> keywheel_start \<Rightarrow> gui \<Rightarrow> gui \<times> bool" where
  "activateConvo p wheel G =
     (if length (gc_active G) < NumOutgoing then
        (G\<lparr>gc_active := (if p \<in> set (gc_active G) then gc_active G else gc_active G @ [p]),
           gc_store := (gc_store G)(p := start_wheel wheel (gc_store G p))\<rparr>, True)
      else (G, False))"

definition deactivateConvo :: "nat \<Rightarrow> gui \<Rightarrow> gui \<times> bool" where
  "deactivateConvo p G =
     (if p \<in> set (gc_active G) then (G\<lparr>gc_active := remove1 p (gc_active G)\<rparr>, True) else (G, False))"

text \<open>\<open>SetView\<close> creates the view unless it exists.\<close>

definition setConvoView :: "gui_env \<Rightarrow> string \<Rightarrow> gui \<Rightarrow> gui \<times> ui_err option" where
  "setConvoView E name G =
     (if ge_SetViewFails E name then (G, Some SetViewFailed)
      else (G\<lparr>gc_views := (case gc_views G name of None \<Rightarrow> (gc_views G)(name \<mapsto> []) | Some _ \<Rightarrow> gc_views G)\<rparr>, None))"

definition find_convo :: "string \<Rightarrow> gui \<Rightarrow> nat option" where
  "find_convo username G = find (\<lambda>p. peerUsername (gc_store G p) = username) (gc_conversations G)"

definition getOrCreateConvo :: "gui_env \<Rightarrow> string \<Rightarrow> gui \<Rightarrow> (unit, gui \<times> nat) outcome" where
  "getOrCreateConvo E username G =
     (case find_convo username G of
        Some p \<Rightarrow> Ok (G, p)
      | None \<Rightarrow>
          (let p = gc_next G;
               c = cv_Init (zero_convo\<lparr>peerUsername := username, myUsername := gc_myName G\<rparr>);
               G1 = G\<lparr>gc_store := (gc_store G)(p := c), gc_next := Suc p,
                      gc_conversations := gc_conversations G @ [p]\<rparr> in
           (case setConvoView E (ViewName c) G1 of
              (G2, None) \<Rightarrow> Ok (G2, p)
            | (_, Some _) \<Rightarrow> Panic ExplicitPanic)))"

section \<open>The main window\<close>

definition mark_main :: "gui \<Rightarrow> gui" where
  "mark_main G = (if gc_selected G \<noteq> None then G\<lparr>gc_mainUnread := True\<rparr> else G)"

definition gc_Printf :: "string \<Rightarrow> gui \<Rightarrow> gui" where
  "gc_Printf line G =
     (case gc_views G ''main'' of
        None \<Rightarrow> G
      | Some ls \<Rightarrow> mark_main (G\<lparr>gc_views := (gc_views G)(''main'' \<mapsto> ls @ [line])\<rparr>))"

text \<open>Here an unknown view is returned to the main loop, which ends.\<close>

definition gc_PrintfSync :: "string \<Rightarrow> gui \<Rightarrow> gui" where
  "gc_PrintfSync line G =
     mark_main (case gc_views G ''main'' of
        None \<Rightarrow> G\<lparr>gc_exit := Some ErrUnknownView\<rparr>
      | Some ls \<Rightarrow> G\<lparr>gc_views := (gc_views G)(''main'' \<mapsto> ls @ [line])\<rparr>)"

definition gc_Warnf :: "gui_env \<Rightarrow> string \<Rightarrow> gui \<Rightarrow> gui" where
  "gc_Warnf E line = gc_Printf (warningPrefix (ge_col E) @ line)"

definition gc_WarnfSync :: "gui_env \<Rightarrow> string \<Rightarrow> gui \<Rightarrow> gui" where
  "gc_WarnfSync E line = gc_PrintfSync (warningPrefix (ge_col E) @ line)"

definition convo_Warnf :: "gui_env \<Rightarrow> string \<Rightarrow> nat \<Rightarrow> gui \<Rightarrow> gui" where
  "convo_Warnf E line = on_convo (cv_Warnf (ge_col E) (ge_clock E) line)"

definition convo_WarnfSync :: "gui_env \<Rightarrow> string \<Rightarrow> nat \<Rightarrow> gui \<Rightarrow> gui" where
  "convo_WarnfSync E line = on_convo (cv_WarnfSync (ge_col E) (ge_clock E) line)"

text \<open>\<open>%-44s\<close> pads on the right.\<close>

definition pad_right :: "nat \<Rightarrow> string \<Rightarrow> string" where
  "pad_right n s = s @ replicate (n - length s) CHR '' ''"

definition Fire :: "gui_env \<Rightarrow> log_entry \<Rightarrow> gui \<Rightarrow> gui" where
  "Fire E e =
     gc_WarnfSync E
       ((if le_Info e then le_Time e else ge_col E [le_Color e, Bold] (le_Time e)) @
        '' '' @ le_Icon e @ '' '' @ pad_right 44 (le_Message e) @ '' '' @ le_Fields e @ nl)"

section \<open>Windows\<close>

definition raise_view :: "string \<Rightarrow> gui \<Rightarrow> gui" where
  "raise_view name G = G\<lparr>gc_stack := name # filter (\<lambda>n. n \<noteq> name) (gc_stack G)\<rparr>"

definition setViewOnTop :: "string \<Rightarrow> gui \<Rightarrow> gui \<times> ui_err option" where
  "setViewOnTop name G =
     (if gc_views G name = None then (G, Some ErrUnknownView)
      else if gc_views G ''status'' = None then (raise_view name G, Some ErrUnknownView)
      else (raise_view ''status'' (raise_view name G), None))"

definition unfocus :: "gui \<Rightarrow> gui" where
  "unfocus G =
     (case gc_selected G of
        None \<Rightarrow> G
      | Some p \<Rightarrow> G\<lparr>gc_store := (gc_store G)(p := (gc_store G p)\<lparr>focused := False\<rparr>)\<rparr>)"

definition focusMain :: "gui \<Rightarrow> gui \<times> ui_err option" where
  "focusMain G = setViewOnTop ''main'' ((unfocus G)\<lparr>gc_selected := None, gc_mainUnread := False\<rparr>)"

definition focusConvo :: "nat \<Rightarrow> gui \<Rightarrow> gui \<times> ui_err option" where
  "focusConvo p G =
     (let G1 = (unfocus G)\<lparr>gc_selected := Some p\<rparr>;
          c = (gc_store G1 p)\<lparr>unread := False, focused := True\<rparr> in
      setViewOnTop (ViewName c) (G1\<lparr>gc_store := (gc_store G1)(p := c)\<rparr>))"

text \<open>An index below zero would be out of range; every caller passes one that is not negative.\<close>

definition focusConvoIndex :: "nat \<Rightarrow> gui \<Rightarrow> gui \<times> ui_err option" where
  "focusConvoIndex index G =
     (if index = 0 then focusMain G
      else if index - 1 \<ge> length (gc_conversations G) then (G, None)
      else focusConvo (gc_conversations G ! (index - 1)) G)"

text \<open>
  What \<open>scrollCurrentView\<close> does to the view of the selected window: \<open>None\<close> turns autoscroll on,
  \<open>Some y\<close> turns it off and moves the origin to line \<open>y\<close>. \<open>newlines\<close> counts the line breaks of the
  view's buffer, \<open>height\<close> and \<open>oy\<close> are its size and origin.
\<close>

definition current_view :: "gui \<Rightarrow> string" where
  "current_view G = (case gc_selected G of None \<Rightarrow> ''main'' | Some p \<Rightarrow> ViewName (gc_store G p))"

definition scrollCurrentView :: "int \<Rightarrow> int \<Rightarrow> int \<Rightarrow> int \<Rightarrow> gui \<Rightarrow> (ui_err, string \<times> int option) outcome" where
  "scrollCurrentView dy newlines height oy G =
     (if gc_views G (current_view G) = None then Err ErrUnknownView
      else Ok (current_view G, if oy + dy > newlines - height - 1 then None else Some (oy + dy)))"

section \<open>Callbacks\<close>

text \<open>The texts of the errors the conversation client reports.\<close>

definition error_text :: "(client_err \<Rightarrow> string) \<Rightarrow> client_err \<Rightarrow> string" where
  "error_text detail e =
     (case e of
        CoordinatorSays r msg \<Rightarrow> ''error from convo coordinator: round '' @ print_nat (unat r) @ '': '' @ msg
      | SkippingRound r \<Rightarrow> ''newConvoRound '' @ print_nat (unat r) @ '': skipping round (only '' @ detail e @ '' left)''
      | SkippingRunRound r \<Rightarrow> ''runRound '' @ print_nat (unat r) @ '': skipping round (only '' @ detail e @ '' left)''
      | AbandoningRound r \<Rightarrow> ''runRound '' @ print_nat (unat r) @ '': abandoning round (only '' @ detail e @ '' left)''
      | DifferentConfigs r \<Rightarrow> ''coordinator announced different configs round '' @ print_nat (unat r)
      | BadMixnetSettings r key \<Rightarrow>
          ''round '' @ print_nat (unat r) @ '': failed to verify mixnet settings for key '' @ detail e
      | RoundNotConfigured r \<Rightarrow> ''openReplyOnion: round '' @ print_nat (unat r) @ '' not configured''
      | NoOnionKeys r \<Rightarrow> ''openReplyOnion: didn't generate onion keys for round '' @ print_nat (unat r)
      | WrongOnionCount r want got \<Rightarrow>
          ''round '' @ print_nat (unat r) @ '': expected '' @ print_nat want @ '' onions, got '' @ print_nat got
      | MalformedOnion r got want \<Rightarrow>
          ''convo round '' @ print_nat (unat r) @ '': received malformed onion: got '' @ print_nat got @
          '' bytes, want '' @ print_nat want @ '' bytes''
      | DecryptOnionFailed r \<Rightarrow> ''convo round '' @ print_nat (unat r) @ '': failed to decrypt onion''
      | NotConnectedToConvo \<Rightarrow> ''not connected to convo service''
      | _ \<Rightarrow> detail e)"

text \<open>\<open>regexp.MatchString("round [0-9]+ not configured", s)\<close>.\<close>

definition is_digit :: "char \<Rightarrow> bool" where
  "is_digit ch \<longleftrightarrow> digit_of ch \<noteq> None"

definition matches_at :: "string \<Rightarrow> bool" where
  "matches_at s \<longleftrightarrow>
     (let t = drop 6 s; u = dropWhile is_digit t in
      take 6 s = ''round '' \<and> takeWhile is_digit t \<noteq> [] \<and> take 15 u = '' not configured'')"

fun match_not_configured :: "string \<Rightarrow> bool" where
  "match_not_configured [] \<longleftrightarrow> False"
| "match_not_configured (ch # s) \<longleftrightarrow> matches_at (ch # s) \<or> match_not_configured s"

text \<open>\<open>log.Error\<close> makes an entry, which the logger gives to \<open>Fire\<close>.\<close>

definition gc_Error :: "gui_env \<Rightarrow> client_err \<Rightarrow> gui \<Rightarrow> gui" where
  "gc_Error E e G =
     (let text = error_text (ge_detail E) e in
      if ge_debug E then Fire E (ge_entry E text) G
      else if match_not_configured text then G
      else Fire E (ge_entry E text) G)"

definition gc_DebugError :: "gui_env \<Rightarrow> client_err \<Rightarrow> gui \<Rightarrow> gui" where
  "gc_DebugError E e G = (if ge_debug E then Fire E (ge_entry E (error_text (ge_detail E) e)) G else G)"

definition desktop_notify :: "string \<Rightarrow> gui \<Rightarrow> gui" where
  "desktop_notify msg G = G\<lparr>gc_notes := gc_notes G @ [msg]\<rparr>"

definition ConfirmedFriend :: "gui_env \<Rightarrow> string \<Rightarrow> gui \<Rightarrow> gui" where
  "ConfirmedFriend E username = gc_WarnfSync E (''Confirmed friend: '' @ username @ nl)"

definition SentFriendRequest :: "gui_env \<Rightarrow> string \<Rightarrow> gui \<Rightarrow> gui" where
  "SentFriendRequest E username = gc_WarnfSync E (''Sent friend request: '' @ username @ nl)"

definition ReceivedFriendRequest :: "gui_env \<Rightarrow> string \<Rightarrow> gui \<Rightarrow> gui" where
  "ReceivedFriendRequest E username G =
     desktop_notify (''Friend request from '' @ username)
       (gc_WarnfSync E (''Type `/approve '' @ username @ ''` to approve the friend request.'' @ nl)
         (gc_WarnfSync E (''Received friend request: '' @ username @ nl) G))"

definition UnexpectedSigningKey :: "gui_env \<Rightarrow> string \<Rightarrow> gui \<Rightarrow> gui" where
  "UnexpectedSigningKey E username = gc_WarnfSync E (''Unexpected signing key: '' @ username @ nl)"

text \<open>
  A conversation is activated at the agreed round; without a free slot the call is held.
\<close>

definition activate_or_hold :: "gui_env \<Rightarrow> nat \<Rightarrow> keywheel_start \<Rightarrow> gui \<Rightarrow> gui" where
  "activate_or_hold E p wheel G =
     (case activateConvo p wheel G of
        (G1, True) \<Rightarrow> G1
      | (G1, False) \<Rightarrow>
          convo_WarnfSync E
            (''Too many active conversations! Hang up another convo and type /answer to answer the call.'' @ nl) p
            (G1\<lparr>gc_store := (gc_store G1)(p := (gc_store G1 p)\<lparr>pendingCall := Some wheel\<rparr>)\<rparr>))"

text \<open>
  \<open>latest\<close> is the answer of the conversation client's \<open>LatestRound\<close>, \<open>key\<close> the session key of the
  call. The format of the error message has one verb more than arguments.
\<close>

definition SendingCall ::
  "gui_env \<Rightarrow> (client_err, u32) outcome \<Rightarrow> string \<Rightarrow> bytes \<Rightarrow> gui \<Rightarrow> (unit, gui) outcome" where
  "SendingCall E latest username key G =
     obind (getOrCreateConvo E username G) (\<lambda>(G1, p).
       case latest of
         Ok round \<Rightarrow>
           (let G2 = convo_WarnfSync E (''Calling '' @ username @ '' ...'' @ nl) p G1 in
            obind (outgoingCallConvoRound stdRoundSyncer round) (\<lambda>(start, intent).
              let G3 = G2\<lparr>gc_alpenhorn := gc_alpenhorn G2 @ [UpdateIntent username intent]\<rparr> in
              Ok (activate_or_hold E p \<lparr>ks_sessionKey = key, ks_convoRound = start\<rparr> G3)))
       | Err e \<Rightarrow>
           Ok (convo_WarnfSync E (''Error calling '' @ error_text (ge_detail E) e @
             '': failed to fetch latest convo round: %!s(MISSING)'' @ nl) p G1)
       | Panic q \<Rightarrow> Panic q
       | Hang \<Rightarrow> Hang)"

definition ReceivedCall ::
  "gui_env \<Rightarrow> (client_err, u32) outcome \<Rightarrow> string \<Rightarrow> int \<Rightarrow> bytes \<Rightarrow> gui \<Rightarrow> (unit, gui) outcome" where
  "ReceivedCall E latest username intent key G =
     obind (getOrCreateConvo E username G) (\<lambda>(G1, p).
       let G2 = desktop_notify (''Call from '' @ username)
                  (convo_WarnfSync E (''Received call: '' @ username @ nl) p G1) in
       case latest of
         Ok round \<Rightarrow>
           obind (incomingCallConvoRound stdRoundSyncer round intent) (\<lambda>start.
             Ok (activate_or_hold E p \<lparr>ks_sessionKey = key, ks_convoRound = start\<rparr> G2))
       | Err e \<Rightarrow>
           Ok (convo_WarnfSync E (''Error activating convo: failed to fetch latest convo round: '' @
             error_text (ge_detail E) e @ nl) p G2)
       | Panic q \<Rightarrow> Panic q
       | Hang \<Rightarrow> Hang)"

definition gc_NewConfig :: "gui_env \<Rightarrow> signed_config list \<Rightarrow> gui \<Rightarrow> (unit, gui) outcome" where
  "gc_NewConfig E configs G =
     (if configs = [] then Panic IndexOutOfRange
      else
        let prev = last configs; new = hd configs in
        Ok (desktop_notify (''New '' @ sc_Service prev @ '' config'')
          (gc_WarnfSync E (''New '' @ ge_Quote E (sc_Service prev) @ '' config: '' @ sc_Hash prev @ '' -> '' @
             sc_Hash new @ nl) G)))"

definition gc_GlobalAnnouncement :: "gui_env \<Rightarrow> string \<Rightarrow> gui \<Rightarrow> gui" where
  "gc_GlobalAnnouncement E message G =
     desktop_notify (''Global Announcement: '' @ message)
       (gc_WarnfSync E (''Global Announcement: '' @ message @ nl) G)"

text \<open>The client as the \<open>ConvoHandler\<close> of the conversation client.\<close>

definition gui_handler :: "gui_env \<Rightarrow> gui convo_handler" where
  "gui_handler E =
     \<lparr>hd_Outgoing = Outgoing E, hd_Replies = Replies E, hd_NewConfig = gc_NewConfig E, hd_Error = gc_Error E,
      hd_DebugError = gc_DebugError E, hd_GlobalAnnouncement = gc_GlobalAnnouncement E\<rparr>"

section \<open>The status bar\<close>

text \<open>\<open>%.1fs\<close> of a latency is an argument; the menu numbers the windows the way \<open>focusConvoIndex\<close> counts them.\<close>

definition menu_main :: "gui_env \<Rightarrow> gui \<Rightarrow> string" where
  "menu_main E G =
     (if gc_selected G = None then ge_col E [Bold] ''1''
      else if gc_mainUnread G then ge_col E [Green, Bold] ''1'' @ '':main''
      else ''1'')"

definition menu_entry :: "gui_env \<Rightarrow> gui \<Rightarrow> nat \<Rightarrow> nat \<Rightarrow> string" where
  "menu_entry E G i p =
     (if gc_selected G = Some p then '','' @ ge_col E [Bold] (print_nat (i + 2))
      else if Unread (cv_Status (gc_store G p)) then
        '','' @ ge_col E [Green, Bold] (print_nat (i + 2)) @ '':'' @ peerUsername (gc_store G p)
      else '','' @ print_nat (i + 2))"

definition status_menu :: "gui_env \<Rightarrow> gui \<Rightarrow> string" where
  "status_menu E G =
     menu_main E G @ concat (map (\<lambda>(i, p). menu_entry E G i p) (zip [0..<length (gc_conversations G)] (gc_conversations G)))"

definition round_latency :: "(nat \<Rightarrow> string) \<Rightarrow> cv_status \<Rightarrow> string" where
  "round_latency fmt1 st =
     ''  [round: '' @ (if StatusRound st = 0 then ''-'' else print_nat (unat (StatusRound st))) @
     '']  [latency: '' @ (if LatencyNanos st = 0 then ''-'' else fmt1 (LatencyNanos st) @ ''s'') @ '']  '' @
     (if Unacked st > 0 then ''['' @ print_nat (Unacked st) @ '' unacked]'' else [])"

datatype partner_color = ColorDefault | ColorYellow | ColorGreen | ColorRed

definition partner_name :: "gui \<Rightarrow> string" where
  "partner_name G = (case gc_selected G of None \<Rightarrow> ''vuvuzela'' | Some p \<Rightarrow> peerUsername (gc_store G p))"

definition partner_fg :: "gui \<Rightarrow> partner_color" where
  "partner_fg G =
     (case gc_selected G of
        None \<Rightarrow> ColorDefault
      | Some p \<Rightarrow>
          if p \<in> set (gc_active G) then
            (if PeerResponding (cv_Status (gc_store G p)) then ColorGreen else ColorYellow)
          else ColorRed)"

fun set_views :: "gui_env \<Rightarrow> string list \<Rightarrow> gui \<Rightarrow> gui \<times> ui_err option" where
  "set_views E [] G = (G, None)"
| "set_views E (name # names) G =
     (case setConvoView E name G of
        (G1, Some e) \<Rightarrow> (G1, Some e)
      | (G1, None) \<Rightarrow> set_views E names G1)"

text \<open>
  \<open>layout\<close> redraws: it creates the views, and rewrites the status bar and the prompt, whose views are
  cleared first. \<open>autoscroll\<close> tells of each view whether it is at the bottom.
\<close>

definition status_line :: "gui_env \<Rightarrow> (nat \<Rightarrow> string) \<Rightarrow> (string \<Rightarrow> bool) \<Rightarrow> gui \<Rightarrow> string" where
  "status_line E fmt1 autoscroll G =
     '' ['' @ gc_myName G @ '']  ['' @ status_menu E G @ '']'' @
     (case gc_selected G of
        Some p \<Rightarrow> if p \<in> set (gc_active G) then round_latency fmt1 (cv_Status (gc_store G p)) else []
      | None \<Rightarrow> []) @
     '' '' @ ge_col E [Yellow, Bold] (if autoscroll (current_view G) then [] else ''-MORE-'')"

definition layout :: "gui_env \<Rightarrow> (nat \<Rightarrow> string) \<Rightarrow> (string \<Rightarrow> bool) \<Rightarrow> gui \<Rightarrow> gui \<times> ui_err option" where
  "layout E fmt1 autoscroll G =
     (case set_views E (''main'' # map (\<lambda>p. ViewName (gc_store G p)) (gc_conversations G)) G of
        (G1, Some e) \<Rightarrow> (G1, Some e)
      | (G1, None) \<Rightarrow>
          if ge_SetViewFails E ''status'' then (G1, Some SetViewFailed)
          else if gc_views G1 (current_view G1) = None \<and> current_view G1 \<noteq> ''status'' then
            (G1\<lparr>gc_views := (gc_views G1)(''status'' \<mapsto> [])\<rparr>, Some ErrUnknownView)
          else
            let G2 = G1\<lparr>gc_views := (gc_views G1)(''status'' \<mapsto> [status_line E fmt1 autoscroll G1])\<rparr> in
            if ge_SetViewFails E ''partner'' then (G2, Some SetViewFailed)
            else
              let G3 = G2\<lparr>gc_views := (gc_views G2)(''partner'' \<mapsto> [partner_name G2 @ ''>''])\<rparr> in
              (case setConvoView E ''input'' G3 of
                 (G4, Some e) \<Rightarrow> (G4, Some e)
               | (G4, None) \<Rightarrow> setViewOnTop (current_view G4) G4))"

section \<open>Editing the input line\<close>

datatype ui_key = KeySpace | KeyBackspace | KeyBackspace2 | KeyDelete | KeyInsert | KeyArrowLeft | KeyArrowRight
  | KeyHome | KeyEnd | KeyOther

datatype edit_action = EditWrite nat | EditDelete bool | ToggleOverwrite | MoveCursor int | SetCursor nat

text \<open>A rune of 0 is no character; \<open>len\<close> is the length of the input line. Every key resets the notification timer.\<close>

definition vuvuzelaEditor :: "ui_key \<Rightarrow> nat \<Rightarrow> bool \<Rightarrow> nat \<Rightarrow> edit_action option" where
  "vuvuzelaEditor key ch modified len =
     (if ch \<noteq> 0 \<and> \<not> modified then Some (EditWrite ch)
      else if key = KeySpace then Some (EditWrite 32)
      else if key = KeyBackspace \<or> key = KeyBackspace2 then Some (EditDelete True)
      else if key = KeyDelete then Some (EditDelete False)
      else if key = KeyInsert then Some ToggleOverwrite
      else if key = KeyArrowLeft then Some (MoveCursor (-1))
      else if key = KeyArrowRight then Some (MoveCursor 1)
      else if key = KeyHome then Some (SetCursor 0)
      else if key = KeyEnd then Some (SetCursor len)
      else None)"

end
