(* ===== verification/Gui_Rounds.thy ===== *)
theory Gui_Rounds
  imports Gui_Client
begin

text \<open>
  The invariant of the user's client, that every operation keeps it, and what follows for rounds.
\<close>

section \<open>The invariant\<close>

definition gui_inv :: "gui \<Rightarrow> bool" where
  "gui_inv G \<longleftrightarrow>
     distinct (gc_active G) \<and> length (gc_active G) \<le> NumOutgoing \<and>
     set (gc_active G) \<subseteq> set (gc_conversations G) \<and>
     (\<forall>p \<in> set (gc_active G). sessionKey (gc_store G p) \<noteq> None) \<and>
     distinct (gc_conversations G) \<and> (\<forall>p \<in> set (gc_conversations G). p < gc_next G) \<and>
     inj_on (\<lambda>p. peerUsername (gc_store G p)) (set (gc_conversations G)) \<and>
     (\<forall>p \<in> set (gc_conversations G). gc_views G (peerUsername (gc_store G p)) \<noteq> None \<and>
        myUsername (gc_store G p) = gc_myName G) \<and>
     (\<forall>p < gc_next G. (focused (gc_store G p) \<longleftrightarrow> gc_selected G = Some p) \<and>
        (focused (gc_store G p) \<longrightarrow> \<not> unread (gc_store G p))) \<and>
     (\<forall>p. gc_selected G = Some p \<longrightarrow> p \<in> set (gc_conversations G)) \<and>
     (\<forall>r ps. gc_pending G r = Some ps \<longrightarrow> distinct ps \<and> length ps \<le> NumOutgoing \<and> (\<forall>p \<in> set ps. p < gc_next G)) \<and>
     gc_views G ''main'' \<noteq> None \<and> gc_views G ''status'' \<noteq> None"

text \<open>What a method of a conversation leaves alone, as far as the invariant is concerned.\<close>

definition convo_stays :: "conversation \<Rightarrow> conversation \<Rightarrow> bool" where
  "convo_stays c c' \<longleftrightarrow>
     peerUsername c' = peerUsername c \<and> myUsername c' = myUsername c \<and> focused c' = focused c \<and>
     (sessionKey c \<noteq> None \<longrightarrow> sessionKey c' \<noteq> None) \<and> (focused c \<longrightarrow> \<not> unread c \<longrightarrow> \<not> unread c')"

definition convo_keeps :: "conversation \<Rightarrow> conversation \<Rightarrow> bool" where
  "convo_keeps c c' \<longleftrightarrow> convo_stays c c' \<and> (view c \<noteq> None \<longrightarrow> view c' \<noteq> None)"

lemmas convo_keeps_defs = convo_keeps_def convo_stays_def

lemma convo_keeps_refl [simp]: "convo_keeps c c"
  by (simp add: convo_keeps_defs)

lemma convo_keeps_trans: "convo_keeps a b \<Longrightarrow> convo_keeps b c \<Longrightarrow> convo_keeps a c"
  by (simp add: convo_keeps_defs)

lemma convo_stays_view [simp]:
  "convo_stays (c\<lparr>view := v\<rparr>) c' = convo_stays c c'" "convo_stays c (c'\<lparr>view := v\<rparr>) = convo_stays c c'"
  by (simp_all add: convo_stays_def)

lemma cv_Printf_keeps [simp]: "convo_keeps c (cv_Printf col clock line c)"
  by (simp add: cv_Printf_def convo_keeps_defs Let_def split: option.splits)

lemma cv_PrintfSync_keeps [simp]: "convo_keeps c (cv_PrintfSync col clock line c)"
  by (simp add: cv_PrintfSync_def convo_keeps_defs Let_def split: option.splits)

lemma cv_Warnf_keeps [simp]: "convo_keeps c (cv_Warnf col clock line c)"
  by (simp add: cv_Warnf_def)

lemma cv_WarnfSync_keeps [simp]: "convo_keeps c (cv_WarnfSync col clock line c)"
  by (simp add: cv_WarnfSync_def)

lemma queue_text_keeps [simp]: "convo_keeps c (queue_text msg c)"
  by (simp add: queue_text_def convo_keeps_defs)

lemma QueueTextMessage_keeps [simp]: "convo_keeps c (QueueTextMessage col clock msg c)"
  unfolding QueueTextMessage_def Let_def by (rule convo_keeps_trans [OF queue_text_keeps cv_Printf_keeps])

lemma display_bodies_keeps [simp]: "convo_keeps c (display_bodies col clock bodies c)"
proof (induction bodies arbitrary: c)
  case (Cons b bodies)
  then show ?case by (simp add: display_bodies_def) (meson convo_keeps_trans cv_PrintfSync_keeps)
qed (simp add: display_bodies_def)

lemma accept_payload_keeps: "accept_payload lat m c = (c', bodies) \<Longrightarrow> convo_keeps c c'"
  by (auto simp: accept_payload_def convo_keeps_defs Let_def split: prod.splits if_splits)

lemma responding_keeps [simp]: "convo_keeps c (c'\<lparr>lastPeerResponding := b\<rparr>) \<longleftrightarrow> convo_keeps c c'"
  by (simp add: convo_keeps_defs)

lemma rounds_keeps [simp]: "convo_keeps (c\<lparr>cv_rounds := m\<rparr>) c' \<longleftrightarrow> convo_keeps c c'"
  "convo_keeps c (c'\<lparr>cv_rounds := m\<rparr>) \<longleftrightarrow> convo_keeps c c'"
  by (simp_all add: convo_keeps_defs)

lemma cv_Reply_keeps [simp]: "convo_keeps c (cv_Reply H col clock now round msg c)"
proof -
  let ?c = "c\<lparr>cv_rounds := prune_rounds round (cv_rounds c)\<rparr>"
  have accepted: "convo_keeps c (display_bodies col clock bodies c')" if "accept_payload lat m ?c = (c', bodies)" for lat m c' bodies
    using convo_keeps_trans [OF accept_payload_keeps [OF that] display_bodies_keeps] by simp
  show ?thesis
    by (auto simp: cv_Reply_def Let_def accepted split: option.splits prod.splits)
qed

lemma NextMessage_keeps:
  assumes "NextMessage H dummy now round c = Ok (c', m)"
  shows "convo_keeps c c'"
proof -
  have "convo_keeps c (fst (next_payload round (c\<lparr>lastRound := round\<rparr>)))"
    by (simp add: next_payload_def convo_keeps_defs Let_def)
  moreover obtain c1 msg c2 key where run: "next_payload round (c\<lparr>lastRound := round\<rparr>) = (c1, msg)"
    "rollAndReplaceKey H round c1 = Ok (c2, key)" "convo_keeps c2 c'"
    using assms by (fastforce simp: NextMessage_def Let_def split: prod.splits option.splits)
  moreover have "convo_keeps c1 c2"
    using run(2) by (auto simp: rollAndReplaceKey_def convo_keeps_defs split: option.splits)
  ultimately show ?thesis by (metis convo_keeps_trans fst_conv)
qed

lemma NextMessage_total:
  assumes "sessionKey c \<noteq> None"
  shows "\<exists>c' m. NextMessage H dummy now round c = Ok (c', m)"
proof -
  obtain c1 msg where pay: "next_payload round (c\<lparr>lastRound := round\<rparr>) = (c1, msg)" by fastforce
  then have "sessionKey c1 = sessionKey c"
    by (auto simp: next_payload_def Let_def split: if_splits)
  with assms obtain k where "sessionKey c1 = Some k" by auto
  then obtain c2 key where "rollAndReplaceKey H round c1 = Ok (c2, key)"
    by (cases "sessionKeyRound c1 > round") (auto simp: rollAndReplaceKey_def rollKey_def)
  with pay show ?thesis by (cases key) (simp_all add: NextMessage_def Let_def)
qed

section \<open>Operations keep the invariant\<close>

lemma gui_inv_irrelevant [simp]:
  "gui_inv (G\<lparr>gc_stack := a\<rparr>) = gui_inv G" "gui_inv (G\<lparr>gc_mainUnread := b\<rparr>) = gui_inv G"
  "gui_inv (G\<lparr>gc_connected := b\<rparr>) = gui_inv G" "gui_inv (G\<lparr>gc_alpenhorn := c\<rparr>) = gui_inv G"
  "gui_inv (G\<lparr>gc_notes := d\<rparr>) = gui_inv G" "gui_inv (G\<lparr>gc_exit := e\<rparr>) = gui_inv G"
  by (simp_all add: gui_inv_def)

lemma gui_inv_stores:
  assumes "gui_inv G" and "\<And>q. convo_stays (gc_store G q) (s q)"
  shows "gui_inv (G\<lparr>gc_store := s\<rparr>)"
proof -
  have same: "peerUsername (s q) = peerUsername (gc_store G q)" "myUsername (s q) = myUsername (gc_store G q)"
    "focused (s q) = focused (gc_store G q)" for q
    using assms(2) [of q] by (simp_all add: convo_stays_def)
  have "sessionKey (gc_store G q) \<noteq> None \<longrightarrow> sessionKey (s q) \<noteq> None"
    "focused (gc_store G q) \<longrightarrow> \<not> unread (gc_store G q) \<longrightarrow> \<not> unread (s q)" for q
    using assms(2) [of q] by (auto simp: convo_stays_def)
  then show ?thesis using assms(1) unfolding gui_inv_def by (simp add: same)
qed

lemma convo_stays_refl [simp]: "convo_stays c c"
  by (simp add: convo_stays_def)

lemma gui_inv_store: "gui_inv G \<Longrightarrow> convo_stays (gc_store G p) c \<Longrightarrow> gui_inv (G\<lparr>gc_store := (gc_store G)(p := c)\<rparr>)"
  by (rule gui_inv_stores) simp_all

lemma gui_inv_views:
  assumes "gui_inv G" and "\<And>n. gc_views G n \<noteq> None \<Longrightarrow> vs n \<noteq> None"
  shows "gui_inv (G\<lparr>gc_views := vs\<rparr>)"
  using assms unfolding gui_inv_def by simp

lemma on_convo_inv:
  assumes "gui_inv G" and "\<And>c. convo_keeps c (f c)"
  shows "gui_inv (on_convo f p G)"
proof -
  let ?c = "gc_store G p" and ?n = "ViewName (gc_store G p)"
  let ?c' = "f (?c\<lparr>view := gc_views G ?n\<rparr>)"
  have keeps: "convo_keeps (?c\<lparr>view := gc_views G ?n\<rparr>) ?c'" by (rule assms(2))
  then have "gui_inv (G\<lparr>gc_store := (gc_store G)(p := ?c'\<lparr>view := None\<rparr>)\<rparr>)"
    by (intro gui_inv_store assms(1)) (simp add: convo_keeps_def)
  moreover have "gc_views G n \<noteq> None \<Longrightarrow> ((gc_views G)(?n := view ?c')) n \<noteq> None" for n
    using keeps by (auto simp: convo_keeps_def)
  ultimately have "gui_inv (G\<lparr>gc_store := (gc_store G)(p := ?c'\<lparr>view := None\<rparr>), gc_views := (gc_views G)(?n := view ?c')\<rparr>)"
    by (intro gui_inv_views) simp_all
  then show ?thesis by (simp add: on_convo_def Let_def)
qed

text \<open>Rounds.\<close>

lemma next_messages_Ok:
  assumes "\<And>p. p \<in> set ps \<Longrightarrow> sessionKey (s p) \<noteq> None"
  shows "\<exists>s' ms. next_messages E round i ps s = Ok (s', ms) \<and> length ms = length ps \<and>
      (\<forall>q. convo_stays (s q) (s' q)) \<and> (\<forall>q. q \<notin> set ps \<longrightarrow> s' q = s q)"
  using assms
proof (induction ps arbitrary: i s)
    case (Cons p ps)
    have "sessionKey (s p) \<noteq> None" using Cons.prems by simp
    then obtain c m where nxt: "NextMessage (ge_crypto E) (ge_dummy E round i) (ge_now E) round (s p) = Ok (c, m)"
      using NextMessage_total by blast
    then have stay: "convo_stays (s q) ((s(p := c)) q)" for q
      using NextMessage_keeps [OF nxt] by (simp add: convo_keeps_def)
    then have "sessionKey ((s(p := c)) q) \<noteq> None" if "q \<in> set ps" for q
      using Cons.prems [of q] that stay [of q] unfolding convo_stays_def by auto
    from Cons.IH [of "s(p := c)" "Suc i", OF this] obtain s' ms where rest: "next_messages E round (Suc i) ps (s(p := c)) = Ok (s', ms)"
      "length ms = length ps" "\<And>q. convo_stays ((s(p := c)) q) (s' q)" "\<And>q. q \<notin> set ps \<Longrightarrow> s' q = (s(p := c)) q"
      by blast
    have "convo_stays (s q) (s' q)" for q
      using stay [of q] rest(3) [of q] unfolding convo_stays_def by simp
    with nxt rest(1,2,4) show ?case by auto
qed auto

lemma gui_inv_pending:
  assumes "gui_inv G" and "distinct ps" and "length ps \<le> NumOutgoing" and "\<forall>p \<in> set ps. p < gc_next G"
  shows "gui_inv (G\<lparr>gc_pending := (gc_pending G)(round \<mapsto> ps)\<rparr>)"
  using assms unfolding gui_inv_def by simp

lemma gui_inv_forget: "gui_inv G \<Longrightarrow> gui_inv (G\<lparr>gc_pending := (gc_pending G)(round := None)\<rparr>)"
  unfolding gui_inv_def by simp

lemma Outgoing_Ok:
  assumes "gui_inv G" and "order_ok E"
  obtains s ms where
    "next_messages E round 0 (ge_order E (gc_active G)) (gc_store G) = Ok (s, ms)"
    "Outgoing E round G = Ok (G\<lparr>gc_store := s, gc_pending := (gc_pending G)(round \<mapsto> ge_order E (gc_active G))\<rparr>,
       ms @ map (ge_dummy E round) [length ms..<NumOutgoing])"
    "length ms = length (gc_active G)"
    "gui_inv (G\<lparr>gc_store := s, gc_pending := (gc_pending G)(round \<mapsto> ge_order E (gc_active G))\<rparr>)"
proof -
  let ?ps = "ge_order E (gc_active G)"
  have perm: "mset ?ps = mset (gc_active G)" using assms(2) by (simp add: order_ok_def)
  then have ps: "set ?ps = set (gc_active G)" "length ?ps = length (gc_active G)" "distinct ?ps"
    using assms(1) by (auto simp: gui_inv_def dest: mset_eq_setD mset_eq_length mset_eq_imp_distinct_iff)
  then have "sessionKey (gc_store G p) \<noteq> None" if "p \<in> set ?ps" for p
    using assms(1) that by (auto simp: gui_inv_def)
  from next_messages_Ok [of ?ps "gc_store G" E round 0, OF this] obtain s ms where
    run: "next_messages E round 0 ?ps (gc_store G) = Ok (s, ms)" "length ms = length ?ps"
      "\<And>q. convo_stays (gc_store G q) (s q)"
    by blast
  have inv: "gui_inv (G\<lparr>gc_store := s\<rparr>)" by (rule gui_inv_stores [OF assms(1) run(3)])
  have "gui_inv (G\<lparr>gc_store := s, gc_pending := (gc_pending G)(round \<mapsto> ?ps)\<rparr>)"
  proof -
    have "length ?ps \<le> NumOutgoing" "\<forall>p \<in> set ?ps. p < gc_next G"
      using assms(1) ps(1,2) unfolding gui_inv_def by auto
    then show ?thesis using gui_inv_pending [OF inv ps(3)] by simp
  qed
  then show thesis using run ps(2) by (intro that) (simp_all add: Outgoing_def Let_def)
qed

lemma give_reply_inv: "gui_inv G \<Longrightarrow> gui_inv (give_reply E round m p G)"
  by (simp add: give_reply_def on_convo_inv)

lemma give_replies_Ok:
  assumes "gui_inv G" and "length ps \<le> length msgs"
  shows "\<exists>G'. give_replies E round ps msgs G = Ok G' \<and> gui_inv G'"
  using assms
proof (induction ps arbitrary: msgs G)
  case (Cons p ps)
  then obtain m ms where "msgs = m # ms" "length ps \<le> length ms" by (cases msgs) auto
  with Cons.IH [OF give_reply_inv [OF Cons.prems(1)]] show ?case by simp
qed simp

lemma Replies_Ok:
  assumes "gui_inv G" and "NumOutgoing \<le> length msgs"
  shows "\<exists>G'. Replies E round msgs G = Ok G' \<and> gui_inv G'"
proof -
  have "length (case gc_pending G round of None \<Rightarrow> [] | Some ps \<Rightarrow> ps) \<le> length msgs"
    using assms unfolding gui_inv_def by (cases "gc_pending G round") (auto dest!: spec [of _ round])
  from give_replies_Ok [OF gui_inv_forget [OF assms(1)] this] show ?thesis by (simp add: Replies_def)
qed

text \<open>Windows and texts.\<close>

lemma mark_main_inv [simp]: "gui_inv (mark_main G) = gui_inv G"
  by (simp add: mark_main_def)

lemma gc_Printf_inv: "gui_inv G \<Longrightarrow> gui_inv (gc_Printf line G)"
  by (auto simp: gc_Printf_def intro!: gui_inv_views split: option.splits)

lemma gc_PrintfSync_inv: "gui_inv G \<Longrightarrow> gui_inv (gc_PrintfSync line G)"
  by (auto simp: gc_PrintfSync_def intro!: gui_inv_views split: option.splits)

lemma Warnf_inv:
  "gui_inv G \<Longrightarrow> gui_inv (gc_Warnf E line G)" "gui_inv G \<Longrightarrow> gui_inv (gc_WarnfSync E line G)"
  "gui_inv G \<Longrightarrow> gui_inv (convo_Warnf E line p G)" "gui_inv G \<Longrightarrow> gui_inv (convo_WarnfSync E line p G)"
  "gui_inv G \<Longrightarrow> gui_inv (Fire E e G)" "gui_inv G \<Longrightarrow> gui_inv (desktop_notify n G)"
  by (simp_all add: gc_Warnf_def gc_WarnfSync_def convo_Warnf_def convo_WarnfSync_def Fire_def desktop_notify_def
      gc_Printf_inv gc_PrintfSync_inv on_convo_inv)

lemma errors_inv: "gui_inv G \<Longrightarrow> gui_inv (gc_Error E e G)" "gui_inv G \<Longrightarrow> gui_inv (gc_DebugError E e G)"
  by (simp_all add: gc_Error_def gc_DebugError_def Let_def Warnf_inv)

lemma setConvoView_inv: "gui_inv G \<Longrightarrow> gui_inv (fst (setConvoView E name G))"
  by (auto simp: setConvoView_def intro!: gui_inv_views split: option.splits)

lemma setViewOnTop_fst [simp]:
  "gc_store (fst (setViewOnTop name G)) = gc_store G" "gui_inv (fst (setViewOnTop name G)) = gui_inv G"
  by (simp_all add: setViewOnTop_def raise_view_def)

lemma gui_inv_select:
  assumes "gui_inv G" and "\<And>q. sel = Some q \<Longrightarrow> q \<in> set (gc_conversations G)"
    and "\<And>q. convo_stays (gc_store G q) (s q\<lparr>focused := focused (gc_store G q), unread := unread (gc_store G q)\<rparr>)"
    and "\<And>q. q < gc_next G \<Longrightarrow> focused (s q) \<longleftrightarrow> sel = Some q"
    and "\<And>q. q < gc_next G \<Longrightarrow> focused (s q) \<Longrightarrow> \<not> unread (s q)"
  shows "gui_inv (G\<lparr>gc_store := s, gc_selected := sel\<rparr>)"
proof -
  have same: "peerUsername (s q) = peerUsername (gc_store G q)" "myUsername (s q) = myUsername (gc_store G q)" for q
    using assms(3) [of q] by (simp_all add: convo_stays_def)
  have "sessionKey (gc_store G q) \<noteq> None \<longrightarrow> sessionKey (s q) \<noteq> None" for q
    using assms(3) [of q] by (auto simp: convo_stays_def)
  with assms(1,2,4,5) show ?thesis unfolding gui_inv_def by (simp add: same)
qed

lemma unfocus_select: "(unfocus G)\<lparr>gc_selected := sel, gc_store := s\<rparr> = G\<lparr>gc_store := s, gc_selected := sel\<rparr>"
  by (cases G) (simp add: unfocus_def split: option.splits)

lemma focusMain_inv:
  assumes "gui_inv G"
  shows "gui_inv (fst (focusMain G))"
proof -
  have "gui_inv ((unfocus G)\<lparr>gc_selected := None\<rparr>)"
  proof -
    let ?s = "gc_store (unfocus G)"
    have "gui_inv (G\<lparr>gc_store := ?s, gc_selected := None\<rparr>)"
      using assms by (intro gui_inv_select) (auto simp: unfocus_def convo_stays_def gui_inv_def split: option.splits)
    then show ?thesis by (simp add: unfocus_def split: option.splits)
  qed
  then show ?thesis by (simp add: focusMain_def)
qed

lemma focusConvo_inv:
  assumes "gui_inv G" and "p \<in> set (gc_conversations G)"
  shows "gui_inv (fst (focusConvo p G))"
proof -
  let ?s = "(gc_store (unfocus G))(p := (gc_store (unfocus G) p)\<lparr>unread := False, focused := True\<rparr>)"
  have "gui_inv (G\<lparr>gc_store := ?s, gc_selected := Some p\<rparr>)"
    using assms by (intro gui_inv_select) (auto simp: unfocus_def convo_stays_def gui_inv_def split: option.splits)
  then show ?thesis by (simp add: focusConvo_def Let_def unfocus_select)
qed

lemma focusConvoIndex_inv: "gui_inv G \<Longrightarrow> gui_inv (fst (focusConvoIndex index G))"
  by (simp add: focusConvoIndex_def focusMain_inv focusConvo_inv)

lemma focus_never_fails:
  assumes "gui_inv G"
  shows "snd (focusMain G) = None" "p \<in> set (gc_conversations G) \<Longrightarrow> snd (focusConvo p G) = None"
  using assms
  by (auto simp: focusMain_def focusConvo_def setViewOnTop_def unfocus_def ViewName_def gui_inv_def Let_def
      split: option.splits)

text \<open>Conversations.\<close>

lemma activateConvo_inv:
  assumes "gui_inv G" and "p \<in> set (gc_conversations G)"
  shows "gui_inv (fst (activateConvo p wheel G))"
proof (cases "length (gc_active G) < NumOutgoing")
  case True
  have "convo_stays (gc_store G p) (start_wheel wheel (gc_store G p))"
    by (simp add: convo_stays_def start_wheel_def)
  then have "gui_inv (G\<lparr>gc_store := (gc_store G)(p := start_wheel wheel (gc_store G p))\<rparr>)" (is "gui_inv ?G1")
    by (rule gui_inv_store [OF assms(1)])
  then have "gui_inv (?G1\<lparr>gc_active := (if p \<in> set (gc_active G) then gc_active G else gc_active G @ [p])\<rparr>)"
    using True assms(2) unfolding gui_inv_def by (auto simp: start_wheel_def)
  moreover have "?G1\<lparr>gc_active := a\<rparr> = G\<lparr>gc_active := a, gc_store := (gc_store G)(p := start_wheel wheel (gc_store G p))\<rparr>" for a
    by (cases G) simp
  ultimately show ?thesis using True by (simp add: activateConvo_def)
qed (simp add: activateConvo_def assms)

lemma deactivateConvo_inv: "gui_inv G \<Longrightarrow> gui_inv (fst (deactivateConvo p G))"
  unfolding deactivateConvo_def gui_inv_def by (auto simp: length_remove1 dest: in_set_remove1 notin_set_remove1)

lemma find_convo_Some:
  "find_convo username G = Some p \<Longrightarrow> p \<in> set (gc_conversations G) \<and> peerUsername (gc_store G p) = username"
  by (auto simp: find_convo_def find_Some_iff)

lemma find_convo_None:
  "find_convo username G = None \<longleftrightarrow> (\<forall>p \<in> set (gc_conversations G). peerUsername (gc_store G p) \<noteq> username)"
  by (auto simp: find_convo_def find_None_iff)

lemma getOrCreateConvo_inv:
  assumes "gui_inv G" and "getOrCreateConvo E username G = Ok (G', p)"
  shows "gui_inv G' \<and> p \<in> set (gc_conversations G') \<and> peerUsername (gc_store G' p) = username \<and>
    gc_active G' = gc_active G \<and> gc_myName G' = gc_myName G"
proof (cases "find_convo username G")
  case (Some q)
  with assms find_convo_Some [OF Some] show ?thesis by (auto simp: getOrCreateConvo_def)
next
  case None
  let ?c = "cv_Init (zero_convo\<lparr>peerUsername := username, myUsername := gc_myName G\<rparr>)"
  let ?vs = "case gc_views G username of None \<Rightarrow> (gc_views G)(username \<mapsto> []) | Some _ \<Rightarrow> gc_views G"
  have c: "peerUsername ?c = username" "myUsername ?c = gc_myName G" "focused ?c = False"
    by (simp_all add: cv_Init_def zero_convo_def)
  have G': "G' = G\<lparr>gc_store := (gc_store G)(gc_next G := ?c), gc_next := Suc (gc_next G),
      gc_conversations := gc_conversations G @ [gc_next G], gc_views := ?vs\<rparr>" "p = gc_next G"
    using assms(2) None by (auto simp: getOrCreateConvo_def setConvoView_def Let_def ViewName_def c split: if_splits option.splits)
  have views: "?vs username \<noteq> None" "gc_views G n \<noteq> None \<Longrightarrow> ?vs n \<noteq> None" for n
    by (auto split: option.splits)
  have old: "q < gc_next G" if "q \<in> set (gc_conversations G)" for q
    using assms(1) that by (auto simp: gui_inv_def)
  then have fresh: "gc_next G \<notin> set (gc_conversations G)" "gc_next G \<notin> set (gc_active G)"
    using assms(1) by (auto simp: gui_inv_def)
  then have "gc_selected G \<noteq> Some (gc_next G)" using assms(1) by (auto simp: gui_inv_def)
  moreover have "inj_on (\<lambda>q. peerUsername (((gc_store G)(gc_next G := ?c)) q)) (insert (gc_next G) (set (gc_conversations G)))"
    using assms(1) None fresh(1) unfolding find_convo_None
    by (auto simp: inj_on_def c gui_inv_def)
  ultimately have "gui_inv G'"
    using assms(1) views fresh unfolding G' gui_inv_def by (auto simp: c less_Suc_eq)
  with G' c show ?thesis by simp
qed

lemma getOrCreateConvo_Ok:
  assumes "gui_inv G" and "\<not> ge_SetViewFails E username"
  obtains G' p where "getOrCreateConvo E username G = Ok (G', p)" "gui_inv G'" "p \<in> set (gc_conversations G')"
    "peerUsername (gc_store G' p) = username" "gc_active G' = gc_active G"
proof -
  obtain G' p where run: "getOrCreateConvo E username G = Ok (G', p)"
    using assms(2)
    by (cases "find_convo username G")
      (simp_all add: getOrCreateConvo_def setConvoView_def Let_def ViewName_def cv_Init_def zero_convo_def)
  with getOrCreateConvo_inv [OF assms(1) run] that show thesis by blast
qed

lemma on_convo_fields [simp]:
  "gc_conversations (on_convo f p G) = gc_conversations G" "gc_active (on_convo f p G) = gc_active G"
  "gc_next (on_convo f p G) = gc_next G" "gc_pending (on_convo f p G) = gc_pending G"
  "gc_selected (on_convo f p G) = gc_selected G" "gc_myName (on_convo f p G) = gc_myName G"
  "q \<noteq> p \<Longrightarrow> gc_store (on_convo f p G) q = gc_store G q"
  by (simp_all add: on_convo_def Let_def)

lemma convo_WarnfSync_conversations [simp]:
  "gc_conversations (convo_WarnfSync E line p G) = gc_conversations G"
  "gc_active (convo_WarnfSync E line p G) = gc_active G"
  by (simp_all add: convo_WarnfSync_def)

lemma activate_or_hold_inv:
  assumes "gui_inv G" and "p \<in> set (gc_conversations G)"
  shows "gui_inv (activate_or_hold E p wheel G)"
proof (cases "snd (activateConvo p wheel G)")
  case True
  with activateConvo_inv [OF assms, of wheel] show ?thesis
    by (auto simp: activate_or_hold_def split: prod.splits bool.splits)
next
  case False
  then have "activateConvo p wheel G = (G, False)" by (auto simp: activateConvo_def split: if_splits)
  moreover have "gui_inv (G\<lparr>gc_store := (gc_store G)(p := (gc_store G p)\<lparr>pendingCall := Some wheel\<rparr>)\<rparr>)"
    by (rule gui_inv_store [OF assms(1)]) (simp add: convo_stays_def)
  ultimately show ?thesis by (simp add: activate_or_hold_def Warnf_inv)
qed

lemma desktop_notify_conversations [simp]: "gc_conversations (desktop_notify n G) = gc_conversations G"
  by (simp add: desktop_notify_def)

lemma stdRoundSyncer_total:
  "\<exists>start intent. outgoingCallConvoRound stdRoundSyncer round = Ok (start, intent)"
  "\<exists>start. incomingCallConvoRound stdRoundSyncer round intent = Ok start"
  by (simp_all add: outgoingCallConvoRound_def incomingCallConvoRound_def epochStart_def stdRoundSyncer_def Let_def)

definition answered :: "(client_err, u32) outcome \<Rightarrow> bool" where
  "answered latest \<longleftrightarrow> (\<forall>q. latest \<noteq> Panic q) \<and> latest \<noteq> Hang"

lemma SendingCall_Ok:
  assumes "gui_inv G" and "\<not> ge_SetViewFails E username" and "answered latest"
  shows "\<exists>G'. SendingCall E latest username key G = Ok G' \<and> gui_inv G'"
proof -
  obtain G1 p where run: "getOrCreateConvo E username G = Ok (G1, p)" "gui_inv G1" "p \<in> set (gc_conversations G1)"
    using getOrCreateConvo_Ok [OF assms(1,2)] by metis
  show ?thesis
  proof (cases latest)
    case (Ok round)
    obtain start intent where sync: "outgoingCallConvoRound stdRoundSyncer round = Ok (start, intent)"
      using stdRoundSyncer_total(1) by blast
    show ?thesis using Ok run sync by (simp add: SendingCall_def Let_def activate_or_hold_inv Warnf_inv)
  qed (use run assms(3) in \<open>simp_all add: SendingCall_def Let_def Warnf_inv answered_def\<close>)
qed

lemma ReceivedCall_Ok:
  assumes "gui_inv G" and "\<not> ge_SetViewFails E username" and "answered latest"
  shows "\<exists>G'. ReceivedCall E latest username intent key G = Ok G' \<and> gui_inv G'"
proof -
  obtain G1 p where run: "getOrCreateConvo E username G = Ok (G1, p)" "gui_inv G1" "p \<in> set (gc_conversations G1)"
    using getOrCreateConvo_Ok [OF assms(1,2)] by metis
  show ?thesis
  proof (cases latest)
    case (Ok round)
    obtain start where sync: "incomingCallConvoRound stdRoundSyncer round intent = Ok start"
      using stdRoundSyncer_total(2) by blast
    show ?thesis using Ok run sync by (simp add: ReceivedCall_def Let_def activate_or_hold_inv Warnf_inv)
  qed (use run assms(3) in \<open>simp_all add: ReceivedCall_def Let_def Warnf_inv answered_def\<close>)
qed

lemma friend_callbacks_inv:
  assumes "gui_inv G"
  shows "gui_inv (ConfirmedFriend E u G)" "gui_inv (SentFriendRequest E u G)"
    "gui_inv (ReceivedFriendRequest E u G)" "gui_inv (UnexpectedSigningKey E u G)" "gui_inv (gc_GlobalAnnouncement E u G)"
  using assms
  by (simp_all add: ConfirmedFriend_def SentFriendRequest_def ReceivedFriendRequest_def UnexpectedSigningKey_def
      gc_GlobalAnnouncement_def Warnf_inv)

lemma gc_NewConfig_Ok:
  "gui_inv G \<Longrightarrow> configs \<noteq> [] \<Longrightarrow> \<exists>G'. gc_NewConfig E configs G = Ok G' \<and> gui_inv G'"
  by (simp add: gc_NewConfig_def Let_def Warnf_inv)

text \<open>Redrawing.\<close>

lemma set_views_inv: "gui_inv G \<Longrightarrow> gui_inv (fst (set_views E names G))"
proof (induction names arbitrary: G)
  case (Cons name names)
  with setConvoView_inv [OF Cons.prems, of E name] show ?case
    by (auto split: prod.splits option.splits)
qed simp

lemma layout_inv:
  assumes "gui_inv G"
  shows "gui_inv (fst (layout E fmt1 autoscroll G))"
proof -
  let ?names = "''main'' # map (\<lambda>p. ViewName (gc_store G p)) (gc_conversations G)"
  obtain G1 e where run: "set_views E ?names G = (G1, e)" by fastforce
  then have G1: "gui_inv G1" using set_views_inv [OF assms, of E ?names] by simp
  have status: "gui_inv (G1\<lparr>gc_views := (gc_views G1)(''status'' \<mapsto> ls)\<rparr>)" for ls
    by (rule gui_inv_views [OF G1]) simp
  have partner: "gui_inv (G1\<lparr>gc_views := (gc_views G1)(''status'' \<mapsto> ls, ''partner'' \<mapsto> ks)\<rparr>)" for ls ks
    by (rule gui_inv_views [OF G1]) simp
  have input: "gui_inv (fst (case setConvoView E ''input'' G3 of (G4, Some e) \<Rightarrow> (G4, Some e)
      | (G4, None) \<Rightarrow> setViewOnTop (current_view G4) G4))" if "gui_inv G3" for G3
    using setConvoView_inv [OF that, of E "''input''"] by (auto split: prod.splits option.splits)
  show ?thesis
    using G1 by (cases e) (simp_all add: layout_def run Let_def status partner input del: set_views.simps)
qed

text \<open>The first redraw establishes the invariant.\<close>

lemma gui_start_inv:
  assumes "layout E fmt1 autoscroll (new_gui name) = (G, None)"
  shows "gui_inv G"
  using assms
  by (auto simp: layout_def new_gui_def setConvoView_def current_view_def setViewOnTop_def raise_view_def gui_inv_def
      zero_convo_def Let_def split: if_splits)

definition toy_gui_env :: gui_env where
  "toy_gui_env =
     \<lparr>ge_crypto = toy_crypto, ge_col = (\<lambda>_ s. s), ge_clock = ''12:00:00'', ge_now = 0,
      ge_dummy = (\<lambda>_ _. \<lparr>DeadDrop = replicate 16 0, EncryptedMessage = replicate 256 0\<rparr>), ge_order = (\<lambda>ps. ps),
      ge_Quote = (\<lambda>s. s), ge_SetViewFails = (\<lambda>_. False), ge_debug = False,
      ge_entry = (\<lambda>msg. \<lparr>le_Info = False, le_Color = Bold, le_Icon = [], le_Time = [], le_Message = msg, le_Fields = []\<rparr>),
      ge_detail = (\<lambda>_. [])\<rparr>"

definition toy_gui :: "string \<Rightarrow> gui" where
  "toy_gui name = fst (layout toy_gui_env print_nat (\<lambda>_. True) (new_gui name))"

lemma toy_gui_simps:
  "gui_inv (toy_gui name)" "order_ok toy_gui_env" "gc_active (toy_gui name) = []" "gc_myName (toy_gui name) = name"
  "gc_conversations (toy_gui name) = []" "gc_alpenhorn (toy_gui name) = []" "\<not> ge_SetViewFails toy_gui_env n"
  "ge_crypto toy_gui_env = toy_crypto"
proof -
  obtain G e where run: "layout toy_gui_env print_nat (\<lambda>_. True) (new_gui name) = (G, e)" by fastforce
  then have "e = None" and same: "gc_active G = []" "gc_myName G = name" "gc_conversations G = []" "gc_alpenhorn G = []"
    by (auto simp: layout_def new_gui_def toy_gui_env_def setConvoView_def current_view_def setViewOnTop_def raise_view_def
        Let_def)
  then show "gui_inv (toy_gui name)" using gui_start_inv run by (simp add: toy_gui_def)
  show "gc_active (toy_gui name) = []" "gc_myName (toy_gui name) = name" "gc_conversations (toy_gui name) = []"
    "gc_alpenhorn (toy_gui name) = []"
    using run same by (simp_all add: toy_gui_def)
qed (simp_all add: toy_gui_env_def order_ok_def)

section \<open>The client as the handler of the conversation client\<close>

text \<open>
  The client behind \<open>ConvoHandler\<close>: it always answers with five messages and accepts five replies, so
  the lemmas of the interface hold for it.
\<close>

interpretation gui_end: convo_endpoint "gui_handler E" "\<lambda>G. gui_inv G \<and> order_ok E" NumOutgoing for E
proof
  fix G r assume I: "gui_inv G \<and> order_ok E"
  then obtain s ms where "Outgoing E r G = Ok (G\<lparr>gc_store := s, gc_pending := (gc_pending G)(r \<mapsto> ge_order E (gc_active G))\<rparr>,
       ms @ map (ge_dummy E r) [length ms..<NumOutgoing])" "length ms = length (gc_active G)"
    "gui_inv (G\<lparr>gc_store := s, gc_pending := (gc_pending G)(r \<mapsto> ge_order E (gc_active G))\<rparr>)"
    using Outgoing_Ok by metis
  moreover have "length (gc_active G) \<le> NumOutgoing" using I by (simp add: gui_inv_def)
  ultimately show "\<exists>h' ms. hd_Outgoing (gui_handler E) r G = Ok (h', ms) \<and> (gui_inv h' \<and> order_ok E) \<and> length ms = NumOutgoing"
    using I by (auto simp: gui_handler_def)
next
  fix G r and msgs :: "bytes option list" assume "gui_inv G \<and> order_ok E" "length msgs = NumOutgoing"
  then show "\<exists>h'. hd_Replies (gui_handler E) r msgs G = Ok h' \<and> gui_inv h' \<and> order_ok E"
    using Replies_Ok [of G msgs E r] by (simp add: gui_handler_def)
next
  fix G and configs :: "signed_config list" assume "gui_inv G \<and> order_ok E" "configs \<noteq> []"
  then show "\<exists>h'. hd_NewConfig (gui_handler E) configs G = Ok h' \<and> gui_inv h' \<and> order_ok E"
    using gc_NewConfig_Ok by (simp add: gui_handler_def)
qed (simp_all add: gui_handler_def errors_inv friend_callbacks_inv)

section \<open>Rounds of the client\<close>

definition dummies_ok :: "gui_env \<Rightarrow> bool" where
  "dummies_ok E \<longleftrightarrow> (\<forall>r i. length (DeadDrop (ge_dummy E r i)) = 16 \<and>
     length (EncryptedMessage (ge_dummy E r i)) = SizeEncryptedMessageBody)"

lemma NextMessage_sizes:
  assumes "NextMessage H dummy now round c = Ok (c', m)"
    and "length (DeadDrop dummy) = 16" and "length (EncryptedMessage dummy) = SizeEncryptedMessageBody"
  shows "length (DeadDrop m) = 16 \<and> length (EncryptedMessage m) = SizeEncryptedMessageBody"
proof -
  obtain c1 msg where pay: "next_payload round (c\<lparr>lastRound := round\<rparr>) = (c1, msg)" by fastforce
  obtain c2 key where key: "rollAndReplaceKey H round c1 = Ok (c2, key)" using assms(1) pay by (auto simp: NextMessage_def)
  show ?thesis
    using assms pay key by (cases key) (auto simp: NextMessage_def Let_def deadDrop_def)
qed

text \<open>Message \<open>j\<close> of the batch is the message of the conversation at position \<open>j\<close>.\<close>

lemma next_messages_nth:
  assumes "next_messages E round i ps s = Ok (s', ms)" and "distinct ps" and "j < length ps"
  shows "NextMessage (ge_crypto E) (ge_dummy E round (i + j)) (ge_now E) round (s (ps ! j)) = Ok (s' (ps ! j), ms ! j)"
  using assms
proof (induction ps arbitrary: i s j ms)
  case (Cons p ps)
  obtain c m s1 ms1 where step: "NextMessage (ge_crypto E) (ge_dummy E round i) (ge_now E) round (s p) = Ok (c, m)"
    "next_messages E round (Suc i) ps (s(p := c)) = Ok (s', ms1)" "ms = m # ms1"
    using Cons.prems(1) by auto
  have other: "q \<notin> set ps \<Longrightarrow> next_messages E round i' ps t = Ok (t', ms') \<Longrightarrow> t' q = t q" for q i' t t' ms'
    by (induction ps arbitrary: i' t ms') auto
  show ?case
  proof (cases j)
    case 0
    with step other [OF _ step(2), of p] Cons.prems(2) show ?thesis by simp
  next
    case (Suc j')
    moreover have "ps ! j' \<noteq> p" using Cons.prems(2,3) Suc by (auto simp: in_set_conv_nth)
    ultimately show ?thesis using Cons.IH [OF step(2), of j'] Cons.prems(2,3) step(3) by simp
  qed
qed simp

lemma next_messages_length: "next_messages E round i ps s = Ok (s', ms) \<Longrightarrow> length ms = length ps"
  by (induction ps arbitrary: i s ms) auto

text \<open>Reply \<open>j\<close> reaches the conversation at position \<open>j\<close>, whatever its view shows, and no other.\<close>

definition replied :: "gui_env \<Rightarrow> u32 \<Rightarrow> bytes option \<Rightarrow> conversation \<Rightarrow> conversation \<Rightarrow> bool" where
  "replied E round m c c' \<longleftrightarrow>
     (\<exists>v. c' = (cv_Reply (ge_crypto E) (ge_col E) (ge_clock E) (ge_now E) round (case m of None \<Rightarrow> [] | Some b \<Rightarrow> b)
        (c\<lparr>view := v\<rparr>))\<lparr>view := None\<rparr>)"

lemma give_reply_store:
  "replied E round m (gc_store G p) (gc_store (give_reply E round m p G) p)"
  "q \<noteq> p \<Longrightarrow> gc_store (give_reply E round m p G) q = gc_store G q"
  by (auto simp: replied_def give_reply_def on_convo_def Let_def)

lemma give_replies_store:
  assumes "give_replies E round ps msgs G = Ok G'" and "distinct ps"
  shows "(\<forall>j < length ps. replied E round (msgs ! j) (gc_store G (ps ! j)) (gc_store G' (ps ! j))) \<and>
    (\<forall>q. q \<notin> set ps \<longrightarrow> gc_store G' q = gc_store G q) \<and> gc_pending G' = gc_pending G"
  using assms
proof (induction ps arbitrary: msgs G)
  case (Cons p ps)
  obtain m ms where msgs: "msgs = m # ms" using Cons.prems(1) by (cases msgs) auto
  let ?G1 = "give_reply E round m p G"
  have IH: "\<And>j. j < length ps \<Longrightarrow> replied E round (ms ! j) (gc_store ?G1 (ps ! j)) (gc_store G' (ps ! j))"
    "\<And>q. q \<notin> set ps \<Longrightarrow> gc_store G' q = gc_store ?G1 q" "gc_pending G' = gc_pending ?G1"
    using Cons.IH [of ms ?G1] Cons.prems msgs by auto
  have later: "gc_store ?G1 (ps ! j) = gc_store G (ps ! j)" if "j < length ps" for j
    using Cons.prems(2) that by (auto intro: give_reply_store(2))
  have "replied E round (msgs ! j) (gc_store G ((p # ps) ! j)) (gc_store G' ((p # ps) ! j))" if j: "j < length (p # ps)" for j
  proof (cases j)
    case 0
    with IH(2) [of p] Cons.prems(2) msgs show ?thesis by (simp add: give_reply_store(1))
  next
    case (Suc j')
    with IH(1) [of j'] later [of j'] j msgs show ?thesis by simp
  qed
  moreover have "gc_pending ?G1 = gc_pending G" by (simp add: give_reply_def)
  ultimately show ?case using IH(2,3) give_reply_store(2) by (metis list.set_intros)
qed simp

text \<open>A batch: who wrote which message.\<close>

lemma Outgoing_run:
  assumes "gui_inv G" and "order_ok E"
  obtains G' out ps where "Outgoing E round G = Ok (G', out)" "gui_inv G'" "length out = NumOutgoing"
    "mset ps = mset (gc_active G)" "distinct ps" "length ps \<le> NumOutgoing"
    "gc_pending G' = (gc_pending G)(round \<mapsto> ps)"
    "\<And>j. j < length ps \<Longrightarrow> NextMessage (ge_crypto E) (ge_dummy E round j) (ge_now E) round (gc_store G (ps ! j)) =
       Ok (gc_store G' (ps ! j), out ! j)"
    "\<And>j. length ps \<le> j \<Longrightarrow> j < NumOutgoing \<Longrightarrow> out ! j = ge_dummy E round j"
proof -
  let ?ps = "ge_order E (gc_active G)"
  obtain s ms where run: "next_messages E round 0 ?ps (gc_store G) = Ok (s, ms)"
    "Outgoing E round G = Ok (G\<lparr>gc_store := s, gc_pending := (gc_pending G)(round \<mapsto> ?ps)\<rparr>,
       ms @ map (ge_dummy E round) [length ms..<NumOutgoing])" "length ms = length (gc_active G)"
    "gui_inv (G\<lparr>gc_store := s, gc_pending := (gc_pending G)(round \<mapsto> ?ps)\<rparr>)"
    using Outgoing_Ok [OF assms] by metis
  have perm: "mset ?ps = mset (gc_active G)" using assms(2) by (simp add: order_ok_def)
  then have ps: "distinct ?ps" "length ?ps = length ms" "length ms \<le> NumOutgoing"
    using assms(1) run(3) by (auto simp: gui_inv_def dest: mset_eq_imp_distinct_iff mset_eq_length)
  show thesis
    using run(2,4) perm ps next_messages_nth [OF run(1) ps(1)]
    by (intro that [of "G\<lparr>gc_store := s, gc_pending := (gc_pending G)(round \<mapsto> ?ps)\<rparr>"
          "ms @ map (ge_dummy E round) [length ms..<NumOutgoing]" ?ps]) (simp_all add: nth_append)
qed

section \<open>Properties\<close>

text \<open>
  C4. An observer of the client's link learns nothing from the number or size of its messages: in
  every round, whatever conversations are active, the client sends exactly five messages, each with a
  dead drop of 16 bytes and an encrypted body of the fixed size, the first ones of the active
  conversations, one each.
\<close>

theorem outgoing_constant_rate:
  assumes "gui_inv G" and "order_ok E" and "dummies_ok E"
  shows "\<exists>G' out. Outgoing E round G = Ok (G', out) \<and> length out = NumOutgoing \<and>
    (\<forall>m \<in> set out. length (DeadDrop m) = 16 \<and> length (EncryptedMessage m) = SizeEncryptedMessageBody) \<and>
    (\<exists>ps. mset ps = mset (gc_active G) \<and> gc_pending G' round = Some ps \<and> (\<forall>j < length ps. \<exists>dummy.
       NextMessage (ge_crypto E) dummy (ge_now E) round (gc_store G (ps ! j)) = Ok (gc_store G' (ps ! j), out ! j)))"
proof -
  obtain G' out ps where run: "Outgoing E round G = Ok (G', out)" "length out = NumOutgoing"
    "mset ps = mset (gc_active G)" "gc_pending G' = (gc_pending G)(round \<mapsto> ps)"
    "\<And>j. j < length ps \<Longrightarrow> NextMessage (ge_crypto E) (ge_dummy E round j) (ge_now E) round (gc_store G (ps ! j)) =
       Ok (gc_store G' (ps ! j), out ! j)"
    "\<And>j. length ps \<le> j \<Longrightarrow> j < NumOutgoing \<Longrightarrow> out ! j = ge_dummy E round j"
    using Outgoing_run [OF assms(1,2), of round] by metis
  have "length (DeadDrop m) = 16 \<and> length (EncryptedMessage m) = SizeEncryptedMessageBody" if m: "m \<in> set out" for m
  proof -
    obtain j where "j < NumOutgoing" "out ! j = m" using m run(2) by (auto simp: in_set_conv_nth)
    with run(6) [of j] NextMessage_sizes [OF run(5) [of j]] assms(3) show ?thesis
      by (cases "j < length ps") (auto simp: dummies_ok_def)
  qed
  with run show ?thesis by (intro exI [of _ G'] exI [of _ out]) auto
qed

text \<open>
  C3. Replies reach the conversation whose message they answer: when the replies of a round arrive,
  after anything else has happened in between, reply \<open>j\<close> goes to the conversation that wrote message
  \<open>j\<close> of the batch, even if the user has hung up meanwhile, and to no other; a second reply to the
  round changes nothing.
\<close>

theorem replies_routed:
  assumes "gui_inv G" and "order_ok E" and "Outgoing E round G = Ok (G1, out)"
    and "gui_inv G2" and "gc_pending G2 round = gc_pending G1 round"
    and "length msgs = NumOutgoing"
  shows "\<exists>G3. Replies E' round msgs G2 = Ok G3 \<and> gui_inv G3 \<and>
    (\<forall>p \<in> set (gc_active G). \<exists>j < NumOutgoing.
       (\<exists>dummy. NextMessage (ge_crypto E) dummy (ge_now E) round (gc_store G p) = Ok (gc_store G1 p, out ! j)) \<and>
       replied E' round (msgs ! j) (gc_store G2 p) (gc_store G3 p)) \<and>
    (\<forall>p. p \<notin> set (gc_active G) \<longrightarrow> gc_store G3 p = gc_store G2 p) \<and>
    Replies E'' round msgs' G3 = Ok G3"
proof -
  obtain ps where run: "mset ps = mset (gc_active G)" "distinct ps" "length ps \<le> NumOutgoing"
    "gc_pending G1 = (gc_pending G)(round \<mapsto> ps)"
    "\<And>j. j < length ps \<Longrightarrow> NextMessage (ge_crypto E) (ge_dummy E round j) (ge_now E) round (gc_store G (ps ! j)) =
       Ok (gc_store G1 (ps ! j), out ! j)"
    using Outgoing_run [OF assms(1,2), of round] assms(3) by (metis outcome.inject(1) prod.inject)
  have set: "set ps = set (gc_active G)" using run(1) by (rule mset_eq_setD)
  obtain G3 where rep: "Replies E' round msgs G2 = Ok G3" "gui_inv G3" using Replies_Ok [OF assms(4)] assms(6) by (metis order_refl)
  then have give: "give_replies E' round ps msgs (G2\<lparr>gc_pending := (gc_pending G2)(round := None)\<rparr>) = Ok G3"
    using assms(5) run(4) by (simp add: Replies_def)
  note store = give_replies_store [OF give run(2)]
  have "\<exists>j < NumOutgoing.
      (\<exists>dummy. NextMessage (ge_crypto E) dummy (ge_now E) round (gc_store G p) = Ok (gc_store G1 p, out ! j)) \<and>
      replied E' round (msgs ! j) (gc_store G2 p) (gc_store G3 p)" if p: "p \<in> set (gc_active G)" for p
  proof -
    obtain j where "j < length ps" "ps ! j = p" using p set by (metis in_set_conv_nth)
    with run(3) run(5) [of j] store show ?thesis by (intro exI [of _ j]) auto
  qed
  with rep store set show ?thesis by (intro exI [of _ G3]) (auto simp: Replies_def)
qed

lemma on_convo_names:
  assumes "\<And>c. convo_keeps c (f c)"
  shows "peerUsername (gc_store (on_convo f p G) q) = peerUsername (gc_store G q)"
    "myUsername (gc_store (on_convo f p G) q) = myUsername (gc_store G q)"
  using assms [of "(gc_store G p)\<lparr>view := gc_views G (ViewName (gc_store G p))\<rparr>"]
  by (auto simp: on_convo_def Let_def convo_keeps_defs)

text \<open>What a call leaves behind in a client with a free slot: an active conversation with the key of the call.\<close>

definition talks :: "gui \<Rightarrow> string \<Rightarrow> bytes \<Rightarrow> u32 \<Rightarrow> bool" where
  "talks G peer key start \<longleftrightarrow> (\<exists>p \<in> set (gc_active G). peerUsername (gc_store G p) = peer \<and>
     myUsername (gc_store G p) = gc_myName G \<and> sessionKey (gc_store G p) = Some key \<and> sessionKeyRound (gc_store G p) = start)"

lemma getOrCreateConvo_myName: "getOrCreateConvo E u G = Ok (G', p) \<Longrightarrow> gc_myName G' = gc_myName G"
  by (auto simp: getOrCreateConvo_def setConvoView_def Let_def split: option.splits if_splits)

lemma activate_or_hold_talks:
  assumes "gui_inv G" and "p \<in> set (gc_conversations G)" and "length (gc_active G) < NumOutgoing"
  shows "talks (activate_or_hold E p \<lparr>ks_sessionKey = key, ks_convoRound = start\<rparr> G) (peerUsername (gc_store G p)) key start"
proof -
  have "myUsername (gc_store G p) = gc_myName G" using assms(1,2) by (simp add: gui_inv_def)
  with assms(3) show ?thesis
    by (auto simp: activate_or_hold_def activateConvo_def talks_def start_wheel_def)
qed

lemma SendingCall_talks:
  assumes "gui_inv G" and "length (gc_active G) < NumOutgoing" and "\<not> ge_SetViewFails E peer"
    and "outgoingCallConvoRound stdRoundSyncer round = Ok (start, intent)"
  shows "\<exists>G'. SendingCall E (Ok round) peer key G = Ok G' \<and> gui_inv G' \<and> talks G' peer key start \<and>
    gc_alpenhorn G' = gc_alpenhorn G @ [UpdateIntent peer intent] \<and> gc_myName G' = gc_myName G"
proof -
  obtain G1 p where run: "getOrCreateConvo E peer G = Ok (G1, p)" "gui_inv G1" "p \<in> set (gc_conversations G1)"
    "peerUsername (gc_store G1 p) = peer" "gc_active G1 = gc_active G"
    using getOrCreateConvo_Ok [OF assms(1,3)] by metis
  have alp: "gc_alpenhorn G1 = gc_alpenhorn G"
    using run(1) by (auto simp: getOrCreateConvo_def setConvoView_def Let_def split: option.splits if_splits)
  let ?G2 = "convo_WarnfSync E (''Calling '' @ peer @ '' ...'' @ nl) p G1"
  let ?G3 = "?G2\<lparr>gc_alpenhorn := gc_alpenhorn ?G2 @ [UpdateIntent peer intent]\<rparr>"
  have "gui_inv ?G3" using run(2) by (simp add: Warnf_inv)
  moreover have "p \<in> set (gc_conversations ?G3)" "length (gc_active ?G3) < NumOutgoing" "gc_alpenhorn ?G2 = gc_alpenhorn G"
    "peerUsername (gc_store ?G3 p) = peer"
    using run assms(2) alp by (simp_all add: convo_WarnfSync_def on_convo_names) (simp add: on_convo_def Let_def)
  ultimately show ?thesis
    using run(1) assms(4) activate_or_hold_talks [of ?G3 p E key start] activate_or_hold_inv [of ?G3 p E]
      getOrCreateConvo_myName [OF run(1)]
    by (auto simp: SendingCall_def Let_def activate_or_hold_def activateConvo_def convo_WarnfSync_def split: if_splits)
qed

lemma ReceivedCall_talks:
  assumes "gui_inv G" and "length (gc_active G) < NumOutgoing" and "\<not> ge_SetViewFails E peer"
    and "incomingCallConvoRound stdRoundSyncer round intent = Ok start"
  shows "\<exists>G'. ReceivedCall E (Ok round) peer intent key G = Ok G' \<and> gui_inv G' \<and> talks G' peer key start \<and>
    gc_myName G' = gc_myName G"
proof -
  obtain G1 p where run: "getOrCreateConvo E peer G = Ok (G1, p)" "gui_inv G1" "p \<in> set (gc_conversations G1)"
    "peerUsername (gc_store G1 p) = peer" "gc_active G1 = gc_active G"
    using getOrCreateConvo_Ok [OF assms(1,3)] by metis
  let ?G2 = "desktop_notify (''Call from '' @ peer) (convo_WarnfSync E (''Received call: '' @ peer @ nl) p G1)"
  have "gui_inv ?G2" using run(2) by (simp add: Warnf_inv)
  moreover have "p \<in> set (gc_conversations ?G2)" "length (gc_active ?G2) < NumOutgoing" "peerUsername (gc_store ?G2 p) = peer"
    using run assms(2) by (simp_all add: convo_WarnfSync_def on_convo_names desktop_notify_def)
  ultimately show ?thesis
    using run(1) assms(4) activate_or_hold_talks [of ?G2 p E key start] activate_or_hold_inv [of ?G2 p E]
      getOrCreateConvo_myName [OF run(1)]
    by (auto simp: ReceivedCall_def Let_def activate_or_hold_def activateConvo_def convo_WarnfSync_def desktop_notify_def
        split: if_splits)
qed

text \<open>The message of an active conversation is in the batch.\<close>

lemma Outgoing_contains:
  assumes "gui_inv G" and "order_ok E" and "p \<in> set (gc_active G)"
  shows "\<exists>G' out j dummy. Outgoing E round G = Ok (G', out) \<and> j < NumOutgoing \<and> length out = NumOutgoing \<and>
    NextMessage (ge_crypto E) dummy (ge_now E) round (gc_store G p) = Ok (gc_store G' p, out ! j)"
proof -
  obtain G' out ps where run: "Outgoing E round G = Ok (G', out)" "length out = NumOutgoing"
    "mset ps = mset (gc_active G)" "length ps \<le> NumOutgoing"
    "\<And>j. j < length ps \<Longrightarrow> NextMessage (ge_crypto E) (ge_dummy E round j) (ge_now E) round (gc_store G (ps ! j)) =
       Ok (gc_store G' (ps ! j), out ! j)"
    using Outgoing_run [OF assms(1,2), of round] by metis
  obtain j where "j < length ps" "ps ! j = p" using assms(3) mset_eq_setD [OF run(3)] by (metis in_set_conv_nth)
  with run show ?thesis by (metis order_less_le_trans)
qed

lemma NextMessage_parts:
  assumes "secretbox_ok H" and "rollKey H (sessionKey c) (sessionKeyRound c) r = Ok (Some k)"
    and "NextMessage H dummy now r c = Ok (c', m)"
  shows "DeadDrop m = deadDrop H r k \<and> map_option roundKey (cv_rounds c' r) = Some k \<and>
    peerUsername c' = peerUsername c \<and> myUsername c' = myUsername c \<and>
    (\<exists>plain. EncryptedMessage m = SecretSeal H plain (name_nonce H r (peerUsername c)) k)"
proof -
  obtain c1 msg where pay: "next_payload r (c\<lparr>lastRound := r\<rparr>) = (c1, msg)" by fastforce
  then have "peerUsername c1 = peerUsername c" "myUsername c1 = myUsername c"
    by (auto simp: next_payload_def Let_def split: if_splits)
  with NextMessage_keyed [OF assms(1,2) pay, of dummy now] assms(3) show ?thesis
    by (auto simp: cv_Seal_def)
qed

lemma talks_sends:
  assumes "gui_inv G" and "order_ok E" and "ge_crypto E = H" and "secretbox_ok H" and "talks G peer key start"
    and "rollKey H (Some key) start R = Ok (Some k)"
  obtains G' out i p plain where "Outgoing E R G = Ok (G', out)" "i < NumOutgoing" "p \<in> set (gc_active G)"
    "DeadDrop (out ! i) = deadDrop H R k" "EncryptedMessage (out ! i) = SecretSeal H plain (name_nonce H R peer) k"
    "map_option roundKey (cv_rounds (gc_store G' p) R) = Some k"
    "peerUsername (gc_store G' p) = peer" "myUsername (gc_store G' p) = gc_myName G"
proof -
  from assms(5) obtain p where p: "p \<in> set (gc_active G)" "peerUsername (gc_store G p) = peer"
    "myUsername (gc_store G p) = gc_myName G" "sessionKey (gc_store G p) = Some key" "sessionKeyRound (gc_store G p) = start"
    by (auto simp: talks_def)
  obtain G' out i d where run: "Outgoing E R G = Ok (G', out)" "i < NumOutgoing"
    "NextMessage H d (ge_now E) R (gc_store G p) = Ok (gc_store G' p, out ! i)"
    using Outgoing_contains [OF assms(1,2) p(1), of R] assms(3) by blast
  with NextMessage_parts [OF assms(4) _ run(3), of k] p assms(6) that show thesis by auto
qed

lemma epoch_starts_before:
  assumes "outgoingCallConvoRound stdRoundSyncer r = Ok (start, intent)"
  shows "start \<le> r"
proof -
  have "start = r div 10000 * 10000"
    using assms by (simp add: outgoingCallConvoRound_def epochStart_def stdRoundSyncer_def Let_def)
  moreover have "unat (r div 10000 * 10000) = unat r div 10000 * 10000"
  proof -
    have "unat r div 10000 * 10000 < 2 ^ 32" using unat32_less [of r] by (metis div_times_less_eq_dividend order_le_less_trans)
    then show ?thesis by (simp add: unat_word_ariths unat_div32)
  qed
  ultimately show ?thesis by (simp add: word_le_nat_alt)
qed


lemma toy_dummies: "dummies_ok toy_gui_env"
  by (simp add: dummies_ok_def toy_gui_env_def convo_sizes)

lemma toy_call:
  obtains A' where "SendingCall toy_gui_env (Ok 20000) ''bob'' (replicate 32 1) (toy_gui ''alice'') = Ok A'" "gui_inv A'"
    "talks A' ''bob'' (replicate 32 1) 20000" "gc_alpenhorn A' = [] @ [UpdateIntent ''bob'' 0]"
proof -
  have "outgoingCallConvoRound stdRoundSyncer 20000 = Ok (20000, 0)"
    by (simp add: outgoingCallConvoRound_def epochStart_def stdRoundSyncer_def)
  from SendingCall_talks [OF toy_gui_simps(1) _ toy_gui_simps(7) this, of "''alice''" "''bob''" "replicate 32 1"] that
  show thesis by (auto simp: toy_gui_simps NumOutgoing_def)
qed

theorem outgoing_constant_rate_witness:
  "\<exists>A' A'' out. SendingCall toy_gui_env (Ok 20000) ''bob'' (replicate 32 1) (toy_gui ''alice'') = Ok A' \<and>
     gc_active A' \<noteq> [] \<and> Outgoing toy_gui_env 20007 A' = Ok (A'', out) \<and> length out = 5"
proof -
  obtain A' where A: "SendingCall toy_gui_env (Ok 20000) ''bob'' (replicate 32 1) (toy_gui ''alice'') = Ok A'" "gui_inv A'"
    "talks A' ''bob'' (replicate 32 1) 20000"
    by (rule toy_call)
  from A(3) have "gc_active A' \<noteq> []" by (auto simp: talks_def)
  with outgoing_constant_rate [OF A(2) toy_gui_simps(2) toy_dummies, of 20007] A(1) show ?thesis
    by (auto simp: NumOutgoing_def)
qed

theorem replies_routed_witness:
  "\<exists>A' A1 out A3. SendingCall toy_gui_env (Ok 20000) ''bob'' (replicate 32 1) (toy_gui ''alice'') = Ok A' \<and>
     gc_active A' \<noteq> [] \<and> Outgoing toy_gui_env 20007 A' = Ok (A1, out) \<and>
     Replies toy_gui_env 20007 (replicate 5 None) A1 = Ok A3 \<and> Replies toy_gui_env 20007 [] A3 = Ok A3"
proof -
  obtain A' where A: "SendingCall toy_gui_env (Ok 20000) ''bob'' (replicate 32 1) (toy_gui ''alice'') = Ok A'" "gui_inv A'"
    "talks A' ''bob'' (replicate 32 1) 20000"
    by (rule toy_call)
  from A(3) have act: "gc_active A' \<noteq> []" by (auto simp: talks_def)
  obtain A1 out where run: "Outgoing toy_gui_env 20007 A' = Ok (A1, out)" "gui_inv A1"
    using Outgoing_run [OF A(2) toy_gui_simps(2), of 20007] by metis
  from replies_routed [OF A(2) toy_gui_simps(2) run refl, of "replicate 5 None" toy_gui_env toy_gui_env "[]"] A(1) act run
  show ?thesis by (auto simp: NumOutgoing_def)
qed


section \<open>The conversation client with the user's client behind it\<close>

lemma verify_mixers_total:
  "length mixers \<le> length sigs \<Longrightarrow> \<forall>mixer \<in> set mixers. length (Key mixer) = PublicKeySize \<Longrightarrow>
     (\<forall>q. verify_mixers P msg mixers sigs \<noteq> Panic q) \<and> verify_mixers P msg mixers sigs \<noteq> Hang"
  by (induction P msg mixers sigs rule: verify_mixers.induct) auto

text \<open>
  C35. The conversation client with the user's client as its handler takes every round without a crash:
  any reply message is processed; and in a round announced with a signature per mixer it either sends
  nothing or exactly five onions. The invariant of both, five onion keys for every round that was
  sent, is kept.
\<close>

theorem client_gui_rounds:
  assumes "client_inv (\<lambda>G. gui_inv G \<and> order_ok E) NumOutgoing c"
    and "length (cfg_MixServers (cr_Config st)) \<le> length (ni_MixSignatures v)"
    and "\<forall>mixer \<in> set (cfg_MixServers (cr_Config st)). length (Key mixer) = PublicKeySize"
  shows "(\<exists>c'. openReplyOnion X (gui_handler E) w c = Ok c' \<and> client_inv (\<lambda>G. gui_inv G \<and> order_ok E) NumOutgoing c') \<and>
    (\<exists>c' msg. client_runRound P enc X (gui_handler E) l1 l2 st v c = Ok (c', msg) \<and>
       client_inv (\<lambda>G. gui_inv G \<and> order_ok E) NumOutgoing c' \<and> (\<forall>m. msg = Some m \<longrightarrow> length (om_Onions m) = NumOutgoing))"
  using gui_end.openReplyOnion_total [OF assms(1)] gui_end.runRound_total [OF assms(1) refl]
    verify_mixers_total [OF assms(2,3)] by blast

theorem client_gui_rounds_witness:
  "\<exists>c' msg. client_runRound toy_nacl toy_enc toy_onionbox (gui_handler toy_gui_env) 0 10000000 toy_client_round toy_info
     (new_client (toy_gui ''me'') ''c'') = Ok (c', Some msg) \<and> length (om_Onions msg) = 5"
proof -
  have inv: "client_inv (\<lambda>G. gui_inv G \<and> order_ok toy_gui_env) NumOutgoing (new_client (toy_gui ''me'') ''c'')"
    by (simp add: client_inv_def new_client_def client_round_of_def toy_gui_simps)
  have cfg: "length (cfg_MixServers (cr_Config toy_client_round)) \<le> length (ni_MixSignatures toy_info)"
    "\<forall>mixer \<in> set (cfg_MixServers (cr_Config toy_client_round)). length (Key mixer) = PublicKeySize"
    by (simp_all add: toy_client_round_def toy_info_def toy_key_def PublicKeySize_def)
  have ver: "verify_mixers toy_nacl (SigningMessage toy_enc (ni_MixSettings toy_info)) (cfg_MixServers (cr_Config toy_client_round))
      (ni_MixSignatures toy_info) = Ok ()"
    by (simp add: toy_info_def toy_client_round_def toy_nacl_def PublicKeySize_def toy_key_def)
  obtain G out where out: "Outgoing toy_gui_env 7 (toy_gui ''me'') = Ok (G, out)"
    using Outgoing_run [OF toy_gui_simps(1,2), where round = 7] by metis
  then obtain c' msg where "client_runRound toy_nacl toy_enc toy_onionbox (gui_handler toy_gui_env) 0 10000000 toy_client_round
      toy_info (new_client (toy_gui ''me'') ''c'') = Ok (c', Some msg)"
    using ver by (simp add: client_runRound_def Let_def gui_handler_def new_client_def toy_info_def)
  with client_gui_rounds [OF inv cfg, of toy_onionbox "\<lparr>om_Round = 0, om_Onions = []\<rparr>" toy_nacl toy_enc 0 10000000]
  show ?thesis by (auto simp: NumOutgoing_def)
qed

end
