(* ===== verification/Gui_Connect.thy ===== *)
theory Gui_Connect
  imports Gui_Rounds
begin

text \<open>
  Connecting (\<open>cmd/gjallarhorn-client/connect.go\<close>) and the notifications that are held back while
  the user types (\<open>notify.go\<close>).
\<close>

section \<open>The private key generators\<close>

datatype pkg_code = ErrNotRegistered | ErrInvalidSignature | OtherCode nat

text \<open>An error of a key generator: a \<open>pkg.Error\<close> with its code and text, or any other error.\<close>

datatype pkg_error = PkgError pkg_code string | OtherError string

fun pkg_error_text :: "pkg_error \<Rightarrow> string" where
  "pkg_error_text (PkgError code text) = text"
| "pkg_error_text (OtherError text) = text"

record pkg_status =
  ps_Address :: string
  ps_Error :: "pkg_error option"

definition statusString :: "pkg_error option \<Rightarrow> string" where
  "statusString err =
     (case err of
        None \<Rightarrow> ''OK''
      | Some (PkgError ErrNotRegistered _) \<Rightarrow> ''Username not registered''
      | Some (PkgError ErrInvalidSignature _) \<Rightarrow> ''Invalid signature (username taken)''
      | Some e \<Rightarrow> pkg_error_text e)"

definition not_registered :: "pkg_status \<Rightarrow> bool" where
  "not_registered st \<longleftrightarrow> (case ps_Error st of Some (PkgError ErrNotRegistered _) \<Rightarrow> True | _ \<Rightarrow> False)"

text \<open>The bullet of a list, in UTF-8.\<close>

abbreviation bullet :: string where "bullet \<equiv> '' '' @ [CHR 0xC2, CHR 0xB7] @ ''  ''"

text \<open>The Alpenhorn client's own name of the user is \<open>username\<close>.\<close>

definition CheckPKGStatus :: "gui_env \<Rightarrow> string \<Rightarrow> pkg_status list \<Rightarrow> gui \<Rightarrow> gui \<times> bool" where
  "CheckPKGStatus E username stats G =
     (let numOK = length (filter (\<lambda>st. ps_Error st = None) stats);
          numUnregistered = length (filter not_registered stats) in
      if numUnregistered = length stats then
        (gc_WarnfSync E (''Username '' @ ge_Quote E username @
           '' not registered. Visit https://vuvuzela.io to get started.'' @ nl) G, False)
      else if numOK \<noteq> length stats then
        (gc_WarnfSync E (''Type /connect after resolving the issue to try again.'' @ nl)
          (gc_WarnfSync E (''Connection error: inconsistent PKG status for '' @ ge_Quote E username @ '':'' @ nl @
             concat (map (\<lambda>st. bullet @ ''PKG '' @ ps_Address st @ '': '' @ statusString (ps_Error st) @ nl) stats)) G),
         False)
      else (G, True))"

text \<open>\<open>connectOnce\<close> starts the three loops on the first call only; the result tells whether it did.\<close>

definition EnsureConnected :: "gui \<Rightarrow> gui \<times> string list" where
  "EnsureConnected G =
     (if gc_connected G then (G, [])
      else (G\<lparr>gc_connected := True\<rparr>, [''Convo'', ''AddFriend'', ''Dialing'']))"

definition Connect :: "gui_env \<Rightarrow> string \<Rightarrow> pkg_status list \<Rightarrow> gui \<Rightarrow> gui \<times> string list" where
  "Connect E username stats G =
     (case CheckPKGStatus E username stats G of
        (G1, True) \<Rightarrow> EnsureConnected G1
      | (G1, False) \<Rightarrow> (G1, []))"

text \<open>
  The registration with one key generator: its line of the report, whether it counts as good, and
  whether \<open>Register\<close> was called. \<open>register\<close> gives the error of that call.
\<close>

definition register_one :: "(string \<Rightarrow> string option) \<Rightarrow> pkg_status \<Rightarrow> string \<times> bool \<times> bool" where
  "register_one register st =
     (case ps_Error st of
        None \<Rightarrow> (''PKG '' @ ps_Address st @ '': OK (already registered)'' @ nl, True, False)
      | Some (PkgError ErrNotRegistered _) \<Rightarrow>
          (case register (ps_Address st) of
             Some err \<Rightarrow> (''PKG '' @ ps_Address st @ '': failed to register: '' @ err @ nl, False, True)
           | None \<Rightarrow> (''PKG '' @ ps_Address st @ '': OK (registered)'' @ nl, True, True))
      | Some e \<Rightarrow> (''PKG '' @ ps_Address st @ '': '' @ pkg_error_text e @ nl, False, False))"

definition RegisterAll ::
  "gui_env \<Rightarrow> string \<Rightarrow> pkg_status list \<Rightarrow> (string \<Rightarrow> string option) \<Rightarrow> string \<Rightarrow> gui \<Rightarrow> gui \<times> string list" where
  "RegisterAll E username stats register token G =
     (let results = map (register_one register) stats;
          calls = map (\<lambda>st. RegisterPKG (ps_Address st) token) (filter (\<lambda>st. snd (snd (register_one register st))) stats);
          G1 = G\<lparr>gc_alpenhorn := gc_alpenhorn G @ calls\<rparr>;
          G2 = gc_WarnfSync E (''Registration status for '' @ ge_Quote E username @ '':'' @ nl @
                 concat (map (\<lambda>(line, _). bullet @ line) results)) G1 in
      if length (filter (\<lambda>(_, ok, _). ok) results) = length stats then EnsureConnected G2 else (G2, []))"

section \<open>The connection loop\<close>

text \<open>One turn: the connection fails, or holds until it is lost with an error.\<close>

datatype attempt = ConnectFails string | ConnectedUntil string

definition retry_text :: "string \<Rightarrow> string \<Rightarrow> string" where
  "retry_text service err = ''Error connecting to '' @ service @ '' service: '' @ err @ '' (retrying every 10s)'' @ nl"

text \<open>The loop never ends; this is what it prints for the attempts made so far.\<close>

fun connectLoop :: "gui_env \<Rightarrow> string \<Rightarrow> string option \<Rightarrow> attempt list \<Rightarrow> gui \<Rightarrow> gui" where
  "connectLoop E service prevErr [] G = G"
| "connectLoop E service prevErr (ConnectFails err # as) G =
     (if prevErr = None \<or> prevErr \<noteq> Some err then
        connectLoop E service (Some err) as
          (gc_WarnfSync E (retry_text service err) G)
      else connectLoop E service prevErr as G)"
| "connectLoop E service prevErr (ConnectedUntil err # as) G =
     connectLoop E service None as
       (gc_WarnfSync E (''Disconnected from '' @ service @ '' service: '' @ err @ '' (reconnecting in 10s)'' @ nl)
         (gc_WarnfSync E (''Connected to '' @ service @ '' service!'' @ nl) G))"

section \<open>Notifications\<close>

text \<open>
  The two buffered channels, the timer and the notifications shown. The timer is running, has fired
  with its tick not yet received, or has been received and not been reset.
\<close>

datatype timer_state = TimerRunning | TimerFired | TimerSpent

record notifier =
  nf_chan :: "string option"
  nf_reset :: bool
  nf_timer :: timer_state
  nf_shown :: "string list"

definition resetNotifyTimer :: "notifier \<Rightarrow> notifier" where
  "resetNotifyTimer N = N\<lparr>nf_reset := True\<rparr>"

definition seldomNotify :: "string \<Rightarrow> notifier \<Rightarrow> notifier" where
  "seldomNotify msg N = (case nf_chan N of None \<Rightarrow> N\<lparr>nf_chan := Some msg\<rparr> | Some _ \<Rightarrow> N)"

text \<open>
  The two branches of \<open>seldomNotifyLoop\<close>. A timer that fired is drained, which would block for ever
  if its tick had been received already.
\<close>

definition notify_reset :: "notifier \<Rightarrow> (unit, notifier) outcome" where
  "notify_reset N =
     (if nf_timer N = TimerSpent then Hang else Ok (N\<lparr>nf_reset := False, nf_timer := TimerRunning\<rparr>))"

definition notify_msg :: "string \<Rightarrow> notifier \<Rightarrow> notifier" where
  "notify_msg msg N =
     (if nf_timer N = TimerFired
      then N\<lparr>nf_chan := None, nf_timer := TimerRunning, nf_shown := nf_shown N @ [msg]\<rparr>
      else N\<lparr>nf_chan := None\<rparr>)"

definition notifier_start :: notifier where
  "notifier_start = \<lparr>nf_chan = None, nf_reset = False, nf_timer = TimerRunning, nf_shown = []\<rparr>"

inductive notify_step :: "notifier \<Rightarrow> notifier \<Rightarrow> bool" where
  key: "notify_step N (resetNotifyTimer N)"
| post: "notify_step N (seldomNotify msg N)"
| fire: "nf_timer N = TimerRunning \<Longrightarrow> notify_step N (N\<lparr>nf_timer := TimerFired\<rparr>)"
| take_reset: "nf_reset N \<Longrightarrow> notify_reset N = Ok N' \<Longrightarrow> notify_step N N'"
| take_msg: "nf_chan N = Some msg \<Longrightarrow> notify_step N (notify_msg msg N)"

inductive notify_reachable :: "notifier \<Rightarrow> bool" where
  start: "notify_reachable notifier_start"
| step: "notify_reachable N \<Longrightarrow> notify_step N N' \<Longrightarrow> notify_reachable N'"

section \<open>Properties\<close>

lemma EnsureConnected_inv: "gui_inv G \<Longrightarrow> gui_inv (fst (EnsureConnected G))"
  by (simp add: EnsureConnected_def)

lemma Connect_inv: "gui_inv G \<Longrightarrow> gui_inv (fst (Connect E username stats G))"
  by (simp add: Connect_def CheckPKGStatus_def Let_def Warnf_inv EnsureConnected_inv)

lemma RegisterAll_inv: "gui_inv G \<Longrightarrow> gui_inv (fst (RegisterAll E username stats register token G))"
  by (simp add: RegisterAll_def Let_def Warnf_inv EnsureConnected_inv)

definition main_lines :: "gui \<Rightarrow> string list" where
  "main_lines G = (case gc_views G ''main'' of None \<Rightarrow> [] | Some ls \<Rightarrow> ls)"

lemma gc_WarnfSync_main:
  assumes "gc_views G ''main'' \<noteq> None"
  shows "gc_views (gc_WarnfSync E line G) ''main'' \<noteq> None"
    "main_lines (gc_WarnfSync E line G) = main_lines G @ [warningPrefix (ge_col E) @ line]"
  using assms by (auto simp: gc_WarnfSync_def gc_PrintfSync_def mark_main_def main_lines_def)

lemma connectLoop_failures:
  assumes "gc_views G ''main'' \<noteq> None"
  shows "main_lines (connectLoop E service prev (map ConnectFails errs) G) =
    main_lines G @ map (\<lambda>e. warningPrefix (ge_col E) @ retry_text service e)
      (case prev of None \<Rightarrow> remdups_adj errs | Some e \<Rightarrow> tl (remdups_adj (e # errs)))"
  using assms
proof (induction errs arbitrary: prev G)
  case (Cons err errs)
  show ?case
  proof (cases "prev = Some err")
    case True
    then show ?thesis using Cons by simp
  next
    case False
    obtain t where "remdups_adj (err # errs) = err # t"
      by (metis list.collapse remdups_adj_Nil_iff list.discI hd_remdups_adj list.sel(1))
    with False Cons.IH [OF gc_WarnfSync_main(1) [OF Cons.prems]] show ?thesis
      by (cases prev) (auto simp: gc_WarnfSync_main(2) [OF Cons.prems])
  qed
qed (simp split: option.splits)

text \<open>
  An error that repeats is reported once: while the service cannot be reached, the lines the
  connection loop adds to the main window are the errors with immediate repetitions removed.
\<close>

theorem connect_errors_once:
  assumes "gui_inv G"
  shows "main_lines (connectLoop E service None (map ConnectFails errs) G) =
    main_lines G @ map (\<lambda>e. warningPrefix (ge_col E) @ retry_text service e) (remdups_adj errs)"
  using connectLoop_failures [of G E service None errs] assms by (simp add: gui_inv_def)

theorem connect_errors_once_witness:
  "main_lines (connectLoop toy_gui_env ''Convo'' None (map ConnectFails [''a'', ''a'', ''b'']) (toy_gui ''me'')) =
     main_lines (toy_gui ''me'') @ [''-!- '' @ retry_text ''Convo'' ''a'', ''-!- '' @ retry_text ''Convo'' ''b'']"
  using connect_errors_once [OF toy_gui_simps(1), where E = toy_gui_env and errs = "[''a'', ''a'', ''b'']"]
  by (simp add: toy_gui_env_def warningPrefix_def)

lemma notify_timer: "notify_reachable N \<Longrightarrow> nf_timer N \<noteq> TimerSpent"
proof (induction rule: notify_reachable.induct)
  case (step N N')
  from step(2,3) show ?case
    by (cases rule: notify_step.cases)
      (auto simp: resetNotifyTimer_def seldomNotify_def notify_reset_def notify_msg_def split: option.splits if_splits)
qed (simp add: notifier_start_def)

text \<open>
  The loop of held-back notifications never blocks on its timer and posting never blocks: every
  reset is served, every message leaves the channel, and it is shown exactly if the timer has fired
  since the last reset or notification, which then starts the timer again.
\<close>

theorem seldom_notify_live:
  assumes "notify_reachable N"
  shows "(\<exists>N'. notify_reset N = Ok N' \<and> nf_timer N' = TimerRunning \<and> \<not> nf_reset N' \<and> nf_shown N' = nf_shown N) \<and>
    nf_chan (notify_msg msg N) = None \<and> nf_timer (notify_msg msg N) = TimerRunning \<and>
    nf_shown (notify_msg msg N) = nf_shown N @ (if nf_timer N = TimerFired then [msg] else []) \<and>
    nf_chan (seldomNotify msg N) = (case nf_chan N of None \<Rightarrow> Some msg | Some old \<Rightarrow> Some old)"
  using notify_timer [OF assms]
  by (cases "nf_timer N") (auto simp: notify_reset_def notify_msg_def seldomNotify_def split: option.splits)

theorem seldom_notify_live_witness:
  "nf_shown (notify_msg ''hi'' (notifier_start\<lparr>nf_timer := TimerFired\<rparr>)) = [''hi'']"
proof -
  have "notify_reachable (notifier_start\<lparr>nf_timer := TimerFired\<rparr>)"
    by (rule notify_reachable.step [OF notify_reachable.start notify_step.fire]) (simp add: notifier_start_def)
  from seldom_notify_live [OF this, of "''hi''"] show ?thesis by (simp add: notifier_start_def)
qed

end
