(* ===== verification/Gui_Commands.thy ===== *)
theory Gui_Commands
  imports Gui_Connect "HOL-Library.Char_ord" "HOL-Library.List_Lexorder"
begin

text \<open>
  The command line of the client (\<open>cmd/gjallarhorn-client/commands.go\<close>, \<open>handleLine\<close> and \<open>readLine\<close>
  of \<open>gui.go\<close>): parsing, one definition per command, tab completion, and the whole client as a
  system of steps.
\<close>

section \<open>Strings\<close>

text \<open>\<open>strings.Fields\<close> on the white space of ASCII.\<close>

definition is_space :: "char \<Rightarrow> bool" where
  "is_space ch \<longleftrightarrow> ch \<in> {CHR '' '', CHR 0x09, CHR 0x0A, CHR 0x0B, CHR 0x0C, CHR 0x0D}"

function Fields :: "string \<Rightarrow> string list" where
  "Fields s =
     (let t = dropWhile is_space s in
      if t = [] then [] else takeWhile (\<lambda>ch. \<not> is_space ch) t # Fields (dropWhile (\<lambda>ch. \<not> is_space ch) t))"
  by pat_completeness auto
termination
proof (relation "measure length", goal_cases)
  case (2 s t)
  then obtain ch rest where t: "t = ch # rest" by (meson neq_Nil_conv)
  with 2(1) have "\<not> is_space ch" by (metis hd_dropWhile list.sel(1) list.discI)
  with t have "length (dropWhile (\<lambda>ch. \<not> is_space ch) t) \<le> length rest" by (simp add: length_dropWhile_le)
  moreover have "length t \<le> length s" using 2(1) by (simp add: length_dropWhile_le)
  ultimately show ?case using t by simp
qed simp

declare Fields.simps [simp del]

text \<open>\<open>strings.Split(s, " ")\<close>.\<close>

fun Split :: "string \<Rightarrow> string list" where
  "Split [] = [[]]"
| "Split (ch # s) = (if ch = CHR '' '' then [] # Split s else (ch # hd (Split s)) # tl (Split s))"

definition TrimNewlines :: "string \<Rightarrow> string" where
  "TrimNewlines s = rev (dropWhile (\<lambda>ch. ch = CHR 0x0A) (rev s))"

text \<open>\<open>strconv.ParseInt(s, 10, 0)\<close>: an optional sign, digits, within 64 bits.\<close>

definition ParseInt :: "string \<Rightarrow> int option" where
  "ParseInt s =
     (let neg = (take 1 s = ''-''); ds = (if neg \<or> take 1 s = ''+'' then drop 1 s else s) in
      if ds = [] then None
      else case parse_digits 0 ds of
        None \<Rightarrow> None
      | Some n \<Rightarrow>
          if neg then (if int n \<le> 2 ^ 63 then Some (- int n) else None)
          else (if int n < 2 ^ 63 then Some (int n) else None))"

text \<open>\<open>%v\<close> of a slice of strings.\<close>

definition fmt_strings :: "string list \<Rightarrow> string" where
  "fmt_strings ss = ''['' @ concat (map (\<lambda>(i, s). (if i = (0::nat) then [] else '' '') @ s) (zip [0..<length ss] ss)) @ '']''"

text \<open>
  \<open>text/tabwriter\<close> with one blank of padding, for rows of equally many cells without tabs and line
  breaks: every cell but the last is padded to the widest of its column.
\<close>

definition tab_rows :: "string list list \<Rightarrow> string" where
  "tab_rows rows =
     (let width = (\<lambda>i. fold max (map (\<lambda>row. length (row ! i)) rows) 0 + 1) in
      concat (map (\<lambda>row. concat (map (\<lambda>i. if i = length row - 1 then row ! i else pad_right (width i) (row ! i))
        [0..<length row]) @ nl) rows))"

text \<open>\<open>base64.RawURLEncoding\<close> of whole groups of three bytes.\<close>

definition b64_char :: "nat \<Rightarrow> char" where
  "b64_char n =
     (if n < 26 then char_of (65 + n) else if n < 52 then char_of (71 + n)
      else if n < 62 then char_of (n - 4) else if n = 62 then CHR ''-'' else CHR ''_'')"

fun b64_groups :: "bytes \<Rightarrow> string" where
  "b64_groups (a # b # c # bs) =
     (let n = unat a * 65536 + unat b * 256 + unat c in
      [b64_char (n div 262144), b64_char (n div 4096 mod 64), b64_char (n div 64 mod 64), b64_char (n mod 64)] @
      b64_groups bs)"
| "b64_groups _ = []"

section \<open>The friends protocol\<close>

text \<open>What the commands ask the Alpenhorn client: its answers are inputs.\<close>

record friend_request =
  fr_Username :: string
  fr_Key :: "bytes option"
  fr_Confirmation :: bool

record alpenhorn =
  al_Username :: string
  al_Friends :: "string list"
  al_IsFriend :: "string \<Rightarrow> bool"
  al_Keywheel :: "string \<Rightarrow> u32"
  al_SessionKey :: "string \<Rightarrow> u32 \<Rightarrow> bytes option"
  al_Incoming :: "friend_request list"
  al_Outgoing :: "friend_request list"
  al_Sent :: "friend_request list"
  al_SendError :: "string \<Rightarrow> string option"
  al_ApproveError :: "string \<Rightarrow> string option"
  al_PKGStatus :: "pkg_status list"
  al_RegisterError :: "string \<Rightarrow> string option"
  al_Base32 :: "bytes \<Rightarrow> string"

definition call_out :: "alpenhorn_call \<Rightarrow> gui \<Rightarrow> gui" where
  "call_out call G = G\<lparr>gc_alpenhorn := gc_alpenhorn G @ [call]\<rparr>"

section \<open>The commands\<close>

text \<open>A command returns the error of its handler, which ends the main loop.\<close>

type_synonym command_result = "(unit, gui \<times> ui_err option) outcome"

definition command_help :: "(string \<times> string) list" where
  "command_help =
     [(''help'', ''/help prints this help message.''),
      (''quit'', ''/quit quits vuvuzela.''),
      (''connect'', ''/connect connects to the Vuvuzela servers.''),
      (''register'', ''/register <token> registers your username with the Alpenhorn servers.''),
      (''w'', ''/w (<username>|<number>) creates or jumps to a window.''),
      (''wc'', ''/wc closes the current window.''),
      (''list'', ''/list prints your friends list and friend requests.''),
      (''debugfriend'', ''/debugfriend <username> prints a friend's keywheel state.''),
      (''call'', ''/call [<username>] calls a friend.''),
      (''hangup'', ''/hangup hangs up the current conversation.''),
      (''answer'', ''/answer answers a held call.''),
      (''addfriend'', ''/addfriend <username> sends a friend request to a friend.''),
      (''delfriend'', ''/delfriend <username> removes a friend from your friends list.''),
      (''approve'', ''/approve <username> approves a friend request.'')]"

definition sorted_commands :: "string list" where
  "sorted_commands = sort (map fst command_help)"

definition printHelp :: "gui_env \<Rightarrow> gui \<Rightarrow> gui" where
  "printHelp E G =
     fold gc_Printf
       ([ge_col E [Bold] ''Vuvuzela Help'' @ nl @ ''Commands:'' @ nl] @
        map (\<lambda>cmd. ''  '' @ the (map_of command_help cmd) @ nl) sorted_commands @
        [''To jump between windows use the /w command, Alt-[1..9], or Esc+[1..9].'' @ nl,
         ''Scroll up and down with PageUp and PageDown.'' @ nl,
         ''Get started at: https://vuvuzela.io/getstarted'' @ nl,
         ''Report bugs to: https://github.com/vuvuzela/vuvuzela'' @ nl]) G"

definition cmd_register :: "gui_env \<Rightarrow> alpenhorn \<Rightarrow> string list \<Rightarrow> gui \<Rightarrow> gui" where
  "cmd_register E A args G =
     (case args of
        [] \<Rightarrow> gc_Warnf E (''Usage: /register <token>'' @ nl @ ''See https://vuvuzela.io to get started.'' @ nl) G
      | token # _ \<Rightarrow>
          fst (RegisterAll E (al_Username A) (al_PKGStatus A) (al_RegisterError A) token
            (gc_Warnf E (''Checking registration status (this may take a minute)...'' @ nl) G)))"

definition cmd_w :: "gui_env \<Rightarrow> string list \<Rightarrow> gui \<Rightarrow> command_result" where
  "cmd_w E args G =
     (case args of
        [] \<Rightarrow> Ok (gc_Warnf E (''Missing username or window number'' @ nl) G, None)
      | username # _ \<Rightarrow>
          (case ParseInt username of
             Some winNum \<Rightarrow>
               if winNum < 0 then Ok (G, None)
               else if winNum = 0 then Ok (focusMain G)
               else Ok (focusConvoIndex (nat winNum - 1) G)
           | None \<Rightarrow> obind (getOrCreateConvo E username G) (\<lambda>(G1, p). Ok (focusConvo p G1))))"

text \<open>The last position of the window is looked for; a window that is not in the list would be a slice with index \<open>-1\<close>.\<close>

definition last_index :: "nat \<Rightarrow> nat list \<Rightarrow> nat option" where
  "last_index p ps = fold (\<lambda>i found. if ps ! i = p then Some i else found) [0..<length ps] None"

definition cmd_wc :: "gui_env \<Rightarrow> gui \<Rightarrow> command_result" where
  "cmd_wc E G =
     (case gc_selected G of
        None \<Rightarrow> Ok (gc_Warnf E (''You can't close the main window!'' @ nl) G, None)
      | Some p \<Rightarrow>
          (let G1 = fst (deactivateConvo p G); cs = gc_conversations G1 in
           case last_index p cs of
             None \<Rightarrow> Panic SliceOutOfRange
           | Some index \<Rightarrow> Ok (focusMain (G1\<lparr>gc_conversations := take index cs @ drop (Suc index) cs\<rparr>))))"

definition request_row :: "alpenhorn \<Rightarrow> friend_request \<Rightarrow> string list" where
  "request_row A req =
     [''  '' @ fr_Username req,
      (case fr_Key req of None \<Rightarrow> ''(no key specified)'' | Some key \<Rightarrow> ''{'' @ al_Base32 A key @ ''}''),
      (if fr_Confirmation req then ''(confirmation)'' else [])]"

definition cmd_list :: "gui_env \<Rightarrow> alpenhorn \<Rightarrow> gui \<Rightarrow> gui" where
  "cmd_list E A =
     gc_Printf
       ((if al_Incoming A \<noteq> [] then
           ge_col E [Bold] ''Incoming Friend Requests'' @ nl @
           tab_rows (map (\<lambda>req. [''  '' @ fr_Username req,
             ''{'' @ al_Base32 A (case fr_Key req of None \<Rightarrow> [] | Some k \<Rightarrow> k) @ ''}'']) (al_Incoming A)) else []) @
        (if al_Outgoing A \<noteq> [] then
           ge_col E [Bold] ''Outgoing Friend Requests'' @ nl @ tab_rows (map (request_row A) (al_Outgoing A)) else []) @
        (if al_Sent A \<noteq> [] then
           ge_col E [Bold] ''Sent Friend Requests'' @ nl @ tab_rows (map (request_row A) (al_Sent A)) else []) @
        ge_col E [Bold] ''Friends'' @ nl @
        (if al_Friends A = [] then ''  No friends; use /addfriend to add a friend'' @ nl
         else tab_rows (map (\<lambda>f. [''  '' @ f]) (al_Friends A))) @ nl)"

definition cmd_debugfriend :: "gui_env \<Rightarrow> alpenhorn \<Rightarrow> string list \<Rightarrow> gui \<Rightarrow> command_result" where
  "cmd_debugfriend E A args G =
     (case args of
        [] \<Rightarrow> Ok (gc_Warnf E (''Missing username'' @ nl) G, None)
      | username # _ \<Rightarrow>
          if \<not> al_IsFriend A username then
            Ok (gc_Warnf E (ge_Quote E username @ '' is not in your friends list!'' @ nl) G, None)
          else
            let keyRound = (al_Keywheel A username + 100) div 100 * 100 in
            (case al_SessionKey A username keyRound of
               None \<Rightarrow> Panic NilDereference
             | Some key \<Rightarrow>
                 let keyStr = take 12 (b64_groups (Sum256 (ge_crypto E) key)) in
                 Ok (gc_Warnf E (''You and your friend should have the same keywheel for eachother.'' @ nl)
                   (gc_Warnf E (''Keywheel for '' @ ge_Quote E username @ '': {'' @ print_nat (unat keyRound) @ ''|'' @
                      keyStr @ ''...}'' @ nl) G), None)))"

definition cmd_call :: "gui_env \<Rightarrow> alpenhorn \<Rightarrow> string list \<Rightarrow> gui \<Rightarrow> command_result" where
  "cmd_call E A args G =
     obind (case args of
              username # _ \<Rightarrow> obind (getOrCreateConvo E username G) (\<lambda>(G1, p). Ok (G1, Some p))
            | [] \<Rightarrow> Ok (G, gc_selected G)) (\<lambda>(G1, convo).
       case convo of
         None \<Rightarrow> Ok (gc_Warnf E (''Try `/call <username>` or run /call in a conversation window.'' @ nl) G1, None)
       | Some p \<Rightarrow>
           (let G2 = fst (focusConvo p G1); peer = peerUsername (gc_store G2 p) in
            if length (gc_active G2) = NumOutgoing then
              Ok (convo_Warnf E (''Too many active conversations!'' @ nl) p G2, None)
            else if \<not> al_IsFriend A peer then
              Ok (convo_Warnf E (ge_Quote E peer @ '' is not in your friends list! Try `/addfriend '' @ peer @
                ''` first.'' @ nl) p G2, None)
            else
              Ok (convo_Warnf E (''Queued call: '' @ peer @ nl) p (call_out (CallFriend peer) G2), None)))"

definition cmd_hangup :: "gui_env \<Rightarrow> gui \<Rightarrow> gui" where
  "cmd_hangup E G =
     (case gc_selected G of
        None \<Rightarrow> gc_Warnf E (''/hangup only works in a conversation window.'' @ nl) G
      | Some p \<Rightarrow>
          (case deactivateConvo p G of
             (G1, True) \<Rightarrow> convo_Warnf E (''Hung up!'' @ nl) p G1
           | (G1, False) \<Rightarrow> convo_Warnf E (''This conversation is not active!'' @ nl) p G1))"

definition cmd_answer :: "gui_env \<Rightarrow> gui \<Rightarrow> gui" where
  "cmd_answer E G =
     (case gc_selected G of
        None \<Rightarrow> gc_Warnf E (''/answer only works in a conversation window.'' @ nl) G
      | Some p \<Rightarrow>
          (case pendingCall (gc_store G p) of
             None \<Rightarrow> convo_Warnf E (''No pending call.'' @ nl) p G
           | Some wheel \<Rightarrow>
               (case activateConvo p wheel G of
                  (G1, True) \<Rightarrow>
                    convo_Warnf E (''Now talking to '' @ ge_Quote E (peerUsername (gc_store G1 p)) @ nl) p G1
                | (G1, False) \<Rightarrow>
                    convo_Warnf E (''Too many active conversations! Hang up another convo and try again.'' @ nl) p G1)))"

definition cmd_addfriend :: "gui_env \<Rightarrow> alpenhorn \<Rightarrow> string list \<Rightarrow> gui \<Rightarrow> gui" where
  "cmd_addfriend E A args G =
     (case args of
        [] \<Rightarrow> gc_Warnf E (''Missing username'' @ nl) G
      | username # _ \<Rightarrow>
          (let G1 = call_out (SendFriendRequest username) G in
           case al_SendError A username of
             Some err \<Rightarrow> gc_Warnf E (''Error sending friend request: '' @ err) G1
           | None \<Rightarrow> gc_Warnf E (''Queued friend request: '' @ username @ nl) G1))"

definition cmd_delfriend :: "gui_env \<Rightarrow> alpenhorn \<Rightarrow> string list \<Rightarrow> gui \<Rightarrow> gui" where
  "cmd_delfriend E A args G =
     (case args of
        [] \<Rightarrow> gc_Warnf E (''Missing username'' @ nl) G
      | username # _ \<Rightarrow>
          if \<not> al_IsFriend A username then gc_Warnf E (''Cannot find friend '' @ username @ nl) G
          else gc_Warnf E (''Removed friend '' @ username @ nl) (call_out (RemoveFriend username) G))"

definition cmd_approve :: "gui_env \<Rightarrow> alpenhorn \<Rightarrow> string list \<Rightarrow> gui \<Rightarrow> gui" where
  "cmd_approve E A args G =
     (case args of
        [] \<Rightarrow> gc_Warnf E (''Missing username'' @ nl) G
      | username # _ \<Rightarrow>
          if username \<in> set (map fr_Username (al_Incoming A)) then
            (let G1 = call_out (ApproveRequest username) G in
             case al_ApproveError A username of
               Some err \<Rightarrow> gc_Warnf E (''error approving friend request: '' @ err @ nl) G1
             | None \<Rightarrow> gc_Warnf E (''Approved friend request: '' @ username @ nl) G1)
          else gc_Warnf E (''No friend request from '' @ username @ nl) G)"

text \<open>The table of commands.\<close>

definition run_command :: "gui_env \<Rightarrow> alpenhorn \<Rightarrow> string \<Rightarrow> string list \<Rightarrow> gui \<Rightarrow> command_result" where
  "run_command E A cmd args G =
     (if cmd = ''help'' then Ok (printHelp E G, None)
      else if cmd = ''quit'' then Ok (G, Some ErrQuit)
      else if cmd = ''connect'' then Ok (fst (Connect E (al_Username A) (al_PKGStatus A) G), None)
      else if cmd = ''register'' then Ok (cmd_register E A args G, None)
      else if cmd = ''w'' then cmd_w E args G
      else if cmd = ''wc'' then cmd_wc E G
      else if cmd = ''list'' then Ok (cmd_list E A G, None)
      else if cmd = ''debugfriend'' then cmd_debugfriend E A args G
      else if cmd = ''call'' then cmd_call E A args G
      else if cmd = ''hangup'' then Ok (cmd_hangup E G, None)
      else if cmd = ''answer'' then Ok (cmd_answer E G, None)
      else if cmd = ''addfriend'' then Ok (cmd_addfriend E A args G, None)
      else if cmd = ''delfriend'' then Ok (cmd_delfriend E A args G, None)
      else if cmd = ''approve'' then Ok (cmd_approve E A args G, None)
      else
        Ok (gc_Warnf E (''Valid commands: '' @ fmt_strings sorted_commands @ nl)
          (gc_Warnf E (''Unknown command: '' @ cmd @ nl) G), None))"

definition handleLine :: "gui_env \<Rightarrow> alpenhorn \<Rightarrow> string \<Rightarrow> gui \<Rightarrow> command_result" where
  "handleLine E A line G =
     (case line of
        [] \<Rightarrow> Panic IndexOutOfRange
      | ch # rest \<Rightarrow>
          if ch = CHR ''/'' then
            (case Fields rest of
               [] \<Rightarrow> run_command E A [] [] G
             | cmd # args \<Rightarrow> run_command E A cmd args G)
          else
            (case gc_selected G of
               None \<Rightarrow> Ok (gc_Warnf E (''Try typing a command like /help or /call <username>.'' @ nl) G, None)
             | Some p \<Rightarrow>
                 Ok (on_convo (QueueTextMessage (ge_col E) (ge_clock E) (ascii line)) p G, None)))"

text \<open>\<open>buffer\<close> is the text of the input view, which is cleared afterwards.\<close>

definition readLine :: "gui_env \<Rightarrow> alpenhorn \<Rightarrow> string \<Rightarrow> gui \<Rightarrow> command_result" where
  "readLine E A buffer G =
     (let line = TrimNewlines buffer in if line = [] then Ok (G, None) else handleLine E A line G)"

section \<open>Tab completion\<close>

definition HasPrefix :: "string \<Rightarrow> string \<Rightarrow> bool" where
  "HasPrefix s pre \<longleftrightarrow> take (length pre) s = pre"

definition completePrefix :: "string \<Rightarrow> string list \<Rightarrow> string list" where
  "completePrefix pre choices = filter (\<lambda>choice. HasPrefix choice pre) choices"

fun uniq_loop :: "string set \<Rightarrow> string list \<Rightarrow> string list" where
  "uniq_loop seen [] = []"
| "uniq_loop seen (choice # choices) =
     (if choice \<in> seen then uniq_loop seen choices else choice # uniq_loop (insert choice seen) choices)"

definition argument_choices :: "alpenhorn \<Rightarrow> string \<Rightarrow> gui \<Rightarrow> string list" where
  "argument_choices A cmd G =
     (if cmd = ''w'' then map (\<lambda>p. peerUsername (gc_store G p)) (gc_conversations G) else []) @
     (if cmd \<in> {''call'', ''delfriend'', ''debugfriend'', ''addfriend'', ''w''} then al_Friends A else []) @
     (if cmd = ''approve'' then map fr_Username (al_Incoming A) else [])"

text \<open>
  \<open>cmds\<close> lists the names of the commands in the order Go iterates over the table. The result carries
  the text that is written at the end of the input line.
\<close>

definition tabComplete ::
  "gui_env \<Rightarrow> alpenhorn \<Rightarrow> string list \<Rightarrow> string \<Rightarrow> gui \<Rightarrow> gui \<times> string option" where
  "tabComplete E A cmds buffer G =
     (let line = TrimNewlines buffer in
      if line = [] \<or> hd line \<noteq> CHR ''/'' then (G, None)
      else
        let args = Split (tl line);
            choices = (if length args = 1 then cmds else uniq_loop {} (argument_choices A (hd args) G));
            pre = last args;
            found = completePrefix pre choices in
        if found = [] then (G, None)
        else if length found > 1 then (gc_Warnf E (''Choices: '' @ fmt_strings (sort found) @ nl) G, None)
        else (G, Some (drop (length pre) (hd found) @ '' '')))"

section \<open>Every command keeps the invariant\<close>

lemma fold_Printf_inv: "gui_inv G \<Longrightarrow> gui_inv (fold gc_Printf lines G)"
  by (induction lines arbitrary: G) (simp_all add: gc_Printf_inv)

lemma call_out_inv [simp]: "gui_inv (call_out call G) = gui_inv G"
  by (simp add: call_out_def)


lemma last_index_distinct:
  assumes "distinct ps" and "p \<in> set ps"
  obtains i where "last_index p ps = Some i" "i < length ps" "ps ! i = p"
proof -
  have run: "fold (\<lambda>i found. if ps ! i = p then Some i else found) [0..<n] None = r \<Longrightarrow>
      (case r of None \<Rightarrow> \<forall>i < n. ps ! i \<noteq> p | Some i \<Rightarrow> i < n \<and> ps ! i = p)" for n r
    by (induction n arbitrary: r) (auto simp: less_Suc_eq split: option.splits if_splits)
  obtain j where "j < length ps" "ps ! j = p" using assms(2) by (auto simp: in_set_conv_nth)
  then show thesis using run [of "length ps" "last_index p ps"] that
    by (auto simp: last_index_def split: option.splits)
qed

lemma remove_at: "distinct ps \<Longrightarrow> i < length ps \<Longrightarrow> ps ! i = p \<Longrightarrow> take i ps @ drop (Suc i) ps = remove1 p ps"
proof (induction ps arbitrary: i)
  case (Cons q ps)
  then show ?case by (cases i) auto
qed simp

text \<open>Closing the selected window.\<close>

lemma unfocus_conversations: "(unfocus (G\<lparr>gc_conversations := cs\<rparr>))\<lparr>gc_selected := None\<rparr> =
    G\<lparr>gc_store := gc_store (unfocus G), gc_selected := None, gc_conversations := cs\<rparr>"
  by (cases G) (simp add: unfocus_def split: option.splits)

lemma cmd_wc_Ok:
  assumes "gui_inv G"
  shows "\<exists>G'. cmd_wc E G = Ok (G', None) \<and> gui_inv G'"
proof (cases "gc_selected G")
  case None
  then show ?thesis using assms by (simp add: cmd_wc_def Warnf_inv)
next
  case (Some p)
  let ?G1 = "fst (deactivateConvo p G)" and ?cs = "gc_conversations G"
  have p: "p \<in> set ?cs" "distinct ?cs" "p < gc_next G" using assms Some by (auto simp: gui_inv_def)
  have same: "gc_conversations ?G1 = ?cs" "gc_selected ?G1 = Some p" "gc_store ?G1 = gc_store G"
    "gc_views ?G1 = gc_views G" "gc_active ?G1 = remove1 p (gc_active G)"
    using Some by (auto simp: deactivateConvo_def remove1_idem)
  obtain i where i: "last_index p ?cs = Some i" "i < length ?cs" "?cs ! i = p"
    using last_index_distinct [OF p(2,1)] .
  let ?G2 = "?G1\<lparr>gc_conversations := remove1 p ?cs\<rparr>"
  have run: "cmd_wc E G = Ok (focusMain ?G2)"
    using Some i p(2) by (simp add: cmd_wc_def Let_def same remove_at)
  have "gui_inv ?G1" by (rule deactivateConvo_inv [OF assms])
  moreover have "p \<notin> set (gc_active ?G1)" using assms by (simp add: same gui_inv_def)
  ultimately have "gui_inv (?G1\<lparr>gc_store := gc_store (unfocus ?G1), gc_selected := None, gc_conversations := remove1 p ?cs\<rparr>)"
    (is "gui_inv ?G3")
    using same p by (auto simp: gui_inv_def unfocus_def inj_on_def)
  then have inv: "gui_inv ((unfocus ?G2)\<lparr>gc_selected := None\<rparr>)" unfolding unfocus_conversations .
  then have "snd (focusMain ?G2) = None" by (simp add: focusMain_def setViewOnTop_def gui_inv_def)
  moreover have "gui_inv (fst (focusMain ?G2))" using inv by (simp add: focusMain_def)
  ultimately have "\<exists>G'. focusMain ?G2 = (G', None) \<and> gui_inv G'" by (cases "focusMain ?G2") simp
  with run show ?thesis by auto
qed

lemma focus_Ok:
  assumes "gui_inv G"
  shows "\<exists>G'. focusMain G = (G', None) \<and> gui_inv G'"
    "p \<in> set (gc_conversations G) \<Longrightarrow> \<exists>G'. focusConvo p G = (G', None) \<and> gui_inv G'"
    "\<exists>G'. focusConvoIndex index G = (G', None) \<and> gui_inv G'"
proof -
  show main: "\<exists>G'. focusMain G = (G', None) \<and> gui_inv G'"
    using focusMain_inv [OF assms] focus_never_fails(1) [OF assms] by (cases "focusMain G") auto
  show convo: "\<exists>G'. focusConvo p G = (G', None) \<and> gui_inv G'" if "p \<in> set (gc_conversations G)" for p
    using focusConvo_inv [OF assms that] focus_never_fails(2) [OF assms that] by (cases "focusConvo p G") auto
  show "\<exists>G'. focusConvoIndex index G = (G', None) \<and> gui_inv G'"
    using main convo assms by (auto simp: focusConvoIndex_def)
qed

lemma cmd_w_Ok:
  assumes "gui_inv G" and "\<And>n. \<not> ge_SetViewFails E n"
  shows "\<exists>G'. cmd_w E args G = Ok (G', None) \<and> gui_inv G'"
proof (cases args)
  case (Cons username rest)
  obtain G1 p where run: "getOrCreateConvo E username G = Ok (G1, p)" "gui_inv G1" "p \<in> set (gc_conversations G1)"
    using getOrCreateConvo_Ok [OF assms(1,2)] by metis
  show ?thesis
    using Cons run assms(1) focus_Ok(1,3) [OF assms(1)] focus_Ok(2) [OF run(2,3)]
    by (auto simp: cmd_w_def split: option.splits)
qed (use assms(1) in \<open>simp add: cmd_w_def Warnf_inv\<close>)

lemma cmd_call_Ok:
  assumes "gui_inv G" and "\<And>n. \<not> ge_SetViewFails E n"
  shows "\<exists>G'. cmd_call E A args G = Ok (G', None) \<and> gui_inv G'"
proof -
  obtain G1 convo where pick: "(case args of
       username # _ \<Rightarrow> obind (getOrCreateConvo E username G) (\<lambda>(G1, p). Ok (G1, Some p))
     | [] \<Rightarrow> Ok (G, gc_selected G)) = Ok (G1, convo)" "gui_inv G1" "\<And>p. convo = Some p \<Longrightarrow> p \<in> set (gc_conversations G1)"
  proof (cases args)
    case Nil
    then show thesis using that [of G "gc_selected G"] assms(1) by (auto simp: gui_inv_def)
  next
    case (Cons username rest)
    obtain G1 p where "getOrCreateConvo E username G = Ok (G1, p)" "gui_inv G1" "p \<in> set (gc_conversations G1)"
      using getOrCreateConvo_Ok [OF assms(1,2)] by metis
    then show thesis using Cons that [of G1 "Some p"] by auto
  qed
  show ?thesis
  proof (cases convo)
    case None
    then show ?thesis using pick by (simp add: cmd_call_def Warnf_inv)
  next
    case (Some p)
    obtain G2 where "focusConvo p G1 = (G2, None)" "gui_inv G2"
      using focus_Ok(2) [OF pick(2) pick(3) [OF Some]] by blast
    with Some pick(1) show ?thesis by (simp add: cmd_call_def Let_def Warnf_inv)
  qed
qed

lemma simple_commands_inv:
  assumes "gui_inv G"
  shows "gui_inv (printHelp E G)" "gui_inv (cmd_register E A args G)" "gui_inv (cmd_list E A G)"
    "gui_inv (cmd_hangup E G)" "gui_inv (cmd_answer E G)" "gui_inv (cmd_addfriend E A args G)"
    "gui_inv (cmd_delfriend E A args G)" "gui_inv (cmd_approve E A args G)"
proof -
  show "gui_inv (cmd_hangup E G)"
  proof (cases "gc_selected G")
    case (Some p)
    obtain G1 ok where "deactivateConvo p G = (G1, ok)" by fastforce
    with Some deactivateConvo_inv [OF assms, of p] show ?thesis by (cases ok) (simp_all add: cmd_hangup_def Warnf_inv)
  qed (simp add: cmd_hangup_def Warnf_inv assms)
  show "gui_inv (cmd_answer E G)"
  proof (cases "gc_selected G")
    case (Some p)
    then have p: "p \<in> set (gc_conversations G)" using assms by (simp add: gui_inv_def)
    then have "gui_inv G1" if "activateConvo p wheel G = (G1, ok)" for wheel G1 ok
      using activateConvo_inv [OF assms p, of wheel] that by simp
    with Some assms show ?thesis
      by (auto simp: cmd_answer_def Warnf_inv split: option.splits prod.splits bool.splits)
  qed (simp add: cmd_answer_def Warnf_inv assms)
qed (use assms in \<open>simp_all add: printHelp_def cmd_register_def cmd_list_def cmd_addfriend_def cmd_delfriend_def cmd_approve_def
    fold_Printf_inv gc_Printf_inv Warnf_inv RegisterAll_inv Let_def del: fold_simps split: list.splits option.splits\<close>)

text \<open>
  With a window large enough for every view and a session key for every friend, no line the user
  types makes the client crash.
\<close>

lemma run_command_Ok:
  assumes "gui_inv G" and "\<And>n. \<not> ge_SetViewFails E n" and "\<And>u r. al_IsFriend A u \<Longrightarrow> al_SessionKey A u r \<noteq> None"
  shows "\<exists>G' e. run_command E A cmd args G = Ok (G', e) \<and> gui_inv G' \<and> (e \<noteq> None \<longleftrightarrow> cmd = ''quit'')"
proof -
  have debug: "\<exists>G'. cmd_debugfriend E A args G = Ok (G', None) \<and> gui_inv G'"
  proof (cases args)
    case (Cons u rest)
    show ?thesis
    proof (cases "al_IsFriend A u")
      case True
      then obtain key where "al_SessionKey A u ((al_Keywheel A u + 100) div 100 * 100) = Some key" using assms(3) by blast
      with Cons True assms(1) show ?thesis by (simp add: cmd_debugfriend_def Let_def Warnf_inv)
    qed (use Cons assms(1) in \<open>simp add: cmd_debugfriend_def Warnf_inv\<close>)
  qed (use assms(1) in \<open>simp add: cmd_debugfriend_def Warnf_inv\<close>)
  show ?thesis
    using simple_commands_inv [OF assms(1)] cmd_w_Ok [OF assms(1,2), of args] cmd_wc_Ok [OF assms(1), of E]
      cmd_call_Ok [OF assms(1,2), of A args] debug Connect_inv [OF assms(1)] assms(1)
    unfolding run_command_def by (auto simp: Warnf_inv)
qed

section \<open>The client as a system\<close>

text \<open>
  The steps of a running client: a line the user enters, tab completion, a window key, a redraw, a
  round of the conversation protocol, the callbacks of both protocols. The terminal is large enough
  for every view, and the friends protocol has a session key for every friend.
\<close>

definition surroundings_ok :: "gui_env \<Rightarrow> bool" where
  "surroundings_ok E \<longleftrightarrow> order_ok E \<and> (\<forall>n. \<not> ge_SetViewFails E n)"

definition alpenhorn_ok :: "alpenhorn \<Rightarrow> bool" where
  "alpenhorn_ok A \<longleftrightarrow> (\<forall>u r. al_IsFriend A u \<longrightarrow> al_SessionKey A u r \<noteq> None)"

inductive gui_step :: "gui \<Rightarrow> gui \<Rightarrow> bool" where
  enter: "surroundings_ok E \<Longrightarrow> alpenhorn_ok A \<Longrightarrow> readLine E A buffer G = Ok (G', e) \<Longrightarrow> gui_step G G'"
| tab: "gui_step G (fst (tabComplete E A cmds buffer G))"
| window: "gui_step G (fst (focusConvoIndex i G))"
| redraw: "gui_step G (fst (layout E fmt1 autoscroll G))"
| outgoing: "order_ok E \<Longrightarrow> Outgoing E round G = Ok (G', out) \<Longrightarrow> gui_step G G'"
| incoming: "length msgs = NumOutgoing \<Longrightarrow> Replies E round msgs G = Ok G' \<Longrightarrow> gui_step G G'"
| sending_call: "surroundings_ok E \<Longrightarrow> answered latest \<Longrightarrow> SendingCall E latest u key G = Ok G' \<Longrightarrow> gui_step G G'"
| received_call: "surroundings_ok E \<Longrightarrow> answered latest \<Longrightarrow> ReceivedCall E latest u intent key G = Ok G' \<Longrightarrow> gui_step G G'"
| error: "gui_step G (gc_Error E err G)"
| debug_error: "gui_step G (gc_DebugError E err G)"
| new_config: "gc_NewConfig E configs G = Ok G' \<Longrightarrow> gui_step G G'"
| announcement: "gui_step G (gc_GlobalAnnouncement E msg G)"
| confirmed: "gui_step G (ConfirmedFriend E u G)"
| sent_request: "gui_step G (SentFriendRequest E u G)"
| received_request: "gui_step G (ReceivedFriendRequest E u G)"
| unexpected_key: "gui_step G (UnexpectedSigningKey E u G)"
| connecting: "gui_step G (connectLoop E service prev attempts G)"

inductive gui_reachable :: "gui \<Rightarrow> bool" where
  launch: "layout E fmt1 autoscroll (new_gui name) = (G, None) \<Longrightarrow> gui_reachable G"
| step: "gui_reachable G \<Longrightarrow> gui_step G G' \<Longrightarrow> gui_reachable G'"

lemma handleLine_Ok:
  assumes "gui_inv G" and "surroundings_ok E" and "alpenhorn_ok A" and "line \<noteq> []"
  shows "\<exists>G' e. handleLine E A line G = Ok (G', e) \<and> gui_inv G' \<and>
    (e \<noteq> None \<longleftrightarrow> hd line = CHR ''/'' \<and> Fields (tl line) \<noteq> [] \<and> hd (Fields (tl line)) = ''quit'')"
proof -
  obtain ch rest where line: "line = ch # rest" using assms(4) by (cases line) auto
  have run: "\<exists>G' e. run_command E A cmd args G = Ok (G', e) \<and> gui_inv G' \<and> (e \<noteq> None \<longleftrightarrow> cmd = ''quit'')" for cmd args
    using run_command_Ok [OF assms(1)] assms(2,3) by (simp add: surroundings_ok_def alpenhorn_ok_def)
  show ?thesis
  proof (cases "ch = CHR ''/''")
    case True
    then show ?thesis using line run [of "[]" "[]"] run by (cases "Fields rest") (simp_all add: handleLine_def)
  next
    case False
    then show ?thesis
      using line assms(1) by (cases "gc_selected G") (simp_all add: handleLine_def Warnf_inv on_convo_inv)
  qed
qed

lemma readLine_Ok:
  assumes "gui_inv G" and "surroundings_ok E" and "alpenhorn_ok A"
  shows "\<exists>G' e. readLine E A buffer G = Ok (G', e) \<and> gui_inv G'"
  using handleLine_Ok [OF assms, of "TrimNewlines buffer"] assms(1) by (auto simp: readLine_def Let_def)

lemma tabComplete_inv: "gui_inv G \<Longrightarrow> gui_inv (fst (tabComplete E A cmds buffer G))"
  by (simp add: tabComplete_def Let_def Warnf_inv)

lemma connectLoop_inv: "gui_inv G \<Longrightarrow> gui_inv (connectLoop E service prev attempts G)"
  by (induction E service prev attempts G rule: connectLoop.induct) (simp_all add: Warnf_inv)

lemma gui_step_inv:
  assumes "gui_step G G'" and "gui_inv G"
  shows "gui_inv G'"
  using assms
proof (cases rule: gui_step.cases)
  case (enter E A buffer e)
  with readLine_Ok [OF assms(2)] show ?thesis by (metis outcome.inject(1) prod.inject)
next
  case (outgoing E round out)
  with Outgoing_run [OF assms(2)] show ?thesis by (metis outcome.inject(1) prod.inject)
next
  case (incoming msgs E round)
  with Replies_Ok [OF assms(2)] show ?thesis by (metis order_refl outcome.inject(1))
next
  case (sending_call E latest u key)
  with SendingCall_Ok [OF assms(2)] show ?thesis by (metis surroundings_ok_def outcome.inject(1))
next
  case (received_call E latest u intent key)
  with ReceivedCall_Ok [OF assms(2)] show ?thesis by (metis surroundings_ok_def outcome.inject(1))
next
  case (new_config E configs)
  with gc_NewConfig_Ok [OF assms(2)] show ?thesis
    by (metis gc_NewConfig_def outcome.distinct(3) outcome.inject(1))
qed (simp_all add: assms(2) tabComplete_inv focusConvoIndex_inv layout_inv errors_inv friend_callbacks_inv connectLoop_inv)

lemma gui_reachable_inv: "gui_reachable G \<Longrightarrow> gui_inv G"
  by (induction rule: gui_reachable.induct) (auto intro: gui_start_inv gui_step_inv)

section \<open>Properties\<close>

text \<open>
  C5. In every reachable state of the client: at most five conversations are active and each has a
  session key; every open window has its own peer, a view, and the user's own name; the selected
  window is open, it is the only focused one, and it is never marked unread; a round in flight has at
  most five different conversations.
\<close>

theorem gui_invariant:
  assumes "gui_reachable G"
  shows "distinct (gc_active G) \<and> length (gc_active G) \<le> NumOutgoing \<and> set (gc_active G) \<subseteq> set (gc_conversations G) \<and>
    (\<forall>p \<in> set (gc_active G). sessionKey (gc_store G p) \<noteq> None) \<and>
    distinct (map (\<lambda>p. peerUsername (gc_store G p)) (gc_conversations G)) \<and>
    (\<forall>p \<in> set (gc_conversations G). gc_views G (ViewName (gc_store G p)) \<noteq> None \<and>
       myUsername (gc_store G p) = gc_myName G \<and> (focused (gc_store G p) \<longleftrightarrow> gc_selected G = Some p) \<and>
       (focused (gc_store G p) \<longrightarrow> \<not> Unread (cv_Status (gc_store G p)))) \<and>
    (\<forall>p. gc_selected G = Some p \<longrightarrow> p \<in> set (gc_conversations G)) \<and>
    (\<forall>r ps. gc_pending G r = Some ps \<longrightarrow> distinct ps \<and> length ps \<le> NumOutgoing)"
  using gui_reachable_inv [OF assms] by (simp add: gui_inv_def distinct_map ViewName_def cv_Status_def)

text \<open>
  C6. The client never crashes: in every reachable state every line the user can enter is handled
  and only \<open>/quit\<close> ends the main loop, \<open>Outgoing\<close> returns five messages, five replies are accepted,
  incoming and outgoing calls are handled, and the window keys always find their view.
\<close>

theorem gui_never_crashes:
  assumes "gui_reachable G" and "surroundings_ok E" and "alpenhorn_ok A"
  shows "(line \<noteq> [] \<longrightarrow> (\<exists>G' e. handleLine E A line G = Ok (G', e) \<and>
      (e \<noteq> None \<longleftrightarrow> hd line = CHR ''/'' \<and> Fields (tl line) \<noteq> [] \<and> hd (Fields (tl line)) = ''quit''))) \<and>
    (\<exists>G' out. Outgoing E round G = Ok (G', out) \<and> length out = NumOutgoing) \<and>
    (length msgs = NumOutgoing \<longrightarrow> (\<exists>G'. Replies E round msgs G = Ok G')) \<and>
    (answered latest \<longrightarrow> (\<exists>G'. SendingCall E latest u key G = Ok G') \<and>
       (\<exists>G'. ReceivedCall E latest u intent key G = Ok G')) \<and>
    snd (focusConvoIndex i G) = None"
proof -
  note inv = gui_reachable_inv [OF assms(1)]
  have E: "order_ok E" "\<not> ge_SetViewFails E u" using assms(2) by (simp_all add: surroundings_ok_def)
  show ?thesis
    using handleLine_Ok [OF inv assms(2,3), of line] Outgoing_run [OF inv E(1), of round] Replies_Ok [OF inv, of msgs E round]
      SendingCall_Ok [OF inv E(2), of latest key] ReceivedCall_Ok [OF inv E(2), of latest intent key] focus_Ok(3) [OF inv, of i]
    by (metis order_refl snd_conv)
qed


definition toy_alpenhorn :: alpenhorn where
  "toy_alpenhorn =
     \<lparr>al_Username = ''me'', al_Friends = [''bob'', ''bill''], al_IsFriend = (\<lambda>u. u = ''bob''), al_Keywheel = (\<lambda>_. 0),
      al_SessionKey = (\<lambda>_ _. Some []), al_Incoming = [], al_Outgoing = [], al_Sent = [], al_SendError = (\<lambda>_. None),
      al_ApproveError = (\<lambda>_. None), al_PKGStatus = [], al_RegisterError = (\<lambda>_. None), al_Base32 = (\<lambda>_. [])\<rparr>"

lemma toy_gui_reachable: "gui_reachable (toy_gui name)"
proof -
  obtain G e where run: "layout toy_gui_env print_nat (\<lambda>_. True) (new_gui name) = (G, e)" by fastforce
  then have "e = None"
    by (auto simp: layout_def new_gui_def toy_gui_env_def setConvoView_def current_view_def setViewOnTop_def raise_view_def
        Let_def)
  with run gui_reachable.launch show ?thesis by (metis toy_gui_def fst_conv)
qed

lemma toy_gui_fields: "gc_next (toy_gui name) = 0"
  by (simp add: toy_gui_def layout_def new_gui_def toy_gui_env_def setConvoView_def current_view_def setViewOnTop_def
      raise_view_def Let_def)

lemma toy_surroundings: "surroundings_ok toy_gui_env" "alpenhorn_ok toy_alpenhorn"
  by (simp_all add: surroundings_ok_def alpenhorn_ok_def toy_gui_simps toy_alpenhorn_def)

theorem gui_invariant_witness:
  "\<exists>G. readLine toy_gui_env toy_alpenhorn ''/w bob'' (toy_gui ''me'') = Ok (G, None) \<and>
     gc_selected G = Some 0 \<and> gc_conversations G = [0] \<and> \<not> Unread (cv_Status (gc_store G 0))"
proof -
  have fields: "Fields ''w bob'' = [''w'', ''bob'']" by (simp add: Fields.simps is_space_def)
  have parse: "ParseInt ''bob'' = None" by code_simp
  obtain G where run: "readLine toy_gui_env toy_alpenhorn ''/w bob'' (toy_gui ''me'') = Ok (G, None)" "gc_selected G = Some 0"
    "gc_conversations G = [0]"
  proof -
    obtain G1 p where run: "getOrCreateConvo toy_gui_env ''bob'' (toy_gui ''me'') = Ok (G1, p)" "gui_inv G1"
      using getOrCreateConvo_Ok [OF toy_gui_simps(1,7)] by metis
    have "find_convo ''bob'' (toy_gui ''me'') = None" by (simp add: find_convo_def toy_gui_simps)
    with run(1) have "p = 0" "gc_conversations G1 = [0]"
      by (auto simp: getOrCreateConvo_def toy_gui_simps toy_gui_fields setConvoView_def Let_def split: if_splits)
    with run have new: "getOrCreateConvo toy_gui_env ''bob'' (toy_gui ''me'') = Ok (G1, 0)" "gc_conversations G1 = [0]" "gui_inv G1"
      by simp_all
    then obtain G2 where "focusConvo 0 G1 = (G2, None)" using focus_Ok(2) [OF new(3), of 0] by auto
    moreover from this have "gc_selected G2 = Some 0" "gc_conversations G2 = [0]"
      using new(2) by (auto simp: focusConvo_def setViewOnTop_def raise_view_def unfocus_def Let_def split: if_splits option.splits)
    ultimately show thesis
      using that [of G2] new(1) fields parse
      by (simp add: readLine_def TrimNewlines_def handleLine_def run_command_def cmd_w_def)
  qed
  have "gui_reachable G"
    by (rule gui_reachable.step [OF toy_gui_reachable gui_step.enter [OF toy_surroundings run(1)]])
  from gui_invariant [OF this] run show ?thesis by auto
qed

theorem gui_never_crashes_witness:
  "\<exists>G' out. Outgoing toy_gui_env 3 (toy_gui ''me'') = Ok (G', out) \<and> length out = NumOutgoing"
  using gui_never_crashes [OF toy_gui_reachable toy_surroundings, of "''/quit''" "''me''" 3] by blast

lemma Split_append: "Split (s @ t) = butlast (Split s) @ [last (Split s) @ hd (Split t)] @ tl (Split t)"
proof (induction s)
  case Nil
  have "Split t \<noteq> []" by (cases t) auto
  then show ?case by simp
next
  case (Cons ch s)
  have "Split s \<noteq> []" by (cases s) auto
  with Cons show ?case by (cases "Split s") auto
qed

lemma Split_word: "CHR '' '' \<notin> set w \<Longrightarrow> Split w = [w]"
  by (induction w) auto

lemma uniq_loop_spec: "distinct (uniq_loop seen cs) \<and> set (uniq_loop seen cs) = set cs - seen"
  by (induction seen cs rule: uniq_loop.induct) auto

text \<open>The words offered at the end of a line.\<close>

definition choices_for :: "alpenhorn \<Rightarrow> gui \<Rightarrow> string list \<Rightarrow> string set" where
  "choices_for A G args =
     (if length args = 1 then set (map fst command_help) else set (argument_choices A (hd args) G))"

lemma tabComplete_found:
  assumes "mset cmds = mset (map fst command_help)" and "args = Split (tl (TrimNewlines buffer))"
    and "TrimNewlines buffer \<noteq> []" and "hd (TrimNewlines buffer) = CHR ''/''"
  shows "\<exists>found. distinct found \<and> set found = {choice \<in> choices_for A G args. HasPrefix choice (last args)} \<and>
    tabComplete E A cmds buffer G =
     (if found = [] then (G, None)
      else if length found > 1 then (gc_Warnf E (''Choices: '' @ fmt_strings (sort found) @ nl) G, None)
      else (G, Some (drop (length (last args)) (hd found) @ '' '')))"
proof -
  let ?choices = "if length args = 1 then cmds else uniq_loop {} (argument_choices A (hd args) G)"
  let ?found = "completePrefix (last args) ?choices"
  have "distinct (map fst command_help)" by (simp add: command_help_def)
  then have "distinct cmds" "set cmds = set (map fst command_help)"
    using mset_eq_imp_distinct_iff [OF assms(1)] mset_eq_setD [OF assms(1)] by simp_all
  then have "distinct ?choices" "set ?choices = choices_for A G args"
    using uniq_loop_spec [of "{}" "argument_choices A (hd args) G"] by (auto simp: choices_for_def)
  then have "distinct ?found" "set ?found = {choice \<in> choices_for A G args. HasPrefix choice (last args)}"
    by (auto simp: completePrefix_def)
  then show ?thesis using assms(2-4) by (intro exI [of _ ?found]) (simp add: tabComplete_def Let_def)
qed

text \<open>
  Tab completion: text is written only when exactly one choice continues the word under the
  cursor, and the line then ends with that choice as its last word and a blank; with several, they
  are listed in order; the order in which Go walks the table of commands has no influence.
\<close>

theorem tab_completion:
  assumes "mset cmds = mset (map fst command_help)" and "args = Split (tl (TrimNewlines buffer))"
    and "TrimNewlines buffer \<noteq> []" and "hd (TrimNewlines buffer) = CHR ''/''"
    and "matching = {choice \<in> choices_for A G args. HasPrefix choice (last args)}"
  shows "(matching = {choice} \<and> CHR '' '' \<notin> set choice \<longrightarrow> (\<exists>text. tabComplete E A cmds buffer G = (G, Some text) \<and>
      Split (tl (TrimNewlines buffer @ text)) = butlast args @ [choice, []])) \<and>
    (matching = {} \<longrightarrow> tabComplete E A cmds buffer G = (G, None)) \<and>
    (1 < card matching \<longrightarrow> tabComplete E A cmds buffer G =
       (gc_Warnf E (''Choices: '' @ fmt_strings (sorted_list_of_set matching) @ nl) G, None))"
proof -
  obtain found where found: "distinct found" "set found = matching" "tabComplete E A cmds buffer G =
     (if found = [] then (G, None)
      else if length found > 1 then (gc_Warnf E (''Choices: '' @ fmt_strings (sort found) @ nl) G, None)
      else (G, Some (drop (length (last args)) (hd found) @ '' '')))"
    using tabComplete_found [OF assms(1-4), of A G E] assms(5) by blast
  have len: "length found = card matching" using found(1,2) by (metis distinct_card)
  show ?thesis
  proof (intro conjI impI)
    assume "matching = {choice} \<and> CHR '' '' \<notin> set choice"
    then have single: "matching = {choice}" and blank: "CHR '' '' \<notin> set choice" by simp_all
    have "length found = 1" using len single by simp
    then obtain x where "found = [x]" by (auto simp: length_Suc_conv)
    with found(2) single have one: "found = [choice]" by simp
    have pre: "HasPrefix choice (last args)" using single assms(5) by blast
    let ?w = "drop (length (last args)) choice"
    have "CHR '' '' \<notin> set ?w" using blank by (meson in_set_dropD)
    then have "Split (?w @ '' '') = [?w, []]" using Split_append [of ?w "'' ''"] by (simp add: Split_word)
    then have "Split (tl (TrimNewlines buffer) @ ?w @ '' '') = butlast args @ [last args @ ?w, []]"
      using Split_append [of "tl (TrimNewlines buffer)" "?w @ '' ''"] assms(2) by simp
    moreover have "last args @ ?w = choice" using pre unfolding HasPrefix_def by (metis append_take_drop_id)
    ultimately have "Split (tl (TrimNewlines buffer @ ?w @ '' '')) = butlast args @ [choice, []]"
      by (simp only: tl_append2 [OF assms(3)])
    then show "\<exists>text. tabComplete E A cmds buffer G = (G, Some text) \<and>
        Split (tl (TrimNewlines buffer @ text)) = butlast args @ [choice, []]"
      using found(3) one by simp
  next
    assume "matching = {}"
    with found show "tabComplete E A cmds buffer G = (G, None)" by simp
  next
    assume "1 < card matching"
    moreover have "sort found = sorted_list_of_set matching"
      using found(1,2) by (metis sorted_list_of_set_sort_remdups distinct_remdups_id)
    ultimately show "tabComplete E A cmds buffer G =
       (gc_Warnf E (''Choices: '' @ fmt_strings (sorted_list_of_set matching) @ nl) G, None)"
      using found(3) len by auto
  qed
qed


theorem tab_completion_witness:
  "\<exists>t. tabComplete toy_gui_env toy_alpenhorn (map fst command_help) ''/call bo'' (toy_gui ''me'') = (toy_gui ''me'', Some t) \<and>
     Split (''call bo'' @ t) = [''call'', ''bob'', []]"
proof -
  have trim: "TrimNewlines ''/call bo'' = ''/call bo''" by (simp add: TrimNewlines_def)
  have args: "[''call'', ''bo''] = Split (tl (TrimNewlines ''/call bo''))" by (simp add: trim)
  have one: "{''bob''} = {choice \<in> choices_for toy_alpenhorn (toy_gui ''me'') [''call'', ''bo'']. HasPrefix choice (last [''call'', ''bo''])}"
    by (auto simp: choices_for_def argument_choices_def toy_alpenhorn_def HasPrefix_def)
  have line: "TrimNewlines ''/call bo'' \<noteq> []" "hd (TrimNewlines ''/call bo'') = CHR ''/''" by (simp_all add: trim)
  from tab_completion [OF refl args line one, THEN conjunct1, of "''bob''" toy_gui_env]
  obtain t where "tabComplete toy_gui_env toy_alpenhorn (map fst command_help) ''/call bo'' (toy_gui ''me'') = (toy_gui ''me'', Some t)"
    "Split (tl (TrimNewlines ''/call bo'' @ t)) = butlast [''call'', ''bo''] @ [''bob'', []]"
    by auto
  then show ?thesis by (intro exI [of _ t]) (simp add: trim)
qed

end
