(* ===== verification/Programs.thy ===== *)
theory Programs
  imports Coordinator_Rounds Convo_Service Complex_Main
begin

text \<open>
  The server programs: the configuration files (\<open>cmd/cmdconf/cmdconf.go\<close>), the log output
  (\<open>internal/vzlog/format.go\<close>) and the \<open>main\<close> functions of the mix server
  (\<open>cmd/gjallarhorn-mixer/main.go\<close>) and of the coordinator (\<open>cmd/gjallarhorn-coordinator/main.go\<close>),
  which initialise a deployment and start from what they find on disk. Parameters: how the calls
  of the operating system turn out, the TOML decoder and the readable encoding of keys
  (\<open>neverlur/encoding/toml\<close>), and the configuration server.
\<close>

section \<open>path/filepath\<close>

text \<open>\<open>strings.Split(s, "/")\<close>.\<close>

fun split_path :: "string \<Rightarrow> string list" where
  "split_path [] = [[]]"
| "split_path (c # s) =
     (if c = CHR ''/'' then [] # split_path s
      else case split_path s of [] \<Rightarrow> [[c]] | p # ps \<Rightarrow> (c # p) # ps)"

text \<open>The parts that stay, the last one first: \<open>..\<close> takes the part before it away if there is one.\<close>

fun clean_parts :: "bool \<Rightarrow> string list \<Rightarrow> string list \<Rightarrow> string list" where
  "clean_parts rooted out [] = out"
| "clean_parts rooted out (p # ps) =
     (if p = [] \<or> p = ''.'' then clean_parts rooted out ps
      else if p = ''..'' then
        (case out of
           q # out' \<Rightarrow> if q \<noteq> ''..'' then clean_parts rooted out' ps else clean_parts rooted (p # out) ps
         | [] \<Rightarrow> if rooted then clean_parts rooted [] ps else clean_parts rooted [p] ps)
      else clean_parts rooted (p # out) ps)"

fun join_slash :: "string list \<Rightarrow> string" where
  "join_slash [] = []"
| "join_slash [p] = p"
| "join_slash (p # q # ps) = p @ ''/'' @ join_slash (q # ps)"

definition path_Clean :: "string \<Rightarrow> string" where
  "path_Clean s =
     (let rooted = (take 1 s = ''/''); out = join_slash (rev (clean_parts rooted [] (split_path s))) in
      if rooted then ''/'' @ out else if out = [] then ''.'' else out)"

definition path_Join :: "string list \<Rightarrow> string" where
  "path_Join elem =
     (let es = dropWhile (\<lambda>e. e = []) elem in if es = [] then [] else path_Clean (join_slash es))"

section \<open>fmt and time\<close>

text \<open>
  \<open>%q\<close> of a string. A byte above 0x7F is kept: it belongs to a printable character of the
  addresses and paths that are printed here.
\<close>

definition quote_char :: "char \<Rightarrow> string" where
  "quote_char c =
     (let n = of_char c :: nat; bs = CHR 0x5C in
      if c = CHR 0x22 \<or> c = bs then [bs, c]
      else if n = 7 then [bs, CHR ''a''] else if n = 8 then [bs, CHR ''b''] else if n = 12 then [bs, CHR ''f'']
      else if n = 10 then [bs, CHR ''n''] else if n = 13 then [bs, CHR ''r''] else if n = 9 then [bs, CHR ''t'']
      else if n = 11 then [bs, CHR ''v'']
      else if n < 32 \<or> n = 127 then [bs, CHR ''x'', hex_digit (n div 16), hex_digit (n mod 16)]
      else [c])"

definition go_quote :: "string \<Rightarrow> string" where
  "go_quote s = [CHR 0x22] @ concat (map quote_char s) @ [CHR 0x22]"

text \<open>\<open>%0.1f\<close> of a finite number: the nearest tenth, halves to the even one.\<close>

definition round_half_even :: "rat \<Rightarrow> int" where
  "round_half_even q =
     (let f = \<lfloor>q\<rfloor>; d = q - of_int f in
      if d < 1 / 2 \<or> d = 1 / 2 \<and> even f then f else f + 1)"

definition format_f1 :: "rat \<Rightarrow> string" where
  "format_f1 q =
     (let n = nat (round_half_even (\<bar>q\<bar> * 10)) in
      (if q < 0 then ''-'' else []) @ print_nat (n div 10) @ ''.'' @ print_nat (n mod 10))"

text \<open>\<open>Duration.String\<close>: a fraction of \<open>prec\<close> digits without its trailing zeros, after the number.\<close>

definition format_frac :: "nat \<Rightarrow> nat \<Rightarrow> string" where
  "format_frac prec v =
     (let ds = print_nat (v mod 10 ^ prec);
          full = replicate (prec - length ds) CHR ''0'' @ ds;
          kept = rev (dropWhile (\<lambda>c. c = CHR ''0'') (rev full)) in
      print_nat (v div 10 ^ prec) @ (if kept = [] then [] else ''.'' @ kept))"

definition format_hms :: "nat \<Rightarrow> string" where
  "format_hms ns =
     (let mins = ns div 60000000000; sec = format_frac 9 (ns mod 60000000000) @ ''s'' in
      (if mins = 0 then []
       else (if mins div 60 = 0 then [] else print_nat (mins div 60) @ ''h'') @ print_nat (mins mod 60) @ ''m'') @ sec)"

definition Duration_String :: "int \<Rightarrow> string" where
  "Duration_String d =
     (let u = nat \<bar>d\<bar> in
      (if d < 0 then ''-'' else []) @
      (if u = 0 then ''0s''
       else if u < 1000 then print_nat u @ ''ns''
       else if u < 1000000 then format_frac 3 u @ [CHR 0xC2, CHR 0xB5] @ ''s''
       else if u < 1000000000 then format_frac 6 u @ ''ms''
       else format_hms u))"

section \<open>Configuration files\<close>

text \<open>The reason of a \<open>log.Fatal\<close>, which ends the process.\<close>

datatype fatal = FatalMkdir string | FatalWrite string | FatalRead string | FatalParse string
  | FatalLogs string | FatalConfigClient | FatalInit co_err | FatalLoad co_err | FatalListen string
  | FatalLoop co_err

record laplace =
  lp_Mu :: rat
  lp_B :: rat

record mixer_config =
  mc_PublicKey :: bytes
  mc_PrivateKey :: bytes
  mc_ListenAddr :: string
  mc_DebugAddr :: string
  mc_Noise :: laplace

text \<open>\<open>keys\<close> is what \<open>ed25519.GenerateKey\<close> returns, if it succeeds.\<close>

definition NewMixerConfig :: "(bytes \<times> bytes) option \<Rightarrow> (fatal, mixer_config) outcome" where
  "NewMixerConfig keys =
     (case keys of
        None \<Rightarrow> Panic ExplicitPanic
      | Some (publicKey, privateKey) \<Rightarrow>
          Ok \<lparr>mc_PublicKey = publicKey, mc_PrivateKey = privateKey, mc_ListenAddr = ''0.0.0.0:2718'',
              mc_DebugAddr = ''0.0.0.0:6060'', mc_Noise = \<lparr>lp_Mu = 100, lp_B = 3\<rparr>\<rparr>)"

abbreviation lf :: string where "lf \<equiv> [CHR 0x0A]"

definition mixer_TOML :: "(bytes \<Rightarrow> string) \<Rightarrow> mixer_config \<Rightarrow> string" where
  "mixer_TOML benc c =
     ''# Vuvuzela mixnet server config'' @ lf @ lf @
     ''publicKey  = '' @ go_quote (benc (mc_PublicKey c)) @ lf @
     ''privateKey = '' @ go_quote (benc (mc_PrivateKey c)) @ lf @ lf @
     ''listenAddr = '' @ go_quote (mc_ListenAddr c) @ lf @
     ''debugAddr = '' @ go_quote (mc_DebugAddr c) @ lf @ lf @
     ''[noise]'' @ lf @
     ''mu = '' @ format_f1 (lp_Mu (mc_Noise c)) @ lf @
     ''b = '' @ format_f1 (lp_B (mc_Noise c)) @ lf"

record coordinator_conf =
  kc_PublicKey :: bytes
  kc_PrivateKey :: bytes
  kc_ListenAddr :: string
  kc_RoundDelay :: int

definition NewCoordinatorConfig :: "(bytes \<times> bytes) option \<Rightarrow> (fatal, coordinator_conf) outcome" where
  "NewCoordinatorConfig keys =
     (case keys of
        None \<Rightarrow> Panic ExplicitPanic
      | Some (publicKey, privateKey) \<Rightarrow>
          Ok \<lparr>kc_PublicKey = publicKey, kc_PrivateKey = privateKey, kc_ListenAddr = ''0.0.0.0:8000'',
              kc_RoundDelay = 800000000\<rparr>)"

definition coordinator_TOML :: "(bytes \<Rightarrow> string) \<Rightarrow> coordinator_conf \<Rightarrow> string" where
  "coordinator_TOML benc c =
     ''# Vuvuzela coordinator (entry) server config'' @ lf @ lf @
     ''publicKey  = '' @ go_quote (benc (kc_PublicKey c)) @ lf @
     ''privateKey = '' @ go_quote (benc (kc_PrivateKey c)) @ lf @ lf @
     ''listenAddr = '' @ go_quote (kc_ListenAddr c) @ lf @ lf @
     ''roundDelay = '' @ go_quote (Duration_String (kc_RoundDelay c)) @ lf"

section \<open>Log output\<close>

text \<open>The handler writes to a directory, if it has one, and to stderr; \<open>'e\<close> are the log entries.\<close>

record production_output =
  dirHandler :: "string option"

record 'e log_files =
  lg_dir :: "'e list"
  lg_stderr :: "'e list"

definition NewProductionOutput :: "(string \<Rightarrow> bool) \<Rightarrow> string \<Rightarrow> production_output option" where
  "NewProductionOutput mkdir logsDir =
     (if logsDir \<noteq> [] then (if mkdir logsDir then Some \<lparr>dirHandler = Some logsDir\<rparr> else None)
      else Some \<lparr>dirHandler = None\<rparr>)"

definition po_Name :: "production_output \<Rightarrow> string" where
  "po_Name h = (case dirHandler h of None \<Rightarrow> ''[stderr]'' | Some d \<Rightarrow> d)"

text \<open>Levels are numbers, the more severe the smaller; \<open>ErrorLevel\<close> is the one of errors.\<close>

definition po_Fire :: "nat \<Rightarrow> production_output \<Rightarrow> nat \<Rightarrow> 'e \<Rightarrow> 'e log_files \<Rightarrow> 'e log_files" where
  "po_Fire ErrorLevel h level e L =
     (case dirHandler h of
        None \<Rightarrow> L\<lparr>lg_stderr := lg_stderr L @ [e]\<rparr>
      | Some _ \<Rightarrow>
          (let L = L\<lparr>lg_dir := lg_dir L @ [e]\<rparr> in
           if level > ErrorLevel then L else L\<lparr>lg_stderr := lg_stderr L @ [e]\<rparr>))"

section \<open>Programs\<close>

text \<open>What a program sees and leaves: the files, the directories it made, and its standard output.\<close>

record world =
  wd_fs :: fs
  wd_dirs :: "string list"
  wd_out :: "string list"

datatype write_end = WriteOk | OpenFails | WriteFails nat

text \<open>
  How the calls turn out: \<open>MkdirAll\<close>, the answer of \<open>cmdutil.Overwrite\<close> for a path, \<open>WriteFile\<close>, the
  calls inside \<open>WriteFileAtomic\<close>, \<open>Listen\<close> on an address, \<open>ed25519.GenerateKey\<close>, and the current
  configuration of the \<open>Convo\<close> service.
\<close>

record prog_env =
  pe_MkdirAll :: "string \<Rightarrow> bool"
  pe_Overwrite :: "string \<Rightarrow> bool"
  pe_WriteFile :: "string \<Rightarrow> write_end"
  pe_atomic :: os_calls
  pe_Listen :: "string \<Rightarrow> bool"
  pe_GenerateKey :: "(bytes \<times> bytes) option"
  pe_CurrentConfig :: "signed_config option"

text \<open>A program returns, or serves connections with the state it has set up.\<close>

datatype 's program = Returns | Serves 's

definition say :: "string \<Rightarrow> world \<Rightarrow> world" where
  "say s W = W\<lparr>wd_out := wd_out W @ [s]\<rparr>"

definition MkdirAll :: "prog_env \<Rightarrow> string \<Rightarrow> world \<Rightarrow> world \<times> (fatal, unit) outcome" where
  "MkdirAll P d W =
     (if pe_MkdirAll P d then (W\<lparr>wd_dirs := (if d \<in> set (wd_dirs W) then wd_dirs W else wd_dirs W @ [d])\<rparr>, Ok ())
      else (W, Err (FatalMkdir d)))"

text \<open>\<open>ioutil.WriteFile\<close> truncates the file before it writes.\<close>

definition WriteFile :: "prog_env \<Rightarrow> string \<Rightarrow> bytes \<Rightarrow> world \<Rightarrow> world \<times> (fatal, unit) outcome" where
  "WriteFile P path data W =
     (case pe_WriteFile P path of
        WriteOk \<Rightarrow> (W\<lparr>wd_fs := (wd_fs W)(path \<mapsto> data)\<rparr>, Ok ())
      | OpenFails \<Rightarrow> (W, Err (FatalWrite path))
      | WriteFails n \<Rightarrow> (W\<lparr>wd_fs := (wd_fs W)(path \<mapsto> take n data)\<rparr>, Err (FatalWrite path)))"

text \<open>Sequential composition: the state goes on, a failure ends the program.\<close>

definition wbind :: "'s \<times> ('e, 'a) outcome \<Rightarrow> ('a \<Rightarrow> 's \<Rightarrow> 's \<times> ('e, 'b) outcome) \<Rightarrow> 's \<times> ('e, 'b) outcome" where
  "wbind r f = sbind (fst r) (snd r) (\<lambda>a. f a (fst r))"

text \<open>An error on its way up becomes the reason of another one.\<close>

fun map_err :: "('e \<Rightarrow> 'f) \<Rightarrow> ('e, 'a) outcome \<Rightarrow> ('f, 'a) outcome" where
  "map_err f (Ok a) = Ok a"
| "map_err f (Err e) = Err (f e)"
| "map_err f (Panic p) = Panic p"
| "map_err f Hang = Hang"

section \<open>The mix server program\<close>

text \<open>\<open>C\<close> holds the random draws of the service, which depend on the noise parameters.\<close>

definition mixer_server :: "(laplace \<Rightarrow> convo_env) \<Rightarrow> mixer_config \<Rightarrow> ConvoConfig \<Rightarrow> 'd server" where
  "mixer_server C conf convoConfig =
     \<lparr>SigningKey = mc_PrivateKey conf, CoordinatorKey = cc_Key (cfg_Coordinator convoConfig),
      Services = [''Convo'' \<mapsto> ConvoService (C (mc_Noise conf))], rounds = Map.empty\<rparr>"

definition writeNewConfig :: "(bytes \<Rightarrow> string) \<Rightarrow> prog_env \<Rightarrow> string \<Rightarrow> world \<Rightarrow> world \<times> (fatal, unit) outcome" where
  "writeNewConfig benc P path W =
     sbind W (NewMixerConfig (pe_GenerateKey P)) (\<lambda>c.
     wbind (WriteFile P path (ascii (mixer_TOML benc c)) W) (\<lambda>_ W.
       (say (''wrote '' @ path @ lf) W, Ok ())))"

text \<open>
  \<open>sv_debug\<close> is the address of the debugging endpoint; the goroutine that serves it ends the process
  if it cannot listen.
\<close>

record 's serving =
  sv_server :: 's
  sv_listen :: string
  sv_debug :: "string option"
  sv_logs :: production_output

definition mixer_serve ::
  "prog_env \<Rightarrow> (laplace \<Rightarrow> convo_env) \<Rightarrow> mixer_config \<Rightarrow> production_output \<Rightarrow> world \<Rightarrow>
   world \<times> (fatal, 'd server serving program) outcome" where
  "mixer_serve P C conf logHandler W =
     (case pe_CurrentConfig P of
        None \<Rightarrow> (W, Err FatalConfigClient)
      | Some signedConfig \<Rightarrow>
          (case sc_Inner signedConfig of
             None \<Rightarrow> (W, Panic FailedTypeAssertion)
           | Some convoConfig \<Rightarrow>
               if mc_DebugAddr conf \<noteq> [] \<and> \<not> pe_Listen P (mc_DebugAddr conf) then (W, Err (FatalListen (mc_DebugAddr conf)))
               else if \<not> pe_Listen P (mc_ListenAddr conf) then (W, Err (FatalListen (mc_ListenAddr conf)))
               else (W, Ok (Serves \<lparr>sv_server = mixer_server C conf convoConfig, sv_listen = mc_ListenAddr conf,
                   sv_debug = (if mc_DebugAddr conf = [] then None else Some (mc_DebugAddr conf)),
                   sv_logs = logHandler\<rparr>))))"

definition mixer_main ::
  "(bytes \<Rightarrow> string) \<Rightarrow> (bytes \<Rightarrow> mixer_config option) \<Rightarrow> prog_env \<Rightarrow> (laplace \<Rightarrow> convo_env) \<Rightarrow> bool \<Rightarrow> string \<Rightarrow>
   world \<Rightarrow> world \<times> (fatal, 'd server serving program) outcome" where
  "mixer_main benc toml P C doinit persistPath W =
     wbind (MkdirAll P persistPath W) (\<lambda>_ W.
       let confPath = path_Join [persistPath, ''mixer.conf''] in
       if doinit then
         (if pe_Overwrite P confPath then wbind (writeNewConfig benc P confPath W) (\<lambda>_ W. (W, Ok Returns))
          else (W, Ok Returns))
       else
         (case wd_fs W confPath of
            None \<Rightarrow> (W, Err (FatalRead confPath))
          | Some data \<Rightarrow>
              (case toml data of
                 None \<Rightarrow> (W, Err (FatalParse confPath))
               | Some conf \<Rightarrow>
                   (let logsDir = path_Join [persistPath, ''logs''] in
                    case NewProductionOutput (pe_MkdirAll P) logsDir of
                      None \<Rightarrow> (W, Err (FatalLogs logsDir))
                    | Some logHandler \<Rightarrow>
                        mixer_serve P C conf logHandler (W\<lparr>wd_dirs := wd_dirs W @ [logsDir]\<rparr>)))))"

section \<open>The coordinator program\<close>

definition new_coordinator :: "string \<Rightarrow> int \<Rightarrow> string \<Rightarrow> 'd coordinator" where
  "new_coordinator service delay path =
     \<lparr>co_Service = service, co_RoundDelay = delay, co_PersistPath = path, co_round = 0, co_rounds = Map.empty,
      co_closed = False, co_shutdown = None, co_freshConfig = False, co_latestConfig = None, co_outbox = []\<rparr>"

definition initService :: "prog_env \<Rightarrow> string \<Rightarrow> string \<Rightarrow> world \<Rightarrow> world \<times> (fatal, unit) outcome" where
  "initService P persistPath service W =
     (let W = say (''--> Initializing '' @ go_quote service @ '' service.'' @ lf) W;
          servicePersistPath = path_Join [persistPath, map to_lower service @ ''-coordinator-state''] in
      if \<not> pe_Overwrite P servicePersistPath then (say (''Nothing to do.'' @ lf) W, Ok ())
      else
        (case co_Persist (pe_atomic P) (wd_fs W) (new_coordinator service 0 servicePersistPath :: unit coordinator) of
           (states, r) \<Rightarrow>
             wbind (W\<lparr>wd_fs := last states\<rparr>, map_err FatalInit r) (\<lambda>_ W.
               (say (''! Wrote coordinator server state: '' @ servicePersistPath @ lf) W, Ok ()))))"

definition initCoordinator ::
  "(bytes \<Rightarrow> string) \<Rightarrow> prog_env \<Rightarrow> string \<Rightarrow> string \<Rightarrow> world \<Rightarrow> world \<times> (fatal, unit) outcome" where
  "initCoordinator benc P persistPath confPath W =
     (let W = say (''--> Generating coordinator key pair and config.'' @ lf) W in
      wbind (if pe_Overwrite P confPath then
               sbind W (NewCoordinatorConfig (pe_GenerateKey P)) (\<lambda>c.
               wbind (WriteFile P confPath (ascii (coordinator_TOML benc c)) W) (\<lambda>_ W.
                 (say (''--> Please edit the config file before running the server.'' @ lf)
                   (say (''! Wrote new config file: '' @ confPath @ lf) W), Ok ())))
             else (W, Ok ()))
        (\<lambda>_ W. initService P persistPath ''Convo'' W))"

definition coordinator_serve ::
  "prog_env \<Rightarrow> string \<Rightarrow> coordinator_conf \<Rightarrow> production_output \<Rightarrow> world \<Rightarrow>
   world \<times> (fatal, 'd coordinator serving program) outcome" where
  "coordinator_serve P persistPath conf logHandler W =
     (let convoPersistPath = path_Join [persistPath, ''convo-coordinator-state''];
          convoServer = new_coordinator ''Convo'' (kc_RoundDelay conf) convoPersistPath in
      case LoadPersistedState (wd_fs W) convoServer of
        (convoServer, r) \<Rightarrow>
          sbind W (map_err FatalLoad r) (\<lambda>_.
            if \<not> pe_Listen P (kc_ListenAddr conf) then (W, Err (FatalListen (kc_ListenAddr conf)))
            else sbind W (map_err FatalLoop (co_Run convoServer)) (\<lambda>srv.
              (W, Ok (Serves \<lparr>sv_server = srv, sv_listen = kc_ListenAddr conf, sv_debug = None, sv_logs = logHandler\<rparr>)))))"

definition coordinator_main ::
  "(bytes \<Rightarrow> string) \<Rightarrow> (bytes \<Rightarrow> coordinator_conf option) \<Rightarrow> prog_env \<Rightarrow> bool \<Rightarrow> string \<Rightarrow>
   world \<Rightarrow> world \<times> (fatal, 'd coordinator serving program) outcome" where
  "coordinator_main benc toml P doInit persistPath W =
     wbind (MkdirAll P persistPath W) (\<lambda>_ W.
       let confPath = path_Join [persistPath, ''coordinator.conf''] in
       if doInit then wbind (initCoordinator benc P persistPath confPath W) (\<lambda>_ W. (W, Ok Returns))
       else
         (case wd_fs W confPath of
            None \<Rightarrow> (W, Err (FatalRead confPath))
          | Some data \<Rightarrow>
              (case toml data of
                 None \<Rightarrow> (W, Err (FatalParse confPath))
               | Some conf \<Rightarrow>
                   (let logsDir = path_Join [persistPath, ''logs''] in
                    case NewProductionOutput (pe_MkdirAll P) logsDir of
                      None \<Rightarrow> (W, Err (FatalLogs logsDir))
                    | Some logHandler \<Rightarrow>
                        coordinator_serve P persistPath conf logHandler (W\<lparr>wd_dirs := wd_dirs W @ [logsDir]\<rparr>)))))"

section \<open>Paths\<close>

lemma split_path_append: "split_path (a @ ''/'' @ b) = split_path a @ split_path b"
proof (induction a)
  case (Cons c a)
  have "split_path a \<noteq> []" by (cases a) (auto split: list.splits)
  with Cons show ?case by (auto split: list.splits)
qed simp

lemma split_path_plain: "CHR ''/'' \<notin> set f \<Longrightarrow> split_path f = [f]"
  by (induction f) auto

lemma join_slash_snoc: "join_slash (xs @ [f]) = (if xs = [] then f else join_slash xs @ ''/'' @ f)"
  by (induction xs rule: join_slash.induct) auto

definition plain_name :: "string \<Rightarrow> bool" where
  "plain_name f \<longleftrightarrow> CHR ''/'' \<notin> set f \<and> f \<noteq> [] \<and> f \<noteq> ''.'' \<and> f \<noteq> ''..''"

lemma clean_parts_snoc:
  "plain_name f \<Longrightarrow> clean_parts rooted out (ps @ [f]) = f # clean_parts rooted out ps"
  by (induction rooted out ps rule: clean_parts.induct) (auto simp: plain_name_def split: list.splits)

definition dir_prefix :: "string \<Rightarrow> string" where
  "dir_prefix pp =
     (if pp = [] then []
      else (if take 1 pp = ''/'' then ''/'' else []) @
        (let out = clean_parts (take 1 pp = ''/'') [] (split_path pp) in if out = [] then [] else join_slash (rev out) @ ''/''))"

lemma path_Join_plain:
  assumes "plain_name f"
  shows "path_Join [pp, f] = dir_prefix pp @ f"
proof -
  have f: "split_path f = [f]" "f \<noteq> []" "take 1 f \<noteq> ''/''"
    using assms split_path_plain by (cases f; auto simp: plain_name_def)+
  show ?thesis
  proof (cases "pp = []")
    case True
    then show ?thesis
      using f clean_parts_snoc [OF assms, of False "[]" "[]"] by (simp add: path_Join_def path_Clean_def dir_prefix_def Let_def)
  next
    case False
    let ?out = "clean_parts (take 1 pp = ''/'') [] (split_path pp)"
    have "split_path (pp @ ''/'' @ f) = split_path pp @ [f]" using f(1) by (simp only: split_path_append)
    then have "join_slash (rev (clean_parts (take 1 pp = ''/'') [] (split_path (pp @ ''/'' @ f)))) =
        (if ?out = [] then [] else join_slash (rev ?out) @ ''/'') @ f"
      using clean_parts_snoc [OF assms] by (simp add: join_slash_snoc)
    moreover have "take 1 (pp @ ''/'' @ f) = take 1 pp" using False by (cases pp) auto
    ultimately show ?thesis
      using False f(2) by (auto simp: path_Join_def path_Clean_def dir_prefix_def Let_def)
  qed
qed

lemma path_Join_suffix: "plain_name f \<Longrightarrow> \<exists>pre. path_Join [pp, f] = pre @ f"
  by (auto simp: path_Join_plain)

lemma path_Join_inject: "plain_name f \<Longrightarrow> plain_name g \<Longrightarrow> path_Join [pp, f] = path_Join [pp, g] \<longleftrightarrow> f = g"
  by (simp add: path_Join_plain)

lemma path_Join_distinct:
  assumes "plain_name f" and "plain_name g" and "last f \<noteq> last g"
  shows "path_Join [pp, f] \<noteq> path_Join [qq, g]"
proof -
  obtain a b where "path_Join [pp, f] = a @ f" "path_Join [qq, g] = b @ g"
    using path_Join_suffix assms(1,2) by metis
  moreover have "f \<noteq> []" "g \<noteq> []" using assms by (auto simp: plain_name_def)
  ultimately show ?thesis using assms(3) by (metis last_appendR)
qed

lemma plain_names: "plain_name ''coordinator.conf''" "plain_name ''convo-coordinator-state''" "plain_name ''mixer.conf''"
  by (simp_all add: plain_name_def)

lemma coordinator_paths: "path_Join [pp, ''coordinator.conf''] \<noteq> path_Join [qq, ''convo-coordinator-state'']"
  by (rule path_Join_distinct) (simp_all add: plain_names)

lemma path_Join_nonempty: "plain_name f \<Longrightarrow> path_Join [pp, f] \<noteq> []"
  using path_Join_suffix [of f pp] by (auto simp: plain_name_def)

section \<open>What a program keeps\<close>

text \<open>
  The contract of a server program: a start that is not an initialisation leaves the files alone,
  and how a run ends depends on the files only, so a server that is started again behaves as it
  did the first time, however often it is restarted.
\<close>

locale server_program =
  fixes main :: "prog_env \<Rightarrow> bool \<Rightarrow> string \<Rightarrow> world \<Rightarrow> world \<times> (fatal, 's program) outcome"
  assumes run_keeps_files: "wd_fs (fst (main P False pp W)) = wd_fs W"
    and run_reads_files: "wd_fs W = wd_fs W' \<Longrightarrow> snd (main P doinit pp W) = snd (main P doinit pp W')"
    and init_returns: "snd (main P True pp W) \<noteq> Ok (Serves s)"
    and run_serves: "snd (main P False pp W) \<noteq> Ok Returns"
begin

definition restarts :: "prog_env list \<Rightarrow> string \<Rightarrow> world \<Rightarrow> world" where
  "restarts Ps pp W = fold (\<lambda>P W. fst (main P False pp W)) Ps W"

lemma restarts_keep_files: "wd_fs (restarts Ps pp W) = wd_fs W"
  by (induction Ps arbitrary: W) (simp_all add: restarts_def run_keeps_files)

lemma restart_same: "snd (main P False pp (restarts Ps pp W)) = snd (main P False pp W)"
  by (rule run_reads_files) (rule restarts_keep_files)

end

lemma wbind_simps [simp]:
  "wbind (W, Ok a) f = f a W" "wbind (W, Err e) f = (W, Err e)" "wbind (W, Panic p) f = (W, Panic p)"
  "wbind (W, Hang) f = (W, Hang)"
  by (simp_all add: wbind_def)

lemma say_fs [simp]: "wd_fs (say s W) = wd_fs W"
  by (simp add: say_def)

lemma sbind_fs: "(\<And>a. wd_fs (fst (f a)) = wd_fs W) \<Longrightarrow> wd_fs (fst (sbind W r f)) = wd_fs W"
  by (cases r) auto

lemma mixer_serve_fs: "wd_fs (fst (mixer_serve P C conf h W)) = wd_fs W"
  by (simp add: mixer_serve_def split: option.split)

lemma coordinator_serve_fs: "wd_fs (fst (coordinator_serve P pp conf h W)) = wd_fs W"
  by (simp add: coordinator_serve_def Let_def sbind_fs split: prod.split)

text \<open>The result of a run as a function of the files it starts from.\<close>

lemma wbind_Pair: "wbind (W, r) f = sbind W r (\<lambda>a. f a W)"
  by (simp add: wbind_def)

lemma snd_sbind: "(\<And>a. snd (f a) = snd (g a)) \<Longrightarrow> snd (sbind W r f) = snd (sbind W' r g)"
  by (cases r) auto

lemma MkdirAll_fs: "wd_fs (fst (MkdirAll P d W)) = wd_fs W"
  by (simp add: MkdirAll_def)

lemma MkdirAll_result: "snd (MkdirAll P d W) = (if pe_MkdirAll P d then Ok () else Err (FatalMkdir d))"
  by (simp add: MkdirAll_def)

text \<open>Two runs that agree on the files before and after a step agree on the result.\<close>

definition same_run :: "world \<times> ('e, 'a) outcome \<Rightarrow> world \<times> ('e, 'a) outcome \<Rightarrow> bool" where
  "same_run r r' \<longleftrightarrow> wd_fs (fst r) = wd_fs (fst r') \<and> snd r = snd r'"

lemma same_run_snd: "same_run r r' \<Longrightarrow> snd r = snd r'"
  by (simp add: same_run_def)

lemma same_wbind:
  assumes "same_run r r'" and "\<And>a W W'. wd_fs W = wd_fs W' \<Longrightarrow> same_run (f a W) (g a W')"
  shows "same_run (wbind r f) (wbind r' g)"
  using assms by (cases r; cases r'; cases "snd r") (auto simp: same_run_def)

lemma same_sbind:
  assumes "wd_fs W = wd_fs W'" and "\<And>a. same_run (f a) (g a)"
  shows "same_run (sbind W r f) (sbind W' r g)"
  using assms by (cases r) (auto simp: same_run_def)

lemma same_WriteFile: "wd_fs W = wd_fs W' \<Longrightarrow> same_run (WriteFile P path data W) (WriteFile P path data W')"
  by (auto simp: same_run_def WriteFile_def split: write_end.split)

lemma same_Pair: "wd_fs W = wd_fs W' \<Longrightarrow> same_run (W, r) (W', r)"
  by (simp add: same_run_def)

lemma same_MkdirAll: "wd_fs W = wd_fs W' \<Longrightarrow> same_run (MkdirAll P d W) (MkdirAll P d W')"
  by (simp add: same_run_def MkdirAll_fs MkdirAll_result)

lemmas same_intros = same_wbind same_sbind same_WriteFile same_Pair same_MkdirAll

lemma same_writeNewConfig:
  "wd_fs W = wd_fs W' \<Longrightarrow> same_run (writeNewConfig benc P path W) (writeNewConfig benc P path W')"
  unfolding writeNewConfig_def by (intro same_intros) auto

lemma same_initService:
  "wd_fs W = wd_fs W' \<Longrightarrow> same_run (initService P pp service W) (initService P pp service W')"
  unfolding initService_def by (auto simp: Let_def split: prod.split intro!: same_intros)

lemma same_initCoordinator:
  "wd_fs W = wd_fs W' \<Longrightarrow> same_run (initCoordinator benc P pp confPath W) (initCoordinator benc P pp confPath W')"
  unfolding initCoordinator_def by (auto simp: Let_def intro!: same_intros same_initService)

lemma same_mixer_serve:
  "wd_fs W = wd_fs W' \<Longrightarrow> same_run (mixer_serve P C conf h W) (mixer_serve P C conf h W')"
  by (auto simp: same_run_def mixer_serve_def split: option.split)

lemma same_coordinator_serve:
  "wd_fs W = wd_fs W' \<Longrightarrow> same_run (coordinator_serve P pp conf h W) (coordinator_serve P pp conf h W')"
  by (auto simp: coordinator_serve_def Let_def split: prod.split intro!: same_intros)

lemma same_mixer_main:
  "wd_fs W = wd_fs W' \<Longrightarrow> same_run (mixer_main benc toml P C d pp W) (mixer_main benc toml P C d pp W')"
  unfolding mixer_main_def
  by (intro same_wbind same_MkdirAll)
    (auto simp: Let_def split: option.split intro!: same_intros same_writeNewConfig same_mixer_serve)

lemma same_coordinator_main:
  "wd_fs W = wd_fs W' \<Longrightarrow> same_run (coordinator_main benc toml P d pp W) (coordinator_main benc toml P d pp W')"
  unfolding coordinator_main_def
  by (intro same_wbind same_MkdirAll)
    (auto simp: Let_def split: option.split intro!: same_intros same_initCoordinator same_coordinator_serve)

lemma wbind_cases:
  obtains (ok) a W' where "r = (W', Ok a)" "wbind r f = f a W'"
  | (stop) W' r' where "r = (W', r')" "\<not> is_Ok r'" "fst (wbind r f) = W'" "\<not> is_Ok (snd (wbind r f))"
  using that by (cases r; cases "snd r") auto

lemma wbind_Ok_iff: "wbind r f = (W, Ok b) \<longleftrightarrow> (\<exists>a W'. r = (W', Ok a) \<and> f a W' = (W, Ok b))"
  by (cases r; cases "snd r") auto

lemma wbind_run:
  "snd (wbind r f) = Ok b \<longleftrightarrow> (\<exists>a. snd r = Ok a \<and> snd (f a (fst r)) = Ok b)"
  by (cases r; cases "snd r") auto

lemma sbind_run: "snd (sbind W r f) = Ok b \<longleftrightarrow> (\<exists>a. r = Ok a \<and> snd (f a) = Ok b)"
  by (cases r) auto

lemma wbind_fs: "(\<And>a W. wd_fs (fst (f a W)) = wd_fs W) \<Longrightarrow> wd_fs (fst (wbind r f)) = wd_fs (fst r)"
  by (cases r; cases "snd r") auto

interpretation mixer_program: server_program "\<lambda>P. mixer_main benc toml P C" for benc toml C
proof unfold_locales
  fix P doinit pp W W' and s
  show "wd_fs (fst (mixer_main benc toml P C False pp W)) = wd_fs W"
    by (simp add: mixer_main_def Let_def wbind_fs MkdirAll_fs mixer_serve_fs split: option.split)
  show "snd (mixer_main benc toml P C doinit pp W) = snd (mixer_main benc toml P C doinit pp W')" if "wd_fs W = wd_fs W'"
    by (rule same_run_snd [OF same_mixer_main [OF that]])
  show "snd (mixer_main benc toml P C True pp W) \<noteq> Ok (Serves s)"
    by (simp add: mixer_main_def Let_def wbind_run)
  show "snd (mixer_main benc toml P C False pp W) \<noteq> Ok Returns"
    by (simp add: mixer_main_def mixer_serve_def Let_def wbind_run split: option.split)
qed

interpretation coordinator_program: server_program "coordinator_main benc toml" for benc toml
proof unfold_locales
  fix P doinit pp W W' and s
  show "wd_fs (fst (coordinator_main benc toml P False pp W)) = wd_fs W"
    by (simp add: coordinator_main_def Let_def wbind_fs MkdirAll_fs coordinator_serve_fs split: option.split)
  show "snd (coordinator_main benc toml P doinit pp W) = snd (coordinator_main benc toml P doinit pp W')" if "wd_fs W = wd_fs W'"
    by (rule same_run_snd [OF same_coordinator_main [OF that]])
  show "snd (coordinator_main benc toml P True pp W) \<noteq> Ok (Serves s)"
    by (simp add: coordinator_main_def Let_def wbind_run)
  show "snd (coordinator_main benc toml P False pp W) \<noteq> Ok Returns"
    by (simp add: coordinator_main_def coordinator_serve_def Let_def wbind_run sbind_run split: option.split prod.split)
qed

section \<open>Properties\<close>

definition calls_ok :: "prog_env \<Rightarrow> bool" where
  "calls_ok P \<longleftrightarrow> (\<forall>d. pe_MkdirAll P d) \<and> (\<forall>a. pe_Listen P a)"

lemma path_Join_logs: "path_Join [pp, ''logs''] \<noteq> []"
  by (rule path_Join_nonempty) (simp add: plain_name_def)

lemma new_coordinator_sel [simp]:
  "co_Service (new_coordinator s d p) = s" "co_RoundDelay (new_coordinator s d p) = d"
  "co_PersistPath (new_coordinator s d p) = p" "co_round (new_coordinator s d p) = 0"
  by (simp_all add: new_coordinator_def)

lemma coordinator_main_run:
  assumes "calls_ok P" and "wd_fs W (path_Join [pp, ''coordinator.conf'']) = Some data" and "toml data = Some conf"
    and "wd_fs W (path_Join [pp, ''convo-coordinator-state'']) =
      Some (persist_version # ascii (persisted_doc \<lparr>ps_Round = r\<rparr>))"
  shows "\<exists>srv :: 'd coordinator. snd (coordinator_main benc toml P False pp W) = Ok (Serves \<lparr>sv_server = srv, sv_listen = kc_ListenAddr conf,
      sv_debug = None, sv_logs = \<lparr>dirHandler = Some (path_Join [pp, ''logs''])\<rparr>\<rparr>) \<and>
    co_Service srv = ''Convo'' \<and> co_round srv = r \<and> co_RoundDelay srv = kc_RoundDelay conf \<and>
    co_PersistPath srv = path_Join [pp, ''convo-coordinator-state''] \<and> co_rounds srv = Map.empty \<and> co_shutdown srv = Some False"
proof -
  let ?path = "path_Join [pp, ''convo-coordinator-state'']"
  have "LoadPersistedState (wd_fs W) (new_coordinator ''Convo'' (kc_RoundDelay conf) ?path :: 'd coordinator) =
      ((new_coordinator ''Convo'' (kc_RoundDelay conf) ?path)\<lparr>co_round := r\<rparr>, Ok ())"
    by (rule load_after_persist) (simp add: assms(4))
  moreover have "?path \<noteq> []" by (rule path_Join_nonempty) (rule plain_names)
  ultimately show ?thesis
    using assms(1-3) path_Join_logs [of pp]
    by (simp add: coordinator_main_def MkdirAll_def calls_ok_def Let_def NewProductionOutput_def coordinator_serve_def
        co_Run_def)
qed

text \<open>What \<open>-init\<close> leaves on disk when it succeeds and the user lets it write both files.\<close>

lemma map_to_lower_Convo: "map to_lower ''Convo'' = ''convo''"
  by code_simp

lemma initService_files:
  assumes "snd (initService P pp ''Convo'' W) = Ok ()" and "pe_Overwrite P (path_Join [pp, ''convo-coordinator-state''])"
    and "fresh_temp (pe_atomic P) (path_Join [pp, ''convo-coordinator-state'']) (wd_fs W)"
    and "wd_fs W f \<noteq> None" and "f \<noteq> path_Join [pp, ''convo-coordinator-state'']"
  shows "wd_fs (fst (initService P pp ''Convo'' W)) (path_Join [pp, ''convo-coordinator-state'']) =
      Some (persist_version # ascii (persisted_doc \<lparr>ps_Round = 0\<rparr>)) \<and>
    wd_fs (fst (initService P pp ''Convo'' W)) f = wd_fs W f"
proof -
  let ?path = "path_Join [pp, ''convo-coordinator-state'']"
  let ?srv = "new_coordinator ''Convo'' 0 ?path :: unit coordinator"
  obtain states r where run: "co_Persist (pe_atomic P) (wd_fs W) ?srv = (states, r)" by fastforce
  have path: "path_Join [pp, map to_lower ''Convo'' @ ''-coordinator-state''] = ?path"
    unfolding map_to_lower_Convo by simp
  have init: "initService P pp ''Convo'' W = wbind ((say (''--> Initializing '' @ go_quote ''Convo'' @ '' service.'' @ lf) W)
      \<lparr>wd_fs := last states\<rparr>, map_err FatalInit r) (\<lambda>_ W.
        (say (''! Wrote coordinator server state: '' @ ?path @ lf) W, Ok ()))"
    unfolding initService_def path Let_def using assms(2) run by simp
  then have r: "r = Ok ()" using assms(1) by (cases r) auto
  have w: "WriteFileAtomic (pe_atomic P) ?path (persist_version # ascii (persisted_doc \<lparr>ps_Round = 0\<rparr>)) (wd_fs W) = (states, None)"
    using run r by (auto simp: co_Persist_def Let_def split: prod.splits option.splits)
  have "last states f = wd_fs W f"
    using fun_cong [OF WriteFileAtomic_others [OF assms(3) w], of "None" f] assms(5) by simp
  with WriteFileAtomic_states [OF assms(3) w] show ?thesis using init r by simp
qed

lemma coordinator_init_files:
  assumes "coordinator_main benc toml P True pp W0 = (W, Ok Returns)" and "NewCoordinatorConfig (pe_GenerateKey P) = Ok conf"
    and "pe_Overwrite P (path_Join [pp, ''coordinator.conf''])" "pe_Overwrite P (path_Join [pp, ''convo-coordinator-state''])"
    and "fresh_temp (pe_atomic P) (path_Join [pp, ''convo-coordinator-state''])
      ((wd_fs W0)(path_Join [pp, ''coordinator.conf''] \<mapsto> ascii (coordinator_TOML benc conf)))"
  shows "wd_fs W (path_Join [pp, ''coordinator.conf'']) = Some (ascii (coordinator_TOML benc conf)) \<and>
    wd_fs W (path_Join [pp, ''convo-coordinator-state'']) = Some (persist_version # ascii (persisted_doc \<lparr>ps_Round = 0\<rparr>))"
proof -
  let ?conf = "path_Join [pp, ''coordinator.conf'']"
  define W1 where "W1 = say (''--> Generating coordinator key pair and config.'' @ lf) (fst (MkdirAll P pp W0))"
  define W2 where "W2 = say (''--> Please edit the config file before running the server.'' @ lf)
    (say (''! Wrote new config file: '' @ ?conf @ lf) (W1\<lparr>wd_fs := (wd_fs W1)(?conf \<mapsto> ascii (coordinator_TOML benc conf))\<rparr>))"
  have fs: "wd_fs W2 = (wd_fs W0)(?conf \<mapsto> ascii (coordinator_TOML benc conf))"
    by (simp add: W1_def W2_def MkdirAll_fs)
  have main: "initCoordinator benc P pp ?conf (fst (MkdirAll P pp W0)) = (W, Ok ())"
    using assms(1) by (auto simp: coordinator_main_def wbind_Ok_iff Let_def)
  then have "pe_WriteFile P ?conf = WriteOk"
    using assms(2,3) by (auto simp: initCoordinator_def WriteFile_def Let_def split: write_end.splits)
  then have "initCoordinator benc P pp ?conf (fst (MkdirAll P pp W0)) = initService P pp ''Convo'' W2"
    using assms(2,3) by (simp add: initCoordinator_def WriteFile_def Let_def W1_def W2_def)
  with main have "snd (initService P pp ''Convo'' W2) = Ok ()" "fst (initService P pp ''Convo'' W2) = W" by simp_all
  with initService_files [OF _ assms(4), of W2 ?conf] coordinator_paths [of pp pp] assms(5) fs show ?thesis by simp
qed


definition toy_prog_env :: prog_env where
  "toy_prog_env =
     \<lparr>pe_MkdirAll = (\<lambda>_. True), pe_Overwrite = (\<lambda>_. True), pe_WriteFile = (\<lambda>_. WriteOk), pe_atomic = ok_calls,
      pe_Listen = (\<lambda>_. True), pe_GenerateKey = Some ([1], [2]),
      pe_CurrentConfig = Some \<lparr>sc_Guardians = [], sc_Inner = Some toy_config, sc_Hash = [], sc_Service = ''Convo''\<rparr>\<rparr>"

definition toy_conf :: coordinator_conf where
  "toy_conf = \<lparr>kc_PublicKey = [1], kc_PrivateKey = [2], kc_ListenAddr = ''0.0.0.0:8000'', kc_RoundDelay = 800000000\<rparr>"

definition empty_world :: world where
  "empty_world = \<lparr>wd_fs = Map.empty, wd_dirs = [], wd_out = []\<rparr>"

lemma toy_paths:
  "path_Join [''p'', ''coordinator.conf''] = ''p/coordinator.conf''"
  "path_Join [''p'', ''convo-coordinator-state''] = ''p/convo-coordinator-state''"
  "path_Join [''p'', ''mixer.conf''] = ''p/mixer.conf''"
  by code_simp+

lemma ok_calls_write: "snd (WriteFileAtomic ok_calls path data fs0) = None"
  by (simp add: WriteFileAtomic_def ok_calls_def toy_calls_def write_temp_def first_err_def Let_def)

lemma toy_init:
  "\<exists>W. coordinator_main benc toml toy_prog_env True ''p'' empty_world = (W, Ok Returns)"
proof -
  have "snd (co_Persist ok_calls fs0 srv) = Ok ()" for fs0 and srv :: "unit coordinator"
    using ok_calls_write [of "co_PersistPath srv" "[persist_version] @ ascii (persisted_doc \<lparr>ps_Round = co_round srv\<rparr>)" fs0]
    by (auto simp: co_Persist_def Let_def split: prod.splits option.splits)
  then have "snd (initService toy_prog_env ''p'' s W) = Ok ()" for s W
    by (auto simp: initService_def toy_prog_env_def Let_def wbind_def split: prod.splits) (metis map_err.simps(1) sbind_simps(1) snd_conv)
  then have "snd (initCoordinator benc toy_prog_env ''p'' c W) = Ok ()" for c W
    by (simp add: initCoordinator_def toy_prog_env_def NewCoordinatorConfig_def WriteFile_def Let_def wbind_def)
  then have "snd (coordinator_main benc toml toy_prog_env True ''p'' empty_world) = Ok Returns"
    by (simp add: coordinator_main_def wbind_run MkdirAll_result Let_def) (simp add: toy_prog_env_def)
  then show ?thesis by (metis prod.collapse)
qed



definition toy_mixer_conf :: mixer_config where
  "toy_mixer_conf =
     \<lparr>mc_PublicKey = [1], mc_PrivateKey = [2], mc_ListenAddr = ''0.0.0.0:2718'', mc_DebugAddr = ''0.0.0.0:6060'',
      mc_Noise = \<lparr>lp_Mu = 100, lp_B = 3\<rparr>\<rparr>"

lemma toy_prog_config:
  "pe_CurrentConfig toy_prog_env = Some \<lparr>sc_Guardians = [], sc_Inner = Some toy_config, sc_Hash = [], sc_Service = ''Convo''\<rparr>"
  by (simp add: toy_prog_env_def)

lemma toy_prog_ok: "pe_Overwrite toy_prog_env path" "calls_ok toy_prog_env"
  by (simp_all add: toy_prog_env_def calls_ok_def)


text \<open>
  The log handler loses nothing: an entry reaches the directory if there is one, and stderr if there is
  none or if it is at least an error.
\<close>

lemma Fire_complete:
  "lg_dir (po_Fire E h level e L) = lg_dir L @ (if dirHandler h = None then [] else [e]) \<and>
   lg_stderr (po_Fire E h level e L) = lg_stderr L @ (if dirHandler h = None \<or> level \<le> E then [e] else [])"
  by (simp add: po_Fire_def Let_def split: option.split)

end
