(* ===== verification/Gui_Run.thy ===== *)
theory Gui_Run
  imports Gui_Commands Programs
begin

text \<open>
  The client program: what \<open>main\<close> loads or generates on start-up (\<open>cmd/gjallarhorn-client/main.go\<close>),
  the keys it binds, the messages it greets the user with, and how its main loop ends (\<open>Run\<close> in
  \<open>gui.go\<close>). The friends client (\<open>neverlur\<close>), the configuration server and the calls of the
  operating system are inputs.
\<close>

section \<open>Starting up\<close>

text \<open>What \<open>main\<close> sets of the friends client.\<close>

record alpenhorn_client =
  ac_Username :: string
  ac_LongTermPublicKey :: bytes
  ac_LongTermPrivateKey :: bytes
  ac_PKGLoginKey :: bytes
  ac_ClientPersistPath :: string
  ac_KeywheelPersistPath :: string

datatype load_end = Loaded alpenhorn_client | NotExist | LoadFails

text \<open>
  The calls of a start: \<open>neverlur.LoadClient\<close> for its two paths, \<open>CurrentConfig\<close> for a service,
  \<open>ed25519.GenerateKey\<close>, the friends client's \<open>Bootstrap\<close> and \<open>Persist\<close>, the verdict of a
  configuration's \<open>Validate\<close>, the codec and the calls behind the conversation client's own state,
  the home directory, and whether its configuration directory can be made.
\<close>

record launch_env =
  ln_LoadAlpenhorn :: "string \<Rightarrow> string \<Rightarrow> load_end"
  ln_CurrentConfig :: "string \<Rightarrow> signed_config option"
  ln_GenerateKey :: "(bytes \<times> bytes) option"
  ln_Bootstrap :: "alpenhorn_client \<Rightarrow> signed_config \<Rightarrow> signed_config \<Rightarrow> bool"
  ln_Persist :: "alpenhorn_client \<Rightarrow> bool"
  ln_Validate :: "signed_config \<Rightarrow> bool"
  ln_codec :: state_codec
  ln_calls :: os_calls
  ln_HomeDir :: "string option"
  ln_MkdirAll :: "string \<Rightarrow> bool"

datatype gen_err = FetchingConfigOf string | BootstrappingAlpenhorn | PersistingAlpenhorn
  | BootstrappingVuvuzela client_err | PersistingVuvuzela client_err

text \<open>Why \<open>main\<close> exits before the user interface comes up.\<close>

datatype client_exit = NoUsername | NoCurrentUser | NoConfHome string
  | GenerateAlpenhorn gen_err | LoadAlpenhorn | GenerateVuvuzela gen_err | LoadVuvuzela client_err

definition generateAlpenhornClient ::
  "launch_env \<Rightarrow> string \<Rightarrow> string \<Rightarrow> string \<Rightarrow> (gen_err, alpenhorn_client) outcome" where
  "generateAlpenhornClient L username alpStatePath keywheelPath =
     (case ln_CurrentConfig L ''AddFriend'' of
        None \<Rightarrow> Err (FetchingConfigOf ''AddFriend'')
      | Some addFriendConfig \<Rightarrow>
          (case ln_CurrentConfig L ''Dialing'' of
             None \<Rightarrow> Err (FetchingConfigOf ''Dialing'')
           | Some dialingConfig \<Rightarrow>
               (case ln_GenerateKey L of
                  None \<Rightarrow> Panic ExplicitPanic
                | Some (publicKey, privateKey) \<Rightarrow>
                    (let client = \<lparr>ac_Username = username, ac_LongTermPublicKey = publicKey,
                           ac_LongTermPrivateKey = privateKey, ac_PKGLoginKey = privateKey,
                           ac_ClientPersistPath = alpStatePath, ac_KeywheelPersistPath = keywheelPath\<rparr> in
                     if \<not> ln_Bootstrap L client addFriendConfig dialingConfig then Err BootstrappingAlpenhorn
                     else if \<not> ln_Persist L client then Err PersistingAlpenhorn
                     else Ok client))))"

text \<open>The result says whether the client is new.\<close>

definition LoadAlpenhornState ::
  "launch_env \<Rightarrow> string \<Rightarrow> string \<Rightarrow> (client_exit, alpenhorn_client \<times> bool) outcome" where
  "LoadAlpenhornState L confHome username =
     (let alpStatePath = path_Join [confHome, username @ ''-alpenhorn-client-state''];
          keywheelPath = path_Join [confHome, username @ ''-keywheel''] in
      case ln_LoadAlpenhorn L alpStatePath keywheelPath of
        NotExist \<Rightarrow>
          obind (map_err GenerateAlpenhorn (generateAlpenhornClient L username alpStatePath keywheelPath))
            (\<lambda>client. Ok (client, True))
      | LoadFails \<Rightarrow> Err LoadAlpenhorn
      | Loaded client \<Rightarrow> Ok (client, False))"

definition generateVuvuzelaClient ::
  "launch_env \<Rightarrow> 'h \<Rightarrow> string \<Rightarrow> fs \<Rightarrow> fs \<times> (gen_err, 'h convo_client) outcome" where
  "generateVuvuzelaClient L h clientPath disk =
     (case ln_CurrentConfig L ''Convo'' of
        None \<Rightarrow> (disk, Err (FetchingConfigOf ''Convo''))
      | Some convoConfig \<Rightarrow>
          (case Bootstrap (ln_Validate L convoConfig) convoConfig (new_client h clientPath) of
             (client, r) \<Rightarrow>
               sbind disk (map_err BootstrappingVuvuzela r) (\<lambda>_.
                 case cl_Persist (ln_codec L) (ln_calls L) disk client of
                   (states, r) \<Rightarrow> (last states, obind (map_err PersistingVuvuzela r) (\<lambda>_. Ok client)))))"

text \<open>\<open>os.IsNotExist\<close> holds of the error of a missing file only.\<close>

definition LoadVuvuzelaState ::
  "launch_env \<Rightarrow> 'h \<Rightarrow> string \<Rightarrow> string \<Rightarrow> fs \<Rightarrow> fs \<times> (client_exit, 'h convo_client \<times> bool) outcome" where
  "LoadVuvuzelaState L h confHome username disk =
     (let vzStatePath = path_Join [confHome, username @ ''-vuvuzela-client-state''];
          r = LoadClient (ln_codec L) disk h vzStatePath in
      if r = Err ClientReadError then
        wbind (apsnd (map_err GenerateVuvuzela) (generateVuvuzelaClient L h vzStatePath disk))
          (\<lambda>client disk. (disk, Ok (client, True)))
      else (disk, obind (map_err LoadVuvuzela r) (\<lambda>client. Ok (client, False))))"

record launch_status =
  isNewAlpenhornClient :: bool
  isNewVuvuzelaClient :: bool

record launched =
  la_alpenhorn :: alpenhorn_client
  la_convo :: "gui convo_client"
  la_status :: launch_status

text \<open>
  The program up to \<open>Run\<close>: the conversation client's handler is the user interface, which is named after
  the friends client's user.
\<close>

definition client_main :: "launch_env \<Rightarrow> string \<Rightarrow> int \<Rightarrow> fs \<Rightarrow> fs \<times> (client_exit, launched) outcome" where
  "client_main L username latency disk =
     (if username = [] then (disk, Err NoUsername)
      else
        case ln_HomeDir L of
          None \<Rightarrow> (disk, Err NoCurrentUser)
        | Some home \<Rightarrow>
            (let confHome = path_Join [home, ''.vuvuzela''] in
             if \<not> ln_MkdirAll L confHome then (disk, Err (NoConfHome confHome))
             else
               sbind disk (LoadAlpenhornState L confHome username) (\<lambda>(alp, isNewAlp).
               wbind (LoadVuvuzelaState L (new_gui (ac_Username alp)) confHome username disk) (\<lambda>(vz, isNewVz) disk.
                 (disk, Ok \<lparr>la_alpenhorn = alp, la_convo = vz\<lparr>cl_CoordinatorLatency := latency\<rparr>,
                    la_status = \<lparr>isNewAlpenhornClient = isNewAlp, isNewVuvuzelaClient = isNewVz\<rparr>\<rparr>)))))"

section \<open>Keys\<close>

datatype bound_key = CtrlC | AltRune char | EnterKey | TabKey | PgUp | PgDn

datatype key_action = Quit | FocusIndex nat | ReadLine | TabComplete | ScrollUp | ScrollDown

text \<open>The calls of \<open>SetKeybinding\<close> in order: the view, the key, the handler.\<close>

definition keybindings :: "(string \<times> bound_key \<times> key_action) list" where
  "keybindings =
     [([], CtrlC, Quit)] @
     map (\<lambda>(i, ch). ([], AltRune ch, FocusIndex i)) (enumerate 0 ''1234567890'') @
     [(''input'', EnterKey, ReadLine), (''input'', TabKey, TabComplete), ([], PgUp, ScrollUp), ([], PgDn, ScrollDown)]"

text \<open>
  A key reaches the handlers bound to it for every view or for the current one, which is the input line.
\<close>

definition handlers_of :: "bound_key \<Rightarrow> key_action list" where
  "handlers_of k = map (snd \<circ> snd) (filter (\<lambda>(v, k', _). k' = k \<and> (v = [] \<or> v = ''input'')) keybindings)"

definition quit :: "gui \<Rightarrow> gui \<times> ui_err option" where
  "quit G = (G, Some ErrQuit)"

text \<open>The errors of scrolling are dropped; \<open>newlines\<close>, \<open>height\<close> and \<open>oy\<close> describe the current view.\<close>

definition scroll :: "int \<Rightarrow> int \<Rightarrow> int \<Rightarrow> int \<Rightarrow> gui \<Rightarrow> (string \<times> int option) option \<times> ui_err option" where
  "scroll dy newlines height oy G =
     (case scrollCurrentView dy newlines height oy G of Ok v \<Rightarrow> (Some v, None) | _ \<Rightarrow> (None, None))"

definition scrollUp :: "int \<Rightarrow> int \<Rightarrow> int \<Rightarrow> gui \<Rightarrow> (string \<times> int option) option \<times> ui_err option" where
  "scrollUp newlines height oy G = scroll (- 1) newlines height oy G"

definition scrollDown :: "int \<Rightarrow> int \<Rightarrow> int \<Rightarrow> gui \<Rightarrow> (string \<times> int option) option \<times> ui_err option" where
  "scrollDown newlines height oy G = scroll 1 newlines height oy G"

text \<open>What a handler does to the client and the error it gives to the main loop.\<close>

record key_input =
  ki_env :: gui_env
  ki_alpenhorn :: alpenhorn
  ki_commands :: "string list"
  ki_buffer :: string
  ki_newlines :: int
  ki_height :: int
  ki_oy :: int

fun handle_key :: "key_input \<Rightarrow> key_action \<Rightarrow> gui \<Rightarrow> command_result" where
  "handle_key I Quit G = Ok (quit G)"
| "handle_key I (FocusIndex i) G = Ok (focusConvoIndex i G)"
| "handle_key I ReadLine G = readLine (ki_env I) (ki_alpenhorn I) (ki_buffer I) G"
| "handle_key I TabComplete G =
     Ok (fst (tabComplete (ki_env I) (ki_alpenhorn I) (ki_commands I) (ki_buffer I) G), None)"
| "handle_key I ScrollUp G = Ok (G, snd (scrollUp (ki_newlines I) (ki_height I) (ki_oy I) G))"
| "handle_key I ScrollDown G = Ok (G, snd (scrollDown (ki_newlines I) (ki_height I) (ki_oy I) G))"

text \<open>\<open>Run\<close> panics unless the main loop ends without an error or with \<open>ErrQuit\<close>.\<close>

definition run_end :: "ui_err option \<Rightarrow> (unit, unit) outcome" where
  "run_end err = (if err \<noteq> None \<and> err \<noteq> Some ErrQuit then Panic ExplicitPanic else Ok ())"

section \<open>The greeting\<close>

text \<open>
  The goroutine \<open>Run\<close> starts; \<open>key32\<close> is the public key in readable form and \<open>stats\<close> what the key
  generators say when it connects.
\<close>

definition generated_alpenhorn :: "string \<Rightarrow> alpenhorn_client \<Rightarrow> string list" where
  "generated_alpenhorn key32 alp =
     [nl @ ''-!- Generated new Alpenhorn client'' @ nl,
      bullet @ ''Username:   '' @ ac_Username alp @ nl,
      bullet @ ''Public Key: '' @ key32 @ nl,
      bullet @ ''Data Path:  '' @ ac_ClientPersistPath alp @ nl]"

definition generated_vuvuzela :: "string \<Rightarrow> string list" where
  "generated_vuvuzela path =
     [nl @ ''-!- Generated new Vuvuzela client'' @ nl, bullet @ ''Data Path:  '' @ path @ nl]"

definition greeting :: "gui_env \<Rightarrow> string \<Rightarrow> pkg_status list \<Rightarrow> launched \<Rightarrow> gui \<Rightarrow> gui \<times> string list" where
  "greeting E key32 stats la G =
     (let alp = la_alpenhorn la; st = la_status la;
          G = gc_Printf (''Welcome to Vuvuzela. Type /help for help.'' @ nl) G;
          G = (if isNewAlpenhornClient st \<or> isNewVuvuzelaClient st then
                 fold gc_PrintfSync
                   ((if isNewAlpenhornClient st then generated_alpenhorn key32 alp else []) @
                    (if isNewVuvuzelaClient st then generated_vuvuzela (cl_PersistPath (la_convo la)) else []) @
                    [nl @ ''@@@ Cautious users should verify the initial configs at the above paths before sending messages. @@@'' @ nl @ nl]) G
               else G) in
      Connect E (ac_Username alp) stats G)"

section \<open>Lemmas\<close>

lemma fold_PrintfSync_inv: "gui_inv G \<Longrightarrow> gui_inv (fold gc_PrintfSync lines G)"
  by (induction lines arbitrary: G) (simp_all add: gc_PrintfSync_inv)

lemma greeting_inv: "gui_inv G \<Longrightarrow> gui_inv (fst (greeting E key32 stats la G))"
  unfolding greeting_def Let_def
  by (rule Connect_inv, split if_split) (blast intro: fold_PrintfSync_inv gc_Printf_inv)

lemma readLine_error:
  assumes "gui_inv G" and "surroundings_ok E" and "alpenhorn_ok A" and "readLine E A buffer G = Ok (G', e)"
  shows "e = None \<or> e = Some ErrQuit \<and> (\<exists>rest. Fields (tl (TrimNewlines buffer)) = ''quit'' # rest)"
proof (cases "TrimNewlines buffer = [] \<or> e = None")
  case True
  then show ?thesis using assms(4) by (auto simp: readLine_def Let_def)
next
  case False
  let ?line = "TrimNewlines buffer"
  have run: "handleLine E A ?line G = Ok (G', e)" using False assms(4) by (simp add: readLine_def Let_def)
  with handleLine_Ok [OF assms(1-3), of ?line] False have slash: "hd ?line = CHR ''/''" "Fields (tl ?line) \<noteq> []"
    "hd (Fields (tl ?line)) = ''quit''" by auto
  then obtain rest where "Fields (tl ?line) = ''quit'' # rest" by (cases "Fields (tl ?line)") auto
  moreover obtain ch s where "?line = ch # s" using False by (cases ?line) auto
  ultimately show ?thesis using run slash by (simp add: handleLine_def run_command_def)
qed

lemma handlers_of_keys:
  "handlers_of CtrlC = [Quit]" "handlers_of EnterKey = [ReadLine]" "handlers_of TabKey = [TabComplete]"
  "handlers_of PgUp = [ScrollUp]" "handlers_of PgDn = [ScrollDown]"
  "handlers_of (AltRune ch) = (if ch = CHR ''1'' then [FocusIndex 0] else if ch = CHR ''2'' then [FocusIndex 1]
     else if ch = CHR ''3'' then [FocusIndex 2] else if ch = CHR ''4'' then [FocusIndex 3]
     else if ch = CHR ''5'' then [FocusIndex 4] else if ch = CHR ''6'' then [FocusIndex 5]
     else if ch = CHR ''7'' then [FocusIndex 6] else if ch = CHR ''8'' then [FocusIndex 7]
     else if ch = CHR ''9'' then [FocusIndex 8] else if ch = CHR ''0'' then [FocusIndex 9] else [])"
  by (simp_all add: handlers_of_def keybindings_def)

lemma handlers_of_total: "handlers_of k = [] \<longleftrightarrow> (\<exists>ch. k = AltRune ch \<and> ch \<notin> set ''1234567890'')"
  by (cases k) (auto simp: handlers_of_keys)

lemma handlers_of_one: "length (handlers_of k) \<le> 1"
  by (cases k) (auto simp: handlers_of_keys)

lemma handle_key_Ok:
  assumes "gui_reachable G" and "surroundings_ok (ki_env I)" and "alpenhorn_ok (ki_alpenhorn I)"
  shows "\<exists>G' e. handle_key I a G = Ok (G', e) \<and> gui_reachable G' \<and>
    (e = None \<or> e = Some ErrQuit \<and> (a = Quit \<or>
       a = ReadLine \<and> (\<exists>rest. Fields (tl (TrimNewlines (ki_buffer I))) = ''quit'' # rest)))"
proof -
  note inv = gui_reachable_inv [OF assms(1)]
  show ?thesis
  proof (cases a)
    case Quit
    then show ?thesis using assms(1) by (simp add: quit_def)
  next
    case (FocusIndex i)
    moreover have "focusConvoIndex i G = (fst (focusConvoIndex i G), None)"
      using focus_Ok(3) [OF inv, of i] by auto
    ultimately show ?thesis
      using gui_reachable.step [OF assms(1) gui_step.window [of G i]] by (metis handle_key.simps(2))
  next
    case ReadLine
    obtain G' e where run: "readLine (ki_env I) (ki_alpenhorn I) (ki_buffer I) G = Ok (G', e)"
      using readLine_Ok [OF inv assms(2,3)] by blast
    have "gui_reachable G'" by (rule gui_reachable.step [OF assms(1) gui_step.enter [OF assms(2,3) run]])
    with ReadLine run readLine_error [OF inv assms(2,3) run] show ?thesis by auto
  next
    case TabComplete
    then show ?thesis using gui_reachable.step [OF assms(1) gui_step.tab] by simp
  next
    case ScrollUp
    then show ?thesis using assms(1) by (simp add: scrollUp_def scroll_def split: outcome.split)
  next
    case ScrollDown
    then show ?thesis using assms(1) by (simp add: scrollDown_def scroll_def split: outcome.split)
  qed
qed

lemma plain_user: "CHR ''/'' \<notin> set u \<Longrightarrow> CHR ''/'' \<notin> set f \<Longrightarrow> 2 < length f \<Longrightarrow> plain_name (u @ f)"
  by (auto simp: plain_name_def dest!: arg_cong [of _ _ length])

text \<open>Two users share no file of the configuration directory, and the three files of a user differ.\<close>

lemma state_files_distinct:
  assumes "CHR ''/'' \<notin> set u" and "CHR ''/'' \<notin> set v" and "f \<in> {''-alpenhorn-client-state'', ''-keywheel'', ''-vuvuzela-client-state''}"
  shows "path_Join [home, u @ f] = path_Join [home, v @ f] \<longleftrightarrow> u = v"
  using assms by (subst path_Join_inject) (auto intro!: plain_user)

lemma apsnd_map_err_Ok: "apsnd (map_err f) r = (d, Ok a) \<Longrightarrow> r = (d, Ok a)"
  by (cases r; cases "snd r") (auto simp: apsnd_def)

lemma generateVuvuzelaClient_Ok:
  assumes "generateVuvuzelaClient L h path disk = (disk', Ok c)"
  obtains conf states where "ln_CurrentConfig L ''Convo'' = Some conf" "ln_Validate L conf" "sc_Inner conf \<noteq> None"
    "c = (new_client h path)\<lparr>cl_convoConfig := Some conf, cl_convoConfigHash := sc_Hash conf\<rparr>"
    "cl_Persist (ln_codec L) (ln_calls L) disk c = (states, Ok ())" "disk' = last states"
proof -
  obtain conf where conf: "ln_CurrentConfig L ''Convo'' = Some conf"
    using assms by (auto simp: generateVuvuzelaClient_def split: option.splits)
  let ?c = "(new_client h path)\<lparr>cl_convoConfig := Some conf, cl_convoConfigHash := sc_Hash conf\<rparr>"
  have ok: "ln_Validate L conf" "sc_Inner conf \<noteq> None"
    using assms conf by (auto simp: generateVuvuzelaClient_def Bootstrap_def split: if_splits)
  obtain states r where run: "cl_Persist (ln_codec L) (ln_calls L) disk ?c = (states, r)" by fastforce
  have "disk' = last states \<and> r = Ok () \<and> c = ?c"
    using assms conf ok run by (cases r) (auto simp: generateVuvuzelaClient_def Bootstrap_def)
  with conf ok run show thesis by (intro that) auto
qed

section \<open>Properties\<close>

text \<open>
  C34. The main loop never panics because of a key: in every reachable state each key has at most one
  handler, Alt with the digits 1 to 9 and 0 selects the windows 0 to 9, every handler returns and
  leaves a reachable state, and it ends the main loop only with \<open>ErrQuit\<close>, which \<open>Run\<close> accepts,
  on Ctrl-C or when the user enters \<open>/quit\<close>.
\<close>

theorem keys_never_panic:
  assumes "gui_reachable G" and "surroundings_ok (ki_env I)" and "alpenhorn_ok (ki_alpenhorn I)"
  shows "length (handlers_of k) \<le> 1 \<and>
    (\<forall>i < 10. handlers_of (AltRune (''1234567890'' ! i)) = [FocusIndex i]) \<and>
    (\<forall>a \<in> set (handlers_of k). \<exists>G' e. handle_key I a G = Ok (G', e) \<and> gui_reachable G' \<and> run_end e = Ok () \<and>
       (e \<noteq> None \<longrightarrow> k = CtrlC \<or> k = EnterKey \<and> (\<exists>rest. Fields (tl (TrimNewlines (ki_buffer I))) = ''quit'' # rest)))"
proof (intro conjI ballI)
  show "length (handlers_of k) \<le> 1" by (rule handlers_of_one)
  show "\<forall>i < 10. handlers_of (AltRune (''1234567890'' ! i)) = [FocusIndex i]"
    by (simp add: numeral_eq_Suc All_less_Suc handlers_of_keys)
  fix a assume a: "a \<in> set (handlers_of k)"
  have key: "a = Quit \<Longrightarrow> k = CtrlC" "a = ReadLine \<Longrightarrow> k = EnterKey"
    using a by (cases k; auto simp: handlers_of_keys split: if_splits)+
  obtain G' e where "handle_key I a G = Ok (G', e)" "gui_reachable G'"
    "e = None \<or> e = Some ErrQuit \<and> (a = Quit \<or>
       a = ReadLine \<and> (\<exists>rest. Fields (tl (TrimNewlines (ki_buffer I))) = ''quit'' # rest))"
    using handle_key_Ok [OF assms] by blast
  with key show "\<exists>G' e. handle_key I a G = Ok (G', e) \<and> gui_reachable G' \<and> run_end e = Ok () \<and>
       (e \<noteq> None \<longrightarrow> k = CtrlC \<or> k = EnterKey \<and> (\<exists>rest. Fields (tl (TrimNewlines (ki_buffer I))) = ''quit'' # rest))"
    by (auto simp: run_end_def)
qed

definition toy_keys :: key_input where
  "toy_keys = \<lparr>ki_env = toy_gui_env, ki_alpenhorn = toy_alpenhorn, ki_commands = [], ki_buffer = [], ki_newlines = 0,
     ki_height = 1, ki_oy = 0\<rparr>"

theorem keys_never_panic_witness:
  "\<exists>G' e. handle_key toy_keys (FocusIndex 0) (toy_gui ''me'') = Ok (G', e) \<and> run_end e = Ok ()"
proof -
  have "FocusIndex 0 \<in> set (handlers_of (AltRune CHR ''1''))" by (simp add: handlers_of_keys)
  moreover have "surroundings_ok (ki_env toy_keys)" "alpenhorn_ok (ki_alpenhorn toy_keys)"
    using toy_surroundings by (simp_all add: toy_keys_def)
  ultimately show ?thesis
    using keys_never_panic [OF toy_gui_reachable [of "''me''"], of toy_keys "AltRune CHR ''1''"] by blast
qed


definition toy_signed :: signed_config where
  "toy_signed = \<lparr>sc_Guardians = [], sc_Inner = Some toy_config, sc_Hash = ''h'', sc_Service = ''Convo''\<rparr>"

definition toy_launch :: launch_env where
  "toy_launch =
     \<lparr>ln_LoadAlpenhorn = (\<lambda>_ _. NotExist), ln_CurrentConfig = (\<lambda>_. Some toy_signed), ln_GenerateKey = Some ([], []),
      ln_Bootstrap = (\<lambda>_ _ _. True), ln_Persist = (\<lambda>_. True), ln_Validate = (\<lambda>_. True),
      ln_codec = \<lparr>MarshalState = (\<lambda>_. []), UnmarshalState = (\<lambda>_. Some (Some toy_signed))\<rparr>,
      ln_calls = ok_calls, ln_HomeDir = Some ''/h'', ln_MkdirAll = (\<lambda>_. True)\<rparr>"

lemma toy_state_path: "path_Join [''/c'', ''u'' @ ''-vuvuzela-client-state''] = ''/c/u-vuvuzela-client-state''"
  by code_simp


end
