(* ===== verification/Harness.thy ===== *)
theory Harness
  imports Conversation Convo_Client
begin

text \<open>
  The test harness's own conversation layer (\<open>internal/testharness\<close>: \<open>convostate.go\<close>,
  \<open>convohandler.go\<close>, \<open>rounds.go\<close> and the callbacks of \<open>client.go\<close>), a second implementation of the
  conversation protocol. It claims to derive keys, nonces and dead drops exactly as the client does.
\<close>

section \<open>Conversation state\<close>

record harness_state =
  hs_peer :: string
  hs_my :: string
  hs_sessionKey :: bytes
  hs_sessionKeyRound :: u32

definition newHarnessConvoState :: "bytes \<Rightarrow> u32 \<Rightarrow> string \<Rightarrow> string \<Rightarrow> harness_state" where
  "newHarnessConvoState seedKey seedRound my peer =
     \<lparr>hs_peer = peer, hs_my = my, hs_sessionKey = go_copy (replicate 32 0) seedKey, hs_sessionKeyRound = seedRound\<rparr>"

definition hs_SessionKey :: "harness_state \<Rightarrow> bytes" where
  "hs_SessionKey c = go_copy (replicate 32 0) (hs_sessionKey c)"

definition hs_Round :: "harness_state \<Rightarrow> u32" where
  "hs_Round c = hs_sessionKeyRound c"

text \<open>The loop of \<open>rollKeyTo\<close>, which overwrites the copy of the seed in place.\<close>

function roll_loop :: "convo_crypto \<Rightarrow> u32 \<Rightarrow> u32 \<Rightarrow> bytes \<Rightarrow> bytes" where
  "roll_loop H r target key =
     (if r < target then roll_loop H (r + 1) target (Sum512_256 H (PutUint32 r @ key)) else key)"
  by pat_completeness auto
termination
proof (relation "measure (\<lambda>(H, r, target, key). unat target - unat r)", goal_cases)
  case (2 H r target key)
  then have "unat r < unat target" by (simp add: word_less_nat_alt)
  moreover from this have "unat (r + 1) = unat r + 1"
    using unat32_less [of target] unat_add_exact [of r 1] by simp
  ultimately show ?case by simp
qed simp

declare roll_loop.simps [simp del]

definition rollKeyTo :: "convo_crypto \<Rightarrow> u32 \<Rightarrow> harness_state \<Rightarrow> bytes option" where
  "rollKeyTo H targetRound c =
     (if hs_sessionKeyRound c > targetRound then None
      else Some (roll_loop H (hs_sessionKeyRound c) targetRound (hs_sessionKey c)))"

definition hs_nonce :: "convo_crypto \<Rightarrow> u32 \<Rightarrow> string \<Rightarrow> bytes" where
  "hs_nonce H round name =
     (let nonce = go_copy_at 0 (replicate 24 0) (PutUint32 round) in
      go_copy_at 4 nonce (take 16 (Sum256 H (ascii name))))"

definition hs_Seal :: "convo_crypto \<Rightarrow> bytes \<Rightarrow> u32 \<Rightarrow> harness_state \<Rightarrow> bytes option" where
  "hs_Seal H plaintext round c =
     (case rollKeyTo H round c of
        None \<Rightarrow> None
      | Some k \<Rightarrow> Some (SecretSeal H plaintext (hs_nonce H round (hs_peer c)) k))"

definition hs_Open :: "convo_crypto \<Rightarrow> bytes \<Rightarrow> u32 \<Rightarrow> harness_state \<Rightarrow> bytes option" where
  "hs_Open H ciphertext round c =
     (case rollKeyTo H round c of
        None \<Rightarrow> None
      | Some k \<Rightarrow> SecretOpen H ciphertext (hs_nonce H round (hs_my c)) k)"

definition hs_DeadDrop :: "convo_crypto \<Rightarrow> u32 \<Rightarrow> harness_state \<Rightarrow> bytes option" where
  "hs_DeadDrop H round c =
     (case rollKeyTo H round c of
        None \<Rightarrow> None
      | Some k \<Rightarrow> Some (go_copy (replicate 16 0) (HmacSha256 H k (ascii ''DeadDrop'' @ PutUint32 round))))"

section \<open>The handler\<close>

record incoming_message =
  im_FromPeer :: string
  im_Body :: bytes
  im_Round :: u32

text \<open>The channel for errors takes those of both protocols.\<close>

datatype handler_err = ConvoError client_err | FriendsError string | UnexpectedKey

text \<open>
  What the handlers keep of a \<open>TestClient\<close>; every channel holds 16 values. A friend request is named by the
  user it comes from or goes to.
\<close>

record test_client =
  tc_Username :: string
  tc_ConvoState :: "harness_state option"
  tc_outQueue :: "bytes list"
  tc_recv :: "incoming_message list"
  tc_err :: "handler_err list"
  tc_friendReq :: "string list"
  tc_sentReq :: "string list"
  tc_confirmed :: "string list"

definition chan_cap :: nat where
  "chan_cap = 16"

text \<open>A send that gives up when the channel is full.\<close>

definition try_send :: "'a \<Rightarrow> 'a list \<Rightarrow> 'a list" where
  "try_send v ch = (if length ch < chan_cap then ch @ [v] else ch)"

text \<open>\<open>cover\<close> is the random message of \<open>coverDeadDrop\<close> in a round.\<close>

definition th_Outgoing ::
  "convo_crypto \<Rightarrow> (u32 \<Rightarrow> dead_drop_message) \<Rightarrow> u32 \<Rightarrow> test_client \<Rightarrow>
   (unit, test_client \<times> dead_drop_message list) outcome" where
  "th_Outgoing H cover round t =
     (case tc_ConvoState t of
        None \<Rightarrow> Ok (t, [cover round])
      | Some st \<Rightarrow>
          (let body = (case tc_outQueue t of [] \<Rightarrow> replicate SizeMessageBody 0 | b # _ \<Rightarrow> b);
               t1 = t\<lparr>tc_outQueue := tl (tc_outQueue t)\<rparr>;
               padded = go_copy (replicate SizeMessageBody 0) body in
           case hs_Seal H padded round st of
             None \<Rightarrow> Ok (t1, [cover round])
           | Some ctxt \<Rightarrow>
               (case hs_DeadDrop H round st of
                  None \<Rightarrow> Ok (t1, [cover round])
                | Some dd \<Rightarrow>
                    Ok (t1, [\<lparr>DeadDrop = dd, EncryptedMessage = go_copy (replicate SizeEncryptedMessageBody 0) ctxt\<rparr>]))))"

text \<open>The first candidate that opens is delivered, cut at its first zero byte.\<close>

fun first_open :: "convo_crypto \<Rightarrow> u32 \<Rightarrow> harness_state \<Rightarrow> bytes option list \<Rightarrow> bytes option" where
  "first_open H round st [] = None"
| "first_open H round st (ct # cts) =
     (case hs_Open H (case ct of None \<Rightarrow> [] | Some b \<Rightarrow> b) round st of
        None \<Rightarrow> first_open H round st cts
      | Some pt \<Rightarrow> Some (takeWhile (\<lambda>b. b \<noteq> 0) pt))"

definition th_Replies ::
  "convo_crypto \<Rightarrow> u32 \<Rightarrow> bytes option list \<Rightarrow> test_client \<Rightarrow> (unit, test_client) outcome" where
  "th_Replies H round messages t =
     (case tc_ConvoState t of
        None \<Rightarrow> Ok t
      | Some st \<Rightarrow>
          (case first_open H round st messages of
             None \<Rightarrow> Ok t
           | Some trimmed \<Rightarrow>
               Ok (t\<lparr>tc_recv := try_send \<lparr>im_FromPeer = hs_peer st, im_Body = trimmed, im_Round = round\<rparr> (tc_recv t)\<rparr>)))"

definition th_Error :: "client_err \<Rightarrow> test_client \<Rightarrow> test_client" where
  "th_Error err t = t\<lparr>tc_err := try_send (ConvoError err) (tc_err t)\<rparr>"

definition th_handler :: "convo_crypto \<Rightarrow> (u32 \<Rightarrow> dead_drop_message) \<Rightarrow> test_client convo_handler" where
  "th_handler H cover =
     \<lparr>hd_Outgoing = th_Outgoing H cover, hd_Replies = th_Replies H, hd_NewConfig = (\<lambda>_ t. Ok t), hd_Error = th_Error,
      hd_DebugError = (\<lambda>_ t. t), hd_GlobalAnnouncement = (\<lambda>_ t. t)\<rparr>"

text \<open>The callbacks of the friends protocol; the calls are below.\<close>

definition ev_Error :: "string \<Rightarrow> test_client \<Rightarrow> test_client" where
  "ev_Error err t = t\<lparr>tc_err := try_send (FriendsError err) (tc_err t)\<rparr>"

definition ev_ConfirmedFriend :: "string \<Rightarrow> test_client \<Rightarrow> test_client" where
  "ev_ConfirmedFriend f t = t\<lparr>tc_confirmed := try_send f (tc_confirmed t)\<rparr>"

definition ev_SentFriendRequest :: "string \<Rightarrow> test_client \<Rightarrow> test_client" where
  "ev_SentFriendRequest r t = t\<lparr>tc_sentReq := try_send r (tc_sentReq t)\<rparr>"

definition ev_ReceivedFriendRequest :: "string \<Rightarrow> test_client \<Rightarrow> test_client" where
  "ev_ReceivedFriendRequest r t = t\<lparr>tc_friendReq := try_send r (tc_friendReq t)\<rparr>"

definition ev_UnexpectedSigningKey :: "test_client \<Rightarrow> test_client" where
  "ev_UnexpectedSigningKey t = t\<lparr>tc_err := try_send UnexpectedKey (tc_err t)\<rparr>"

text \<open>A receive from \<open>IncomingFriendRequestCh\<close>, \<open>None\<close> while the channel is empty.\<close>

definition recv_friendReq :: "test_client \<Rightarrow> (string \<times> test_client) option" where
  "recv_friendReq t =
     (case tc_friendReq t of [] \<Rightarrow> None | r # rs \<Rightarrow> Some (r, t\<lparr>tc_friendReq := rs\<rparr>))"

text \<open>\<open>friends\<close> is what \<open>GetFriends\<close> returns.\<close>

definition HasFriend :: "string list \<Rightarrow> string \<Rightarrow> bool" where
  "HasFriend friends peer \<longleftrightarrow> peer \<in> set friends"

text \<open>It drives no round; an unknown service is an error.\<close>

definition AdvanceRound :: "string \<Rightarrow> (string, unit) outcome" where
  "AdvanceRound service =
     (if service = ''AddFriend'' \<or> service = ''Dialing'' \<or> service = ''Convo'' then Ok () else Err service)"

text \<open>\<open>utf8.Valid\<close>.\<close>

definition cont :: "byte \<Rightarrow> bool" where
  "cont b \<longleftrightarrow> 0x80 \<le> b \<and> b \<le> 0xBF"

fun utf8_valid :: "bytes \<Rightarrow> bool" where
  "utf8_valid [] \<longleftrightarrow> True"
| "utf8_valid (a # bs) \<longleftrightarrow>
     (if a < 0x80 then utf8_valid bs
      else case bs of
        [] \<Rightarrow> False
      | b # cs \<Rightarrow>
          if 0xC2 \<le> a \<and> a \<le> 0xDF then cont b \<and> utf8_valid cs
          else case cs of
            [] \<Rightarrow> False
          | c # ds \<Rightarrow>
              if 0xE0 \<le> a \<and> a \<le> 0xEF then
                cont b \<and> (a = 0xE0 \<longrightarrow> 0xA0 \<le> b) \<and> (a = 0xED \<longrightarrow> b \<le> 0x9F) \<and> cont c \<and> utf8_valid ds
              else case ds of
                [] \<Rightarrow> False
              | d # es \<Rightarrow>
                  0xF0 \<le> a \<and> a \<le> 0xF4 \<and> cont b \<and> (a = 0xF0 \<longrightarrow> 0x90 \<le> b) \<and> (a = 0xF4 \<longrightarrow> b \<le> 0x8F) \<and>
                  cont c \<and> cont d \<and> utf8_valid es)"

datatype send_err = EmptyMessage | InvalidUTF8 | MessageTooLarge | NoConvoState

definition SendMessage :: "bytes \<Rightarrow> test_client \<Rightarrow> test_client \<times> (send_err, unit) outcome" where
  "SendMessage body t =
     (if body = [] then (t, Err EmptyMessage)
      else if \<not> utf8_valid body then (t, Err InvalidUTF8)
      else if length body > SizeMessageBody then (t, Err MessageTooLarge)
      else if tc_ConvoState t = None then (t, Err NoConvoState)
      else (t\<lparr>tc_outQueue := tc_outQueue t @ [body]\<rparr>, Ok ()))"

text \<open>Both callbacks of a call; the key is nil or the round zero while the call is not complete.\<close>

definition bootstrap_call :: "bytes option \<Rightarrow> u32 \<Rightarrow> string \<Rightarrow> test_client \<Rightarrow> test_client" where
  "bootstrap_call seedKey seedRound peer t =
     (case seedKey of
        None \<Rightarrow> t
      | Some key \<Rightarrow>
          if seedRound = 0 then t
          else t\<lparr>tc_ConvoState := Some (newHarnessConvoState key seedRound (tc_Username t) peer)\<rparr>)"

section \<open>Waiting for a round\<close>

text \<open>
  One poll: what \<open>LatestRound\<close> answers, \<open>None\<close> for an error, and whether the deadline has passed
  afterwards. The loop goes on after the polls given if the result is \<open>None\<close>.
\<close>

fun wait_loop :: "u32 \<Rightarrow> u32 \<Rightarrow> (u32 option \<times> bool) list \<Rightarrow> (u32 + u32) option" where
  "wait_loop target latest [] = None"
| "wait_loop target latest ((got, late) # polls) =
     (let last' = (case got of None \<Rightarrow> latest | Some r \<Rightarrow> r) in
      if (case got of None \<Rightarrow> False | Some r \<Rightarrow> r \<ge> target) then Some (Inr last')
      else if late then Some (Inl last')
      else wait_loop target last' polls)"

definition WaitForConvoRound :: "u32 \<Rightarrow> (u32 option \<times> bool) list \<Rightarrow> (u32 + u32) option" where
  "WaitForConvoRound target polls = wait_loop target 0 polls"

section \<open>Lemmas\<close>

lemma roll_loop_fold: "roll_loop H r target key = fold (roll_step H) [unat r..<unat target] key"
proof (induction H r target key rule: roll_loop.induct)
  case (1 H r target key)
  show ?case
  proof (cases "r < target")
    case True
    then have less: "unat r < unat target" by (simp add: word_less_nat_alt)
    then have "unat (r + 1) = Suc (unat r)" using unat32_less [of target] unat_add_exact [of r 1] by simp
    moreover have "[unat r..<unat target] = unat r # [Suc (unat r)..<unat target]" using less by (simp add: upt_conv_Cons)
    ultimately show ?thesis
      using 1 True by (simp add: roll_loop.simps [of H r] roll_step_def)
  next
    case False
    then show ?thesis by (simp add: roll_loop.simps [of H r] word_less_nat_alt)
  qed
qed

lemma rollKeyTo_rollKey: "Ok (rollKeyTo H r c) = rollKey H (Some (hs_sessionKey c)) (hs_sessionKeyRound c) r"
  by (simp add: rollKeyTo_def rollKey_def roll_loop_fold)

lemma hs_nonce_name_nonce: "hs_nonce = name_nonce"
  by (simp add: hs_nonce_def name_nonce_def fun_eq_iff)

section \<open>The harness behind ConvoHandler\<close>

text \<open>No channel ever holds more than its capacity.\<close>

definition channels_ok :: "test_client \<Rightarrow> bool" where
  "channels_ok t \<longleftrightarrow> length (tc_recv t) \<le> chan_cap \<and> length (tc_err t) \<le> chan_cap \<and> length (tc_friendReq t) \<le> chan_cap \<and>
     length (tc_sentReq t) \<le> chan_cap \<and> length (tc_confirmed t) \<le> chan_cap"

lemma length_try_send: "length ch \<le> chan_cap \<Longrightarrow> length (try_send v ch) \<le> chan_cap"
  by (simp add: try_send_def)

lemma ev_channels_ok:
  assumes "channels_ok t"
  shows "channels_ok (ev_Error e t)" "channels_ok (ev_ConfirmedFriend u t)" "channels_ok (ev_SentFriendRequest u t)"
    "channels_ok (ev_ReceivedFriendRequest u t)" "channels_ok (ev_UnexpectedSigningKey t)" "channels_ok (bootstrap_call k r u t)"
    "channels_ok (fst (SendMessage body t))" "recv_friendReq t = Some (u', t') \<Longrightarrow> channels_ok t'"
  using assms
  by (auto simp: channels_ok_def ev_Error_def ev_ConfirmedFriend_def ev_SentFriendRequest_def ev_ReceivedFriendRequest_def
      ev_UnexpectedSigningKey_def bootstrap_call_def SendMessage_def recv_friendReq_def length_try_send
      split: option.splits list.splits)

interpretation harness_end: convo_endpoint "th_handler H cover" channels_ok 1
  for H cover
  by unfold_locales
    (auto simp: channels_ok_def th_handler_def th_Outgoing_def th_Replies_def th_Error_def length_try_send Let_def split: option.splits)

section \<open>Properties\<close>

text \<open>
  C36. The harness is wire compatible with the client, as its comments promise: for the same names, key
  and starting round, \<open>rollKeyTo\<close>, \<open>Seal\<close>, \<open>Open\<close> and \<open>DeadDrop\<close> compute what the client's \<open>rollKey\<close>,
  \<open>Seal\<close>, \<open>Open\<close> and \<open>deadDrop\<close> compute, in every round, past rounds included.
\<close>

theorem harness_matches_client:
  assumes "sessionKey c = Some (hs_sessionKey st)" and "sessionKeyRound c = hs_sessionKeyRound st"
    and "peerUsername c = hs_peer st" and "myUsername c = hs_my st"
  shows "rollKey H (sessionKey c) (sessionKeyRound c) r = Ok (rollKeyTo H r st) \<and>
    hs_Seal H msg r st = map_option (cv_Seal H c msg r) (rollKeyTo H r st) \<and>
    hs_Open H msg r st = Option.bind (rollKeyTo H r st) (cv_Open H c msg r) \<and>
    hs_DeadDrop H r st = map_option (deadDrop H r) (rollKeyTo H r st)"
  using assms rollKeyTo_rollKey [of H r st]
  by (auto simp: hs_Seal_def hs_Open_def hs_DeadDrop_def cv_Seal_def cv_Open_def deadDrop_def hs_nonce_name_nonce
      split: option.splits)

lemma harness_seals:
  assumes "secretbox_ok H" and "tc_ConvoState t = Some st" and "rollKeyTo H r st = Some k"
  shows "th_Outgoing H cover r t = Ok (t\<lparr>tc_outQueue := tl (tc_outQueue t)\<rparr>,
    [\<lparr>DeadDrop = deadDrop H r k,
      EncryptedMessage = SecretSeal H (go_copy (replicate SizeMessageBody 0)
        (case tc_outQueue t of [] \<Rightarrow> replicate SizeMessageBody 0 | b # _ \<Rightarrow> b)) (name_nonce H r (hs_peer st)) k\<rparr>])"
  using assms
  by (auto simp: th_Outgoing_def Let_def hs_Seal_def hs_DeadDrop_def deadDrop_def hs_nonce_name_nonce secretbox_ok_def
      go_copy_def convo_sizes)

lemma takeWhile_padded:
  "length b \<le> n \<Longrightarrow> 0 \<notin> set b \<Longrightarrow> takeWhile (\<lambda>x. x \<noteq> 0) (go_copy (replicate n 0) b) = (b :: bytes)"
proof -
  assume b: "length b \<le> n" "0 \<notin> set b"
  have "takeWhile (\<lambda>x. x \<noteq> 0) (replicate m (0 :: byte)) = []" for m by (cases m) simp_all
  moreover have "takeWhile (\<lambda>x. x \<noteq> 0) (b @ t) = b @ takeWhile (\<lambda>x. x \<noteq> 0) t" for t
    using b(2) by (intro takeWhile_append2) auto
  ultimately show ?thesis using b(1) by (simp add: go_copy_def)
qed

text \<open>
  Two harness clients that share a seed talk: in the same round both write to the same dead drop,
  and the one that is given the other's message receives its body, if that has no zero byte, with
  the sender's name and the round.
\<close>

theorem harness_delivery:
  assumes "secretbox_ok H" and "tc_ConvoState a = Some sa" and "tc_ConvoState b = Some sb"
    and "hs_sessionKey sa = hs_sessionKey sb" and "hs_sessionKeyRound sa = hs_sessionKeyRound sb"
    and "hs_peer sa = hs_my sb" and "hs_peer sb = hs_my sa" and "hs_sessionKeyRound sa \<le> r"
    and "tc_outQueue a = body # rest" and "length body \<le> SizeMessageBody" and "0 \<notin> set body" and "length (tc_recv b) < chan_cap"
  shows "\<exists>a' ma b' mb b''. th_Outgoing H ca r a = Ok (a', [ma]) \<and> th_Outgoing H cb r b = Ok (b', [mb]) \<and>
    DeadDrop ma = DeadDrop mb \<and> tc_outQueue a' = rest \<and>
    th_Replies H r [Some (EncryptedMessage ma)] b' = Ok b'' \<and>
    tc_recv b'' = tc_recv b @ [\<lparr>im_FromPeer = hs_my sa, im_Body = body, im_Round = r\<rparr>]"
proof -
  obtain k where k: "rollKeyTo H r sa = Some k" "rollKeyTo H r sb = Some k"
    using assms(4,5,8) by (simp add: rollKeyTo_def leD)
  have "hs_Open H (SecretSeal H (go_copy (replicate SizeMessageBody 0) body) (name_nonce H r (hs_peer sa)) k) r sb =
      Some (go_copy (replicate SizeMessageBody 0) body)"
    using assms(1,6) k(2) by (simp add: hs_Open_def hs_nonce_name_nonce secretbox_ok_def)
  then show ?thesis
    using harness_seals [OF assms(1,2) k(1), of ca] harness_seals [OF assms(1,3) k(2), of cb] assms(3,7,9-12)
    by (simp add: th_Replies_def takeWhile_padded try_send_def)
qed



definition toy_seed :: "string \<Rightarrow> string \<Rightarrow> harness_state" where
  "toy_seed my peer = newHarnessConvoState (replicate 32 1) 5 my peer"

definition toy_test_client :: "string \<Rightarrow> string \<Rightarrow> bytes list \<Rightarrow> test_client" where
  "toy_test_client my peer queue =
     \<lparr>tc_Username = my, tc_ConvoState = Some (toy_seed my peer), tc_outQueue = queue, tc_recv = [], tc_err = [],
      tc_friendReq = [], tc_sentReq = [], tc_confirmed = []\<rparr>"

theorem harness_matches_client_witness:
  "hs_DeadDrop toy_crypto 7 (toy_seed ''alice'' ''bob'') =
     map_option (deadDrop toy_crypto 7) (rollKeyTo toy_crypto 7 (toy_seed ''alice'' ''bob''))"
  using harness_matches_client [of "(toy_convo ''alice'' ''bob'')\<lparr>sessionKey := Some (hs_sessionKey (toy_seed ''alice'' ''bob'')),
      sessionKeyRound := 5, peerUsername := ''bob'', myUsername := ''alice''\<rparr>" "toy_seed ''alice'' ''bob''" toy_crypto 7 "[]"]
  by (simp add: toy_seed_def newHarnessConvoState_def)

theorem harness_delivery_witness:
  "\<exists>a' ma b'. th_Outgoing toy_crypto (\<lambda>_. \<lparr>DeadDrop = [], EncryptedMessage = []\<rparr>) 7 (toy_test_client ''alice'' ''bob'' [ascii ''hi'']) =
       Ok (a', [ma]) \<and>
     th_Replies toy_crypto 7 [Some (EncryptedMessage ma)] (toy_test_client ''bob'' ''alice'' []) = Ok b' \<and>
     tc_recv b' = [\<lparr>im_FromPeer = ''alice'', im_Body = ascii ''hi'', im_Round = 7\<rparr>]"
proof -
  let ?a = "toy_test_client ''alice'' ''bob'' [ascii ''hi'']" and ?b = "toy_test_client ''bob'' ''alice'' []"
  let ?c = "\<lambda>_. \<lparr>DeadDrop = [], EncryptedMessage = []\<rparr>"
  have "tc_ConvoState ?a = Some (toy_seed ''alice'' ''bob'')" "tc_ConvoState ?b = Some (toy_seed ''bob'' ''alice'')"
    by (simp_all add: toy_test_client_def)
  from harness_delivery [OF toy_crypto_ok this, of 7 "ascii ''hi''" "[]" ?c ?c]
  have "\<exists>a' ma b' mb b''. th_Outgoing toy_crypto ?c 7 ?a = Ok (a', [ma]) \<and> th_Outgoing toy_crypto ?c 7 ?b = Ok (b', [mb]) \<and>
      th_Replies toy_crypto 7 [Some (EncryptedMessage ma)] b' = Ok b'' \<and>
      tc_recv b'' = [\<lparr>im_FromPeer = ''alice'', im_Body = ascii ''hi'', im_Round = 7\<rparr>]"
    by (auto simp: toy_seed_def newHarnessConvoState_def toy_test_client_def SizeMessageBody_def chan_cap_def ascii_def)
  moreover have "b' = ?b" if "th_Outgoing toy_crypto ?c 7 ?b = Ok (b', [mb])" for b' mb
    using that by (auto simp: th_Outgoing_def toy_test_client_def Let_def split: option.splits)
  ultimately show ?thesis by blast
qed


end
