(* ===== verification/Harness_Setup.thy ===== *)
theory Harness_Setup
  imports Harness Programs
begin

text \<open>
  How the test harness brings its servers up and down (\<open>internal/testharness\<close>: \<open>harness.go\<close>,
  \<open>neverlur.go\<close>, \<open>gjallarhorn.go\<close>, \<open>handles.go\<close>) and the mock chain of mix servers
  (\<open>internal/mock/mix.go\<close>). The set-up is a sequence of stages, each of which may fail; what runs is
  a list of resources, and a clean-up is the resources it releases. The services of the other
  module (key generator, CDN, the two coordinators of the friends protocol) and the configuration
  server are calls that succeed or fail.
\<close>

section \<open>Stages\<close>

text \<open>Whatever has to be given back: listeners and the servers behind them, round loops, directories.\<close>

datatype resource = RListener string | RMixer nat | RCDN | RMixchain | RPKG | RCoordinator string | RTempDir nat

text \<open>An error carries the names of the stages it was wrapped with, the outermost first.\<close>

type_synonym harness_err = "string list"

fun run_stages :: "('s \<Rightarrow> 's \<times> ('e, unit) outcome) list \<Rightarrow> 's \<Rightarrow> 's \<times> ('e, unit) outcome" where
  "run_stages [] s = (s, Ok ())"
| "run_stages (f # fs) s = wbind (f s) (\<lambda>_. run_stages fs)"

definition wrap_stage :: "string \<Rightarrow> 's \<times> (harness_err, 'a) outcome \<Rightarrow> 's \<times> (harness_err, 'a) outcome" where
  "wrap_stage stage = apsnd (map_err (Cons stage))"

section \<open>Signed configurations\<close>

record hybrid_identity =
  EdPub :: bytes
  EdPriv :: bytes
  PQPub :: bytes
  PQPriv :: bytes

record guardian =
  gd_Username :: string
  gd_Key :: bytes
  gd_PQKey :: bytes

record addfriend_config =
  af_Version :: int
  af_Coordinator :: coordinator_config
  af_PKGServers :: "public_server_config list"
  af_MixServers :: "public_server_config list"
  af_CDNServer :: coordinator_config
  af_Registrar :: coordinator_config

record dialing_config =
  dl_Version :: int
  dl_Coordinator :: coordinator_config
  dl_MixServers :: "public_server_config list"
  dl_CDNServer :: coordinator_config

datatype inner_config = AddFriendInner addfriend_config | DialingInner dialing_config | ConvoInner ConvoConfig

record service_config =
  sg_Version :: int
  sg_MinClientVersion :: int
  sg_Created :: int
  sg_Expires :: int
  sg_Service :: string
  sg_Inner :: inner_config
  sg_Guardians :: "guardian list"
  sg_Signatures :: "string \<rightharpoonup> bytes"

text \<open>
  The signature schemes and encodings of the other module: a hybrid signature is an Ed25519 and a
  post-quantum half of fixed sizes.
\<close>

record hybrid_crypto =
  hc_Sign :: "bytes \<Rightarrow> bytes \<Rightarrow> bytes"
  hc_PQSign :: "bytes \<Rightarrow> bytes \<Rightarrow> bytes option"
  hc_PackPublicKey :: "bytes \<Rightarrow> bytes"
  hc_base32 :: "bytes \<Rightarrow> string"
  hc_SigningMessage :: "service_config \<Rightarrow> bytes"
  hc_EdSize :: nat
  hc_PQSize :: nat
  hc_HybridBytes :: "bytes \<Rightarrow> bytes \<Rightarrow> bytes"

definition signConfigInPlace ::
  "hybrid_crypto \<Rightarrow> hybrid_identity \<Rightarrow> service_config \<Rightarrow> (harness_err, service_config) outcome" where
  "signConfigInPlace Y who conf =
     (let g = \<lparr>gd_Username = ''harness-guardian'', gd_Key = EdPub who, gd_PQKey = hc_PackPublicKey Y (PQPub who)\<rparr>;
          conf = conf\<lparr>sg_Guardians := [g], sg_Signatures := Map.empty\<rparr>;
          msg = hc_SigningMessage Y conf;
          sigEd = hc_Sign Y (EdPriv who) msg in
      case hc_PQSign Y (PQPriv who) msg of
        None \<Rightarrow> Err [''signConfigInPlace pqsig.Sign'']
      | Some sigPQ \<Rightarrow>
          (let hs = hc_HybridBytes Y (go_copy (replicate (hc_EdSize Y) 0) sigEd) (go_copy (replicate (hc_PQSize Y) 0) sigPQ) in
           Ok (conf\<lparr>sg_Signatures := (sg_Signatures conf)(hc_base32 Y (gd_Key g) \<mapsto> hs)\<rparr>)))"

section \<open>State\<close>

text \<open>What a \<open>testing.TB\<close> is told to do in the end; the last one first.\<close>

datatype tb_cleanup = RemoveDir nat | CloseHarness

text \<open>
  \<open>hn_live\<close> are the resources of the process, in the order they came up, and \<open>hn_closings\<close> the
  clean-ups that were run. \<open>hn_configs\<close> holds the three configurations the harness remembers,
  \<open>hn_published\<close> what its configuration server answers with. The conversation coordinator is the
  modelled one; of those of the friends protocol only that they run is known.
\<close>

record 'd harness =
  hn_live :: "resource list"
  hn_closings :: "resource list list"
  hn_cleanups :: "resource list list"
  hn_closed :: bool
  hn_tb :: "tb_cleanup list"
  hn_dirs :: nat
  hn_fs :: fs
  hn_cfgServer :: bool
  hn_cfgClient :: bool
  hn_published :: "string \<rightharpoonup> service_config"
  hn_configs :: "string \<rightharpoonup> service_config"
  hn_addFriend :: bool
  hn_coordinator :: "'d coordinator option"
  hn_mixers :: "'d server list"
  hn_servers :: "public_server_config list"

record harness_options =
  ho_listenAddr :: string
  ho_neverlurMixers :: int
  ho_gjallarhornMixers :: int

definition defaultOptions :: harness_options where
  "defaultOptions = \<lparr>ho_listenAddr = [], ho_neverlurMixers = 3, ho_gjallarhornMixers = 3\<rparr>"

definition OptionListenAddr :: "string \<Rightarrow> harness_options \<Rightarrow> harness_options" where
  "OptionListenAddr path ho = ho\<lparr>ho_listenAddr := path\<rparr>"

definition OptionMixerCount :: "int \<Rightarrow> int \<Rightarrow> harness_options \<Rightarrow> harness_options" where
  "OptionMixerCount neverlur gjallarhorn ho =
     ho\<lparr>ho_neverlurMixers := neverlur, ho_gjallarhornMixers := gjallarhorn\<rparr>"

text \<open>
  How the calls of a set-up turn out, by the name of their stage and, in a loop, the turn; the keys and
  addresses they return; the clock; and the surroundings of the modelled components.
\<close>

record bring_env =
  be_ok :: "string \<Rightarrow> nat \<Rightarrow> bool"
  be_identity :: hybrid_identity
  be_crypto :: hybrid_crypto
  be_key :: "string \<Rightarrow> nat \<Rightarrow> bytes \<times> bytes"
  be_addr :: "string \<Rightarrow> nat \<Rightarrow> string"
  be_Public :: "bytes \<Rightarrow> bytes"
  be_now :: "string \<Rightarrow> nat \<Rightarrow> int"
  be_SignedConfigVersion :: int
  be_InnerVersion :: "string \<Rightarrow> int"
  be_mixchain :: "int \<Rightarrow> public_server_config list"
  be_pkg :: public_server_config
  be_cdn :: coordinator_config
  be_calls :: os_calls
  be_noise :: "nat \<Rightarrow> convo_env"
  be_tmpDir :: string
  be_clientDir :: "nat \<Rightarrow> string"

type_synonym 'd stage = "'d harness \<Rightarrow> 'd harness \<times> (harness_err, unit) outcome"

definition attempt_at :: "bring_env \<Rightarrow> string \<Rightarrow> nat \<Rightarrow> 'd stage" where
  "attempt_at B name i h = (h, if be_ok B name i then Ok () else Err [name])"

abbreviation attempt_call :: "bring_env \<Rightarrow> string \<Rightarrow> 'd stage" where
  "attempt_call B name \<equiv> attempt_at B name 0"

definition effect :: "('d harness \<Rightarrow> 'd harness) \<Rightarrow> 'd stage" where
  "effect f h = (f h, Ok ())"

definition came_up :: "resource \<Rightarrow> 'd harness \<Rightarrow> 'd harness" where
  "came_up r h = h\<lparr>hn_live := hn_live h @ [r]\<rparr>"

text \<open>\<open>h.cleanups = append(h.cleanups, ...)\<close>.\<close>

definition on_close :: "resource list \<Rightarrow> 'd harness \<Rightarrow> 'd harness" where
  "on_close rs h = h\<lparr>hn_cleanups := hn_cleanups h @ [rs]\<rparr>"

section \<open>The friends protocol\<close>

definition harness_signed_config :: "bring_env \<Rightarrow> string \<Rightarrow> inner_config \<Rightarrow> service_config" where
  "harness_signed_config B service inner =
     \<lparr>sg_Version = be_SignedConfigVersion B, sg_MinClientVersion = be_SignedConfigVersion B,
      sg_Created = be_now B service 0, sg_Expires = be_now B service 1 + 3600000000000,
      sg_Service = service, sg_Inner = inner, sg_Guardians = [], sg_Signatures = Map.empty\<rparr>"

text \<open>Sign a configuration, publish it, and remember it.\<close>

definition sign_and_publish :: "bring_env \<Rightarrow> string \<Rightarrow> string \<Rightarrow> service_config \<Rightarrow> 'd stage" where
  "sign_and_publish B sign_stage set_stage conf h =
     wbind (wrap_stage sign_stage (h, signConfigInPlace (be_crypto B) (be_identity B) conf)) (\<lambda>c h.
       if \<not> hn_cfgServer h then (h, Err [set_stage, ''internal error: Gjallarhorn side initialized before Neverlur side''])
       else wbind (attempt_call B set_stage h) (\<lambda>_ h.
         (h\<lparr>hn_published := (hn_published h)(sg_Service c \<mapsto> c), hn_configs := (hn_configs h)(sg_Service c \<mapsto> c)\<rparr>, Ok ())))"

definition neverlur_coordinator :: "bring_env \<Rightarrow> coordinator_config" where
  "neverlur_coordinator B =
     \<lparr>cc_Key = fst (be_key B ''coordinator key'' 0), cc_Address = be_addr B ''coordinator edtls.Listen'' 0\<rparr>"

definition addFriendConf :: "bring_env \<Rightarrow> harness_options \<Rightarrow> service_config" where
  "addFriendConf B ho = harness_signed_config B ''AddFriend'' (AddFriendInner
     \<lparr>af_Version = be_InnerVersion B ''AddFriend'', af_Coordinator = neverlur_coordinator B, af_PKGServers = [be_pkg B], af_MixServers = be_mixchain B (ho_neverlurMixers ho),
      af_CDNServer = be_cdn B, af_Registrar = neverlur_coordinator B\<rparr>)"

definition dialingConf :: "bring_env \<Rightarrow> harness_options \<Rightarrow> service_config" where
  "dialingConf B ho = harness_signed_config B ''Dialing'' (DialingInner
     \<lparr>dl_Version = be_InnerVersion B ''Dialing'', dl_Coordinator = neverlur_coordinator B, dl_MixServers = be_mixchain B (ho_neverlurMixers ho), dl_CDNServer = be_cdn B\<rparr>)"

definition config_server_stages :: "bring_env \<Rightarrow> 'd stage list" where
  "config_server_stages B =
     [attempt_call B ''config.CreateServer'',
      attempt_call B ''config-server net.Listen'',
      effect (came_up (RListener ''config'')),
      effect (on_close [RListener ''config'']),
      effect (\<lambda>h. h\<lparr>hn_cfgServer := True\<rparr>)]"

definition neverlur_service_stages :: "bring_env \<Rightarrow> harness_options \<Rightarrow> 'd stage list" where
  "neverlur_service_stages B ho =
     [attempt_call B ''coordinator key'',
      attempt_call B ''coordinator edtls.Listen'',
      effect (came_up (RListener ''coordinator'')),
      effect (came_up RCDN),
      effect (on_close [RCDN]),
      effect (came_up RMixchain),
      effect (on_close [RMixchain]),
      attempt_call B ''mock.LaunchPKG'',
      effect (came_up RPKG),
      effect (on_close [RPKG]),
      sign_and_publish B ''sign AddFriend config'' ''set AddFriend config'' (addFriendConf B ho),
      sign_and_publish B ''sign Dialing config'' ''set Dialing config'' (dialingConf B ho)]"

definition neverlur_coordinator_stages :: "bring_env \<Rightarrow> 'd stage list" where
  "neverlur_coordinator_stages B =
     [attempt_call B ''addFriend Persist'',
      attempt_call B ''addFriend LoadPersistedState'',
      attempt_call B ''addFriend Run'',
      effect (came_up (RCoordinator ''AddFriend'')),
      effect (\<lambda>h. h\<lparr>hn_addFriend := True\<rparr>),
      attempt_call B ''dialing Persist'',
      attempt_call B ''dialing LoadPersistedState'',
      attempt_call B ''dialing Run'',
      effect (came_up (RCoordinator ''Dialing'')),
      effect (on_close [RCoordinator ''Dialing'']),
      effect (on_close [RCoordinator ''AddFriend'']),
      effect (on_close [RListener ''coordinator'']),
      effect (\<lambda>h. h\<lparr>hn_cfgClient := True\<rparr>)]"

definition startNeverlurSide :: "bring_env \<Rightarrow> harness_options \<Rightarrow> 'd stage" where
  "startNeverlurSide B ho =
     run_stages (config_server_stages B @ neverlur_service_stages B ho @ neverlur_coordinator_stages B)"

lemmas neverlur_stages = config_server_stages_def neverlur_service_stages_def neverlur_coordinator_stages_def

section \<open>The conversation protocol\<close>

text \<open>A chain of mix servers: keys and listeners first, then the servers, from the last to the first.\<close>

definition chain_mixer :: "bring_env \<Rightarrow> bytes \<Rightarrow> nat \<Rightarrow> 'd server" where
  "chain_mixer B coordinatorKey i =
     \<lparr>SigningKey = snd (be_key B ''gjallarhorn mixer keygen'' i), CoordinatorKey = coordinatorKey,
      Services = [''Convo'' \<mapsto> ConvoService (be_noise B i)], rounds = Map.empty\<rparr>"

definition public_config :: "bring_env \<Rightarrow> nat \<Rightarrow> 'd server \<Rightarrow> public_server_config" where
  "public_config B i mixer =
     \<lparr>Key = be_Public B (SigningKey mixer), Address = be_addr B ''gjallarhorn mixer net.Listen'' i\<rparr>"

definition mixer_stages :: "bring_env \<Rightarrow> nat \<Rightarrow> 'd stage list" where
  "mixer_stages B i =
     [attempt_at B ''gjallarhorn mixer keygen'' i,
      attempt_at B ''gjallarhorn mixer net.Listen'' i,
      effect (came_up (RMixer i))]"

definition launchConvoMixchain :: "bring_env \<Rightarrow> int \<Rightarrow> bytes \<Rightarrow> 'd stage" where
  "launchConvoMixchain B len coordinatorKey h =
     (if len < 0 then (h, Panic SliceOutOfRange)
      else
        wbind (run_stages (concat (map (mixer_stages B) [0..<nat len])) h) (\<lambda>_ h.
          let mixServers = map (chain_mixer B coordinatorKey) [0..<nat len] in
          (h\<lparr>hn_mixers := mixServers, hn_servers := map (\<lambda>(i, m). public_config B i m) (enumerate 0 mixServers)\<rparr>, Ok ())))"

text \<open>\<open>Close\<close> of a chain: every closer is run, the first error is returned.\<close>

fun mixchain_Close :: "('s \<Rightarrow> 's \<times> 'e option) list \<Rightarrow> 's \<Rightarrow> 's \<times> 'e option" where
  "mixchain_Close [] s = (s, None)"
| "mixchain_Close (fn # fns) s =
     (case fn s of (s, err) \<Rightarrow>
        (case mixchain_Close fns s of (s, firstErr) \<Rightarrow> (s, case err of None \<Rightarrow> firstErr | Some e \<Rightarrow> Some e)))"

definition gjallarhorn_coordinator :: "bring_env \<Rightarrow> coordinator_config" where
  "gjallarhorn_coordinator B =
     \<lparr>cc_Key = fst (be_key B ''gjallarhorn coordinator key'' 0),
      cc_Address = be_addr B ''gjallarhorn coordinator edtls.Listen'' 0\<rparr>"

definition convoConf :: "bring_env \<Rightarrow> public_server_config list \<Rightarrow> service_config" where
  "convoConf B servers = harness_signed_config B ''Convo'' (ConvoInner
     \<lparr>cfg_Version = ConvoConfigVersion, cfg_Coordinator = gjallarhorn_coordinator B, cfg_MixServers = servers\<rparr>)"

definition start_convo_coordinator :: "bring_env \<Rightarrow> 'd stage" where
  "start_convo_coordinator B h =
     (let convoSrv = new_coordinator ''Convo'' 2000000000 (path_Join [be_tmpDir B, ''convo-coordinator-state'']) in
      case co_Persist (be_calls B) (hn_fs h) convoSrv of (states, r) \<Rightarrow>
        wbind (h\<lparr>hn_fs := last states\<rparr>, map_err (\<lambda>_. [''convo Persist'']) r) (\<lambda>_ h.
          case LoadPersistedState (hn_fs h) convoSrv of (convoSrv, r) \<Rightarrow>
            sbind h (map_err (\<lambda>_. [''convo LoadPersistedState'']) r) (\<lambda>_.
            sbind h (map_err (\<lambda>_. [''convo Run'']) (co_Run convoSrv)) (\<lambda>convoSrv.
              (came_up (RCoordinator ''Convo'') (h\<lparr>hn_coordinator := Some convoSrv\<rparr>), Ok ())))))"

definition startGjallarhornSide :: "bring_env \<Rightarrow> harness_options \<Rightarrow> 'd stage" where
  "startGjallarhornSide B ho = run_stages
     [attempt_call B ''gjallarhorn coordinator key'',
      attempt_call B ''gjallarhorn coordinator edtls.Listen'',
      effect (came_up (RListener ''convo-coordinator'')),
      (\<lambda>h. wrap_stage ''launchConvoMixchain''
         (launchConvoMixchain B (ho_gjallarhornMixers ho) (cc_Key (gjallarhorn_coordinator B)) h)),
      effect (on_close (map RMixer [0..<nat (ho_gjallarhornMixers ho)])),
      (\<lambda>h. sign_and_publish B ''sign Convo config'' ''publish Convo config'' (convoConf B (hn_servers h)) h),
      start_convo_coordinator B,
      effect (on_close [RCoordinator ''Convo'']),
      effect (on_close [RListener ''convo-coordinator''])]"

section \<open>The harness\<close>

text \<open>\<open>tb.TempDir\<close> makes a directory and registers its removal; \<open>tb.Fatalf\<close> ends the test.\<close>

definition tb_TempDir :: "bring_env \<Rightarrow> 'd stage" where
  "tb_TempDir B h =
     (if be_ok B ''MkdirTemp'' (hn_dirs h) then
        (h\<lparr>hn_live := hn_live h @ [RTempDir (hn_dirs h)], hn_tb := hn_tb h @ [RemoveDir (hn_dirs h)], hn_dirs := Suc (hn_dirs h)\<rparr>,
         Ok ())
      else (h, Err [''MkdirTemp'']))"

definition New :: "bring_env \<Rightarrow> (harness_options \<Rightarrow> harness_options) list \<Rightarrow> 'd stage" where
  "New B opts = run_stages
     [attempt_call B ''generate harness guardian'',
      attempt_call B ''harness guardian binding'',
      tb_TempDir B,
      (\<lambda>h. wrap_stage ''startNeverlurSide'' (startNeverlurSide B (fold (\<lambda>opt. opt) opts defaultOptions) h)),
      (\<lambda>h. wrap_stage ''startGjallarhornSide'' (startGjallarhornSide B (fold (\<lambda>opt. opt) opts defaultOptions) h)),
      effect (\<lambda>h. h\<lparr>hn_tb := hn_tb h @ [CloseHarness]\<rparr>)]"

definition run_cleanup :: "resource list \<Rightarrow> 'd harness \<Rightarrow> 'd harness" where
  "run_cleanup rs h =
     h\<lparr>hn_live := filter (\<lambda>r. r \<notin> set rs) (hn_live h), hn_closings := hn_closings h @ [rs]\<rparr>"

text \<open>\<open>closeOnce\<close>: the clean-ups run on the first call only, from the last to the first.\<close>

definition harness_Close :: "'d harness \<Rightarrow> 'd harness" where
  "harness_Close h =
     (if hn_closed h then h else fold run_cleanup (rev (hn_cleanups h)) (h\<lparr>hn_closed := True\<rparr>))"

fun tb_cleanup_one :: "tb_cleanup \<Rightarrow> 'd harness \<Rightarrow> 'd harness" where
  "tb_cleanup_one (RemoveDir k) h = run_cleanup [RTempDir k] h"
| "tb_cleanup_one CloseHarness h = harness_Close h"

text \<open>\<open>runCleanups\<close> of the demo, and what \<open>testing\<close> does at the end of a test.\<close>

definition runCleanups :: "'d harness \<Rightarrow> 'd harness" where
  "runCleanups h = fold tb_cleanup_one (rev (hn_tb h)) (h\<lparr>hn_tb := []\<rparr>)"

section \<open>The mock chain\<close>

text \<open>
  \<open>mock.LaunchMixchain\<close>: as above, but an error of the key generator is ignored and leaves nil keys, and
  one of the listener panics.
\<close>

record 'd mixchain =
  mx_Servers :: "public_server_config list"
  mx_mixServers :: "'d server list"
  mx_running :: "nat list"

definition mock_keys :: "bring_env \<Rightarrow> nat \<Rightarrow> bytes \<times> bytes" where
  "mock_keys B i = (if be_ok B ''keygen'' i then be_key B ''keygen'' i else ([], []))"

definition LaunchMixchain :: "bring_env \<Rightarrow> int \<Rightarrow> bytes \<Rightarrow> (unit, 'd mixchain) outcome" where
  "LaunchMixchain B len coordinatorKey =
     (if len < 0 then Panic SliceOutOfRange
      else if \<not> list_all (be_ok B ''net.Listen'') [0..<nat len] then Panic ExplicitPanic
      else
        (let mixer = (\<lambda>i. \<lparr>SigningKey = snd (mock_keys B i), CoordinatorKey = coordinatorKey,
                           Services = [''Convo'' \<mapsto> ConvoService (be_noise B i)], rounds = Map.empty\<rparr>) in
         Ok \<lparr>mx_Servers = map (\<lambda>i. \<lparr>Key = be_Public B (SigningKey (mixer i :: 'd server)), Address = be_addr B ''net.Listen'' i\<rparr>) [0..<nat len],
             mx_mixServers = map mixer [0..<nat len], mx_running = [0..<nat len]\<rparr>))"

definition mock_Close :: "'d mixchain \<Rightarrow> 'd mixchain" where
  "mock_Close m = m\<lparr>mx_running := []\<rparr>"

section \<open>Lemmas: stages\<close>

lemma map_err_Ok_iff [simp]: "map_err f r = Ok a \<longleftrightarrow> r = Ok a"
  by (cases r) auto

lemma run_stages_append: "run_stages (fs @ gs) s = wbind (run_stages fs s) (\<lambda>_. run_stages gs)"
proof (induction fs arbitrary: s)
  case (Cons f fs)
  show ?case by (cases "f s"; cases "snd (f s)") (simp_all add: Cons.IH)
qed simp

lemma run_stages_Ok_Cons:
  "run_stages (f # fs) s = (s', Ok ()) \<longleftrightarrow> (\<exists>s1. f s = (s1, Ok ()) \<and> run_stages fs s1 = (s', Ok ()))"
  by (simp add: wbind_Ok_iff)

lemma run_stages_inv:
  assumes "\<And>f s. f \<in> set fs \<Longrightarrow> P s \<Longrightarrow> P (fst (f s))" and "P s"
  shows "P (fst (run_stages fs s))"
  using assms
proof (induction fs arbitrary: s)
  case (Cons f fs)
  have "P (fst (f s))" using Cons.prems by simp
  then show ?case using Cons by (cases "f s"; cases "snd (f s)") simp_all
qed simp

lemma attempt_Ok [simp]: "attempt_at B name i h = (h', Ok ()) \<longleftrightarrow> be_ok B name i \<and> h' = h"
  by (auto simp: attempt_at_def)

lemma effect_Ok [simp]: "effect f h = (h', Ok ()) \<longleftrightarrow> h' = f h"
  by (auto simp: effect_def)

lemma wrap_stage_Ok [simp]: "wrap_stage stage r = (h, Ok a) \<longleftrightarrow> r = (h, Ok a)"
  by (cases r; cases "snd r") (auto simp: wrap_stage_def)

lemma fst_wrap_stage [simp]: "fst (wrap_stage stage r) = fst r"
  by (simp add: wrap_stage_def)

lemma fst_attempt [simp]: "fst (attempt_at B name i h) = h"
  by (simp add: attempt_at_def)

lemma fst_effect [simp]: "fst (effect f h) = f h"
  by (simp add: effect_def)

text \<open>The part of the harness that is about giving resources back.\<close>

definition books :: "'d harness \<Rightarrow> tb_cleanup list \<times> resource list list \<times> bool \<times> nat" where
  "books h = (hn_tb h, hn_closings h, hn_closed h, hn_dirs h)"

lemma books_simps [simp]:
  "books (came_up r h) = books h" "books (on_close rs h) = books h"
  "books (h\<lparr>hn_cfgServer := b\<rparr>) = books h" "books (h\<lparr>hn_cfgClient := b\<rparr>) = books h" "books (h\<lparr>hn_addFriend := b\<rparr>) = books h"
  "books (h\<lparr>hn_coordinator := co\<rparr>) = books h" "books (h\<lparr>hn_fs := d\<rparr>) = books h"
  "books (h\<lparr>hn_mixers := ms, hn_servers := ss\<rparr>) = books h"
  "books (h\<lparr>hn_published := p, hn_configs := q\<rparr>) = books h"
  by (simp_all add: books_def came_up_def on_close_def)

lemma books_wbind:
  "books (fst r) = x \<Longrightarrow> (\<And>a s. books s = x \<Longrightarrow> books (fst (f a s)) = x) \<Longrightarrow> books (fst (wbind r f)) = x"
  by (cases r; cases "snd r") auto

lemma books_sbind: "books s = x \<Longrightarrow> (\<And>a. books (fst (f a)) = x) \<Longrightarrow> books (fst (sbind s r f)) = x"
  by (cases r) auto

lemma books_run_stages:
  "list_all (\<lambda>f. \<forall>s. books (fst (f s)) = books s) fs \<Longrightarrow> books (fst (run_stages fs s)) = books s"
  using run_stages_inv [of fs "\<lambda>h. books h = books s" s] by (simp add: list_all_iff)

lemma sign_and_publish_books: "books (fst (sign_and_publish B s t conf h)) = books h"
  unfolding sign_and_publish_def by (intro books_wbind) (simp_all add: books_wbind)

lemma start_convo_coordinator_books: "books (fst (start_convo_coordinator B h)) = books h"
  unfolding start_convo_coordinator_def Let_def
  by (auto split: prod.split intro!: books_wbind books_sbind)

lemma launchConvoMixchain_books: "books (fst (launchConvoMixchain B len k h)) = books h"
proof -
  have "books (fst (run_stages (concat (map (mixer_stages B) is)) h)) = books h" for "is"
    by (rule books_run_stages) (auto simp: list_all_iff mixer_stages_def)
  then show ?thesis unfolding launchConvoMixchain_def Let_def by (auto intro!: books_wbind)
qed

lemma startNeverlurSide_books: "books (fst (startNeverlurSide B ho h)) = books h"
  unfolding startNeverlurSide_def by (rule books_run_stages) (simp add: neverlur_stages sign_and_publish_books)

lemma startGjallarhornSide_books: "books (fst (startGjallarhornSide B ho h)) = books h"
  unfolding startGjallarhornSide_def
  by (rule books_run_stages) (simp add: sign_and_publish_books start_convo_coordinator_books launchConvoMixchain_books)

section \<open>Properties\<close>

definition is_dir :: "resource \<Rightarrow> bool" where
  "is_dir r \<longleftrightarrow> (case r of RTempDir _ \<Rightarrow> True | _ \<Rightarrow> False)"

definition fresh_harness :: "'d harness \<Rightarrow> bool" where
  "fresh_harness h \<longleftrightarrow> hn_live h = [] \<and> hn_closings h = [] \<and> hn_cleanups h = [] \<and> \<not> hn_closed h \<and> hn_tb h = [] \<and> hn_dirs h = 0"

lemma New_failed_books:
  assumes "New B opts h0 = (h, r)" and "r \<noteq> Ok ()" and "fresh_harness h0"
  shows "hn_tb h = [] \<or> hn_tb h = [RemoveDir 0]" "hn_closings h = []" "\<not> hn_closed h"
proof -
  let ?ho = "fold (\<lambda>opt. opt) opts defaultOptions"
  have fresh: "books h0 = ([], [], False, 0)" using assms(3) by (simp add: books_def fresh_harness_def)
  have dir: "books (fst (tb_TempDir B h0)) = (if be_ok B ''MkdirTemp'' 0 then ([RemoveDir 0], [], False, 1) else ([], [], False, 0))"
    using fresh by (simp add: tb_TempDir_def books_def)
  have "books h = books h0 \<or> books h = books (fst (tb_TempDir B h0))"
  proof (cases "be_ok B ''generate harness guardian'' 0 \<and> be_ok B ''harness guardian binding'' 0")
    case False
    then show ?thesis using assms(1) by (auto simp: New_def attempt_at_def split: if_splits)
  next
    case True
    let ?sides = "[\<lambda>h. wrap_stage ''startNeverlurSide'' (startNeverlurSide B ?ho h),
      \<lambda>h. wrap_stage ''startGjallarhornSide'' (startGjallarhornSide B ?ho h)]"
    let ?finish = "effect (\<lambda>h. h\<lparr>hn_tb := hn_tb h @ [CloseHarness]\<rparr>)"
    have New: "New B opts h0 = wbind (tb_TempDir B h0) (\<lambda>_. run_stages (?sides @ [?finish]))"
      using True by (simp add: New_def attempt_at_def)
    have same: "books (fst (run_stages ?sides s)) = books s" for s
      by (rule books_run_stages) (simp add: startNeverlurSide_books startGjallarhornSide_books)
    have "h = fst (tb_TempDir B h0) \<or> h = fst (run_stages ?sides (fst (tb_TempDir B h0)))"
      using assms(1,2) unfolding New run_stages_append
      by (cases "tb_TempDir B h0"; cases "snd (tb_TempDir B h0)";
          cases "run_stages ?sides (fst (tb_TempDir B h0))"; cases "snd (run_stages ?sides (fst (tb_TempDir B h0)))")
        (auto simp: effect_def simp del: run_stages.simps(2) simp: run_stages.simps(2) [of ?finish])
    with same show ?thesis by metis
  qed
  then show "hn_tb h = [] \<or> hn_tb h = [RemoveDir 0]" "hn_closings h = []" "\<not> hn_closed h"
    using fresh dir by (auto simp: books_def split: if_splits)
qed

text \<open>
  A set-up that fails leaks: if \<open>New\<close> fails, at whatever stage, the test's clean-ups remove at most the
  temporary directory; every listener, server and round loop that had come up is still there,
  because the harness registers its \<open>Close\<close> only at the very end.
\<close>

theorem failed_New_leaks:
  assumes "New B opts h0 = (h, r)" and "r \<noteq> Ok ()" and "fresh_harness h0"
  shows "filter (\<lambda>r. \<not> is_dir r) (hn_live (runCleanups h)) = filter (\<lambda>r. \<not> is_dir r) (hn_live h) \<and>
    list_all (list_all is_dir) (hn_closings (runCleanups h))"
proof -
  have "filter (\<lambda>r. r \<noteq> RTempDir 0 \<and> \<not> is_dir r) xs = filter (\<lambda>r. \<not> is_dir r) xs" for xs
    by (rule filter_cong) (auto simp: is_dir_def)
  with New_failed_books [OF assms] show ?thesis
    by (auto simp: runCleanups_def run_cleanup_def) (simp_all add: is_dir_def)
qed

lemma sign_and_publish_Ok:
  assumes "sign_and_publish B s t conf h = (h', Ok ())"
  obtains c where "signConfigInPlace (be_crypto B) (be_identity B) conf = Ok c" "hn_cfgServer h"
    "h' = h\<lparr>hn_published := (hn_published h)(sg_Service c \<mapsto> c), hn_configs := (hn_configs h)(sg_Service c \<mapsto> c)\<rparr>"
  using assms by (auto simp: sign_and_publish_def wbind_Ok_iff split: if_splits)

lemma signConfigInPlace_Ok:
  assumes "signConfigInPlace Y who conf = Ok c"
  obtains sigPQ where "hc_PQSign Y (PQPriv who) (hc_SigningMessage Y (c\<lparr>sg_Signatures := Map.empty\<rparr>)) = Some sigPQ"
    "sg_Signatures c = [hc_base32 Y (EdPub who) \<mapsto> hc_HybridBytes Y
       (go_copy (replicate (hc_EdSize Y) 0) (hc_Sign Y (EdPriv who) (hc_SigningMessage Y (c\<lparr>sg_Signatures := Map.empty\<rparr>))))
       (go_copy (replicate (hc_PQSize Y) 0) sigPQ)]"
    "sg_Service c = sg_Service conf" "sg_Inner c = sg_Inner conf"
    "map gd_Key (sg_Guardians c) = [EdPub who]"
  using assms by (auto simp: signConfigInPlace_def Let_def split: option.splits)

lemma start_convo_coordinator_Ok:
  assumes "start_convo_coordinator B h = (h', Ok ())"
  shows "\<exists>srv d. h' = came_up (RCoordinator ''Convo'') (h\<lparr>hn_fs := d, hn_coordinator := Some srv\<rparr>) \<and>
    co_Service srv = ''Convo'' \<and> co_shutdown srv = Some False \<and> co_RoundDelay srv = 2000000000"
  using assms
  by (auto simp: start_convo_coordinator_def Let_def wbind_Ok_iff sbind_Ok_iff LoadPersistedState_def co_Run_def map_err_Ok_iff
      split: prod.splits option.splits list.splits if_splits)

lemma signConfigInPlace_service: "signConfigInPlace Y who conf = Ok c \<Longrightarrow> sg_Service c = sg_Service conf"
  by (rule signConfigInPlace_Ok)

lemma sign_and_publish_live:
  assumes "sign_and_publish B s t conf h = (h', Ok ())"
  shows "hn_live h' = hn_live h" "hn_cleanups h' = hn_cleanups h" "hn_mixers h' = hn_mixers h" "hn_servers h' = hn_servers h"
    "hn_published h' (sg_Service conf) = hn_configs h' (sg_Service conf)"
    "\<exists>c. signConfigInPlace (be_crypto B) (be_identity B) conf = Ok c \<and> hn_published h' (sg_Service conf) = Some c"
proof -
  obtain c where c: "signConfigInPlace (be_crypto B) (be_identity B) conf = Ok c"
    "h' = h\<lparr>hn_published := (hn_published h)(sg_Service c \<mapsto> c), hn_configs := (hn_configs h)(sg_Service c \<mapsto> c)\<rparr>"
    using assms by (rule sign_and_publish_Ok)
  with signConfigInPlace_service [OF c(1)] show "hn_live h' = hn_live h" "hn_cleanups h' = hn_cleanups h" "hn_mixers h' = hn_mixers h"
    "hn_servers h' = hn_servers h" "hn_published h' (sg_Service conf) = hn_configs h' (sg_Service conf)"
    "\<exists>c. signConfigInPlace (be_crypto B) (be_identity B) conf = Ok c \<and> hn_published h' (sg_Service conf) = Some c"
    by simp_all
qed

definition neverlur_resources :: "resource list" where
  "neverlur_resources =
     [RListener ''config'', RListener ''coordinator'', RCDN, RMixchain, RPKG, RCoordinator ''AddFriend'', RCoordinator ''Dialing'']"

definition neverlur_cleanups :: "resource list list" where
  "neverlur_cleanups =
     [[RListener ''config''], [RCDN], [RMixchain], [RPKG], [RCoordinator ''Dialing''], [RCoordinator ''AddFriend''],
      [RListener ''coordinator'']]"

lemma startNeverlurSide_Ok:
  assumes "startNeverlurSide B ho h = (h', Ok ())"
  shows "hn_live h' = hn_live h @ neverlur_resources \<and> hn_cleanups h' = hn_cleanups h @ neverlur_cleanups"
  using assms
  by (auto simp: startNeverlurSide_def neverlur_stages run_stages_Ok_Cons came_up_def on_close_def sign_and_publish_live neverlur_resources_def
      neverlur_cleanups_def simp del: run_stages.simps(2))

lemma launchConvoMixchain_Ok:
  fixes h h' :: "'d harness"
  assumes "launchConvoMixchain B len k h = (h', Ok ())"
  shows "h' = h\<lparr>hn_live := hn_live h @ map RMixer [0..<nat len], hn_mixers := map (chain_mixer B k) [0..<nat len],
    hn_servers := map (\<lambda>i. public_config B i (chain_mixer B k i :: 'd server)) [0..<nat len]\<rparr>"
proof -
  have "run_stages (concat (map (mixer_stages B) is)) g = (g', Ok ()) \<Longrightarrow> g' = g\<lparr>hn_live := hn_live g @ map RMixer is\<rparr>"
    for "is" and g g' :: "'d harness"
  proof (induction "is" arbitrary: g)
    case (Cons i "is")
    from Cons.prems have "run_stages (concat (map (mixer_stages B) is)) (came_up (RMixer i) g) = (g', Ok ())"
      by (simp add: mixer_stages_def [of B i] run_stages_Ok_Cons del: run_stages.simps(2))
    from Cons.IH [OF this] show ?case by (simp add: came_up_def)
  qed simp
  with assms show ?thesis
    by (auto simp: launchConvoMixchain_def wbind_Ok_iff Let_def enumerate_map_upt split: if_splits)
qed

text \<open>What the conversation side has brought up when it is done.\<close>

lemma startGjallarhornSide_Ok:
  fixes h h' :: "'d harness"
  assumes "startGjallarhornSide B ho h = (h', Ok ())"
  defines "n \<equiv> nat (ho_gjallarhornMixers ho)" and "k \<equiv> cc_Key (gjallarhorn_coordinator B)"
  shows "\<exists>c srv. hn_live h' = hn_live h @ RListener ''convo-coordinator'' # map RMixer [0..<n] @ [RCoordinator ''Convo''] \<and>
    hn_cleanups h' = hn_cleanups h @ [map RMixer [0..<n], [RCoordinator ''Convo''], [RListener ''convo-coordinator'']] \<and>
    hn_mixers h' = map (chain_mixer B k) [0..<n] \<and>
    hn_published h' ''Convo'' = Some c \<and> hn_configs h' ''Convo'' = Some c \<and>
    signConfigInPlace (be_crypto B) (be_identity B)
      (convoConf B (map (\<lambda>i. public_config B i (chain_mixer B k i :: 'd server)) [0..<n])) = Ok c \<and>
    hn_coordinator h' = Some srv \<and> co_Service srv = ''Convo'' \<and> co_shutdown srv = Some False \<and> co_RoundDelay srv = 2000000000"
proof -
  define h1 where "h1 = came_up (RListener ''convo-coordinator'') h"
  obtain h2 h3 h4 where launch: "launchConvoMixchain B (ho_gjallarhornMixers ho) k h1 = (h2, Ok ())"
    and pub: "sign_and_publish B ''sign Convo config'' ''publish Convo config'' (convoConf B (hn_servers (on_close (map RMixer [0..<n]) h2)))
      (on_close (map RMixer [0..<n]) h2) = (h3, Ok ())"
    and co: "start_convo_coordinator B h3 = (h4, Ok ())"
    and h': "h' = on_close [RListener ''convo-coordinator''] (on_close [RCoordinator ''Convo''] h4)"
    using assms(1) unfolding n_def k_def h1_def
    by (auto simp: startGjallarhornSide_def run_stages_Ok_Cons simp del: run_stages.simps(2))
  note h2 = launchConvoMixchain_Ok [OF launch]
  note h3 = sign_and_publish_live [OF pub]
  obtain srv d where h4: "h4 = came_up (RCoordinator ''Convo'') (h3\<lparr>hn_fs := d, hn_coordinator := Some srv\<rparr>)"
    "co_Service srv = ''Convo''" "co_shutdown srv = Some False" "co_RoundDelay srv = 2000000000"
    using start_convo_coordinator_Ok [OF co] by blast
  have "sg_Service (convoConf B ss) = ''Convo''" for ss by (simp add: convoConf_def harness_signed_config_def)
  with h3 h4 show ?thesis
    unfolding h' h2 n_def by (auto simp: came_up_def on_close_def h1_def)
qed

lemma New_Ok:
  fixes h0 h :: "'d harness"
  assumes "New B opts h0 = (h, Ok ())" and "fresh_harness h0"
  obtains h1 h2 :: "'d harness" where "startNeverlurSide B (fold (\<lambda>opt. opt) opts defaultOptions) h1 = (h2, Ok ())" "hn_live h1 = [RTempDir 0]" "hn_cleanups h1 = []"
    "startGjallarhornSide B (fold (\<lambda>opt. opt) opts defaultOptions) h2 = (h\<lparr>hn_tb := [RemoveDir 0]\<rparr>, Ok ())"
    "hn_tb h = [RemoveDir 0, CloseHarness]" "hn_closings h = []" "\<not> hn_closed h"
proof -
  obtain h1 h2 h3 where run: "tb_TempDir B h0 = (h1, Ok ())" "startNeverlurSide B (fold (\<lambda>opt. opt) opts defaultOptions) h1 = (h2, Ok ())"
    "startGjallarhornSide B (fold (\<lambda>opt. opt) opts defaultOptions) h2 = (h3, Ok ())" "h = h3\<lparr>hn_tb := hn_tb h3 @ [CloseHarness]\<rparr>"
    using assms(1) by (auto simp: New_def run_stages_Ok_Cons simp del: run_stages.simps(2))
  have "books h3 = books h1" using startNeverlurSide_books [of B _ h1] startGjallarhornSide_books [of B _ h2] run(2,3)
    by (metis fst_conv)
  moreover have "hn_live h1 = [RTempDir 0]" "hn_cleanups h1 = []" "books h1 = ([RemoveDir 0], [], False, 1)"
    using run(1) assms(2) by (auto simp: tb_TempDir_def fresh_harness_def books_def split: if_splits)
  ultimately show thesis using run(2-4) by (intro that) (auto simp: books_def)
qed

lemma fold_run_cleanup:
  "hn_live (fold run_cleanup css h) = filter (\<lambda>r. \<forall>rs \<in> set css. r \<notin> set rs) (hn_live h)"
  "hn_closings (fold run_cleanup css h) = hn_closings h @ css" "hn_tb (fold run_cleanup css h) = hn_tb h"
  "hn_closed (fold run_cleanup css h) = hn_closed h"
  by (induction css arbitrary: h) (auto simp: run_cleanup_def intro!: filter_cong)

lemma harness_Close_idem: "harness_Close (harness_Close h) = harness_Close h"
  by (simp add: harness_Close_def fold_run_cleanup)

text \<open>
  C39. A set-up that succeeds is taken down completely: whatever the number of mix servers, the clean-ups
  of the test release every resource the harness has brought up, each exactly once, and \<open>Close\<close> can
  be called again without effect. The order is the one in which the clean-ups were registered,
  backwards, so the \<open>AddFriend\<close> coordinator, which came up first, is closed before the \<open>Dialing\<close>
  one, and the listener of the two coordinators, opened early, is closed before both.
\<close>

theorem harness_teardown:
  assumes "New B opts h0 = (h, Ok ())" and "fresh_harness h0"
  shows "hn_live (runCleanups h) = [] \<and>
    mset (concat (hn_closings (runCleanups h))) = mset (hn_live h) \<and>
    hn_closings (runCleanups h) =
      [[RListener ''convo-coordinator''], [RCoordinator ''Convo''],
       map RMixer [0..<nat (ho_gjallarhornMixers (fold (\<lambda>opt. opt) opts defaultOptions))],
       [RListener ''coordinator''], [RCoordinator ''AddFriend''], [RCoordinator ''Dialing''], [RPKG], [RMixchain], [RCDN],
       [RListener ''config''], [RTempDir 0]] \<and>
    harness_Close (harness_Close h) = harness_Close h"
proof -
  let ?n = "nat (ho_gjallarhornMixers (fold (\<lambda>opt. opt) opts defaultOptions))"
  obtain h1 h2 where run: "startNeverlurSide B (fold (\<lambda>opt. opt) opts defaultOptions) h1 = (h2, Ok ())" "hn_live h1 = [RTempDir 0]" "hn_cleanups h1 = []"
    "startGjallarhornSide B (fold (\<lambda>opt. opt) opts defaultOptions) h2 = (h\<lparr>hn_tb := [RemoveDir 0]\<rparr>, Ok ())"
    "hn_tb h = [RemoveDir 0, CloseHarness]" "hn_closings h = []" "\<not> hn_closed h"
    using assms by (rule New_Ok)
  have live: "hn_live h = RTempDir 0 # neverlur_resources @ RListener ''convo-coordinator'' # map RMixer [0..<?n] @ [RCoordinator ''Convo'']"
    and cleanups: "hn_cleanups h = neverlur_cleanups @ [map RMixer [0..<?n], [RCoordinator ''Convo''], [RListener ''convo-coordinator'']]"
    using startNeverlurSide_Ok [OF run(1)] startGjallarhornSide_Ok [OF run(4)] run(2,3) by auto
  have down: "runCleanups h = run_cleanup [RTempDir 0] (fold run_cleanup (rev (hn_cleanups h)) (h\<lparr>hn_tb := [], hn_closed := True\<rparr>))"
    using run(5,7) by (simp add: runCleanups_def harness_Close_def)
  have "hn_closings (runCleanups h) = rev (hn_cleanups h) @ [[RTempDir 0]]"
    using run(6) unfolding down run_cleanup_def [of "[RTempDir 0]"] by (simp add: fold_run_cleanup)
  moreover have "hn_live (runCleanups h) = filter (\<lambda>r. r \<noteq> RTempDir 0 \<and> (\<forall>rs \<in> set (hn_cleanups h). r \<notin> set rs)) (hn_live h)"
    unfolding down run_cleanup_def [of "[RTempDir 0]"] by (simp add: fold_run_cleanup conj_commute)
  ultimately show ?thesis
    unfolding live cleanups by (auto simp: neverlur_resources_def neverlur_cleanups_def harness_Close_idem filter_empty_conv)
qed

text \<open>
  C38. The universe \<open>New\<close> sets up is consistent: the published configuration of the conversation service is the
  one the harness hands to its clients, it is signed by the harness guardian over exactly its
  contents, it passes \<open>Validate\<close> when the generated keys have their size and the addresses are
  not empty, it names every mix server of the chain with the address it listens on and the public
  half of its signing key, each of them takes orders from the coordinator it names, and that coordinator runs.
\<close>

theorem harness_consistent:
  assumes "New B opts h0 = (h, Ok ())" and "fresh_harness h0"
  defines "n \<equiv> nat (ho_gjallarhornMixers (fold (\<lambda>opt. opt) opts defaultOptions))"
  shows "\<exists>c cc srv sigPQ. hn_published h ''Convo'' = Some c \<and> hn_configs h ''Convo'' = Some c \<and> sg_Inner c = ConvoInner cc \<and>
    hc_PQSign (be_crypto B) (PQPriv (be_identity B)) (hc_SigningMessage (be_crypto B) (c\<lparr>sg_Signatures := Map.empty\<rparr>)) = Some sigPQ \<and>
    sg_Signatures c = [hc_base32 (be_crypto B) (EdPub (be_identity B)) \<mapsto> hc_HybridBytes (be_crypto B)
      (go_copy (replicate (hc_EdSize (be_crypto B)) 0) (hc_Sign (be_crypto B) (EdPriv (be_identity B))
        (hc_SigningMessage (be_crypto B) (c\<lparr>sg_Signatures := Map.empty\<rparr>))))
      (go_copy (replicate (hc_PQSize (be_crypto B)) 0) sigPQ)] \<and>
    length (hn_mixers h) = n \<and> length (cfg_MixServers cc) = n \<and>
    (\<forall>i < n. CoordinatorKey (hn_mixers h ! i) = cc_Key (cfg_Coordinator cc) \<and>
       Key (cfg_MixServers cc ! i) = be_Public B (SigningKey (hn_mixers h ! i)) \<and>
       Address (cfg_MixServers cc ! i) = be_addr B ''gjallarhorn mixer net.Listen'' i) \<and>
    (0 < n \<and> length (fst (be_key B ''gjallarhorn coordinator key'' 0)) = 32 \<and> (\<forall>stage i. be_addr B stage i \<noteq> []) \<and>
      (\<forall>k. length (be_Public B k) = 32) \<longrightarrow> cfg_Validate cc = Ok ()) \<and>
    hn_coordinator h = Some srv \<and> co_Service srv = ''Convo'' \<and> co_shutdown srv = Some False"
proof -
  let ?k = "cc_Key (gjallarhorn_coordinator B)"
  let ?servers = "map (\<lambda>i. public_config B i (chain_mixer B ?k i :: 'a server)) [0..<n]"
  obtain h2 where "startGjallarhornSide B (fold (\<lambda>opt. opt) opts defaultOptions) h2 = (h\<lparr>hn_tb := [RemoveDir 0]\<rparr>, Ok ())"
    using assms(1,2) by (rule New_Ok)
  from startGjallarhornSide_Ok [OF this] obtain c srv where h:
    "hn_mixers h = map (chain_mixer B ?k) [0..<n]" "hn_published h ''Convo'' = Some c" "hn_configs h ''Convo'' = Some c"
    "signConfigInPlace (be_crypto B) (be_identity B) (convoConf B ?servers) = Ok c"
    "hn_coordinator h = Some srv" "co_Service srv = ''Convo''" "co_shutdown srv = Some False"
    unfolding n_def by auto
  have "cfg_Validate \<lparr>cfg_Version = ConvoConfigVersion, cfg_Coordinator = gjallarhorn_coordinator B, cfg_MixServers = ?servers\<rparr> = Ok ()"
    if "0 < n" "length (fst (be_key B ''gjallarhorn coordinator key'' 0)) = 32" "\<forall>stage i. be_addr B stage i \<noteq> []" "\<forall>k. length (be_Public B k) = 32"
    using that by (auto simp: cfg_Validate_def validate_mixers_Ok gjallarhorn_coordinator_def public_config_def PublicKeySize_def list_all_iff)
  moreover obtain sigPQ where sigPQ: "hc_PQSign (be_crypto B) (PQPriv (be_identity B)) (hc_SigningMessage (be_crypto B) (c\<lparr>sg_Signatures := Map.empty\<rparr>)) = Some sigPQ"
    "sg_Signatures c = [hc_base32 (be_crypto B) (EdPub (be_identity B)) \<mapsto> hc_HybridBytes (be_crypto B)
      (go_copy (replicate (hc_EdSize (be_crypto B)) 0) (hc_Sign (be_crypto B) (EdPriv (be_identity B))
        (hc_SigningMessage (be_crypto B) (c\<lparr>sg_Signatures := Map.empty\<rparr>))))
      (go_copy (replicate (hc_PQSize (be_crypto B)) 0) sigPQ)]" "sg_Inner c = sg_Inner (convoConf B ?servers)"
    using h(4) by (rule signConfigInPlace_Ok)
  ultimately show ?thesis
    using h(1-3,5-7)
    by (intro exI [of _ c] exI [of _ "\<lparr>cfg_Version = ConvoConfigVersion, cfg_Coordinator = gjallarhorn_coordinator B, cfg_MixServers = ?servers\<rparr>"]
        exI [of _ srv] exI [of _ sigPQ])
      (simp add: convoConf_def harness_signed_config_def chain_mixer_def public_config_def)
qed

section \<open>The mock chain and the closers\<close>

text \<open>Every closer runs, in order, and an error of one does not keep the others from running.\<close>

lemma mixchain_Close_runs:
  "mixchain_Close fns s = (fold (\<lambda>fn s. fst (fn s)) fns s, snd (mixchain_Close fns s))"
  by (induction fns arbitrary: s) (auto split: prod.splits simp: prod_eq_iff)

lemma mixchain_Close_silent: "(\<And>fn s. fn \<in> set fns \<Longrightarrow> snd (fn s) = None) \<Longrightarrow> snd (mixchain_Close fns s) = None"
proof (induction fns arbitrary: s)
  case (Cons fn fns)
  have "snd (fn s) = None" using Cons.prems by simp
  moreover have "snd (mixchain_Close fns (fst (fn s))) = None" using Cons by simp
  ultimately show ?case by (cases "fn s"; cases "mixchain_Close fns (fst (fn s))") simp
qed simp

lemma LaunchMixchain_Ok:
  fixes m :: "'d mixchain"
  assumes "LaunchMixchain B len k = Ok m"
  shows "length (mx_Servers m) = nat len \<and> length (mx_mixServers m) = nat len \<and> mx_running m = [0..<nat len] \<and>
    (\<forall>i < nat len. CoordinatorKey (mx_mixServers m ! i) = k \<and> Services (mx_mixServers m ! i) ''Convo'' \<noteq> None \<and>
       Key (mx_Servers m ! i) = be_Public B (SigningKey (mx_mixServers m ! i)))"
  using assms by (auto simp: LaunchMixchain_def Let_def split: if_splits)

section \<open>Witnesses\<close>

definition toy_bring :: "(string \<Rightarrow> nat \<Rightarrow> bool) \<Rightarrow> bring_env" where
  "toy_bring ok =
     \<lparr>be_ok = ok, be_identity = \<lparr>EdPub = [1], EdPriv = [2], PQPub = [3], PQPriv = [4]\<rparr>,
      be_crypto = \<lparr>hc_Sign = (\<lambda>k m. k), hc_PQSign = (\<lambda>k m. Some k), hc_PackPublicKey = (\<lambda>k. k), hc_base32 = str_of,
        hc_SigningMessage = (\<lambda>_. []), hc_EdSize = 1, hc_PQSize = 1, hc_HybridBytes = (@)\<rparr>,
      be_key = (\<lambda>_ _. (replicate 32 5, replicate 64 6)), be_addr = (\<lambda>_ _. ''localhost:1''), be_Public = (\<lambda>_. replicate 32 5),
      be_now = (\<lambda>_ _. 0), be_SignedConfigVersion = 2, be_InnerVersion = (\<lambda>_. 1), be_mixchain = (\<lambda>_. []), be_pkg = \<lparr>Key = [], Address = []\<rparr>,
      be_cdn = \<lparr>cc_Key = [], cc_Address = []\<rparr>, be_calls = ok_calls, be_noise = (\<lambda>_. meet_env), be_tmpDir = ''t'', be_clientDir = (\<lambda>_. ''c'')\<rparr>"

definition empty_harness :: "unit harness" where
  "empty_harness =
     \<lparr>hn_live = [], hn_closings = [], hn_cleanups = [], hn_closed = False, hn_tb = [], hn_dirs = 0, hn_fs = Map.empty,
      hn_cfgServer = False, hn_cfgClient = False, hn_published = Map.empty, hn_configs = Map.empty, hn_addFriend = False,
      hn_coordinator = None, hn_mixers = [], hn_servers = []\<rparr>"

lemma empty_harness_fresh: "fresh_harness empty_harness"
  by (simp add: fresh_harness_def empty_harness_def)

lemma sign_and_publish_succeeds:
  assumes "be_ok B t 0" and "hn_cfgServer h" and "\<And>k m. hc_PQSign (be_crypto B) k m \<noteq> None"
  shows "\<exists>h'. sign_and_publish B s t conf h = (h', Ok ()) \<and> hn_cfgServer h' \<and> hn_fs h' = hn_fs h"
proof -
  obtain c where "signConfigInPlace (be_crypto B) (be_identity B) conf = Ok c"
    using assms(3) by (force simp: signConfigInPlace_def Let_def split: option.splits)
  with assms(1,2) show ?thesis by (simp add: sign_and_publish_def wrap_stage_def attempt_at_def)
qed

text \<open>A run goes through to the end if every stage goes through and keeps what the next ones need.\<close>

lemma run_stages_through:
  assumes "\<And>f s. f \<in> set fs \<Longrightarrow> P s \<Longrightarrow> \<exists>s'. f s = (s', Ok ()) \<and> P s'" and "P s"
  shows "\<exists>s'. run_stages fs s = (s', Ok ()) \<and> P s'"
  using assms
proof (induction fs arbitrary: s)
  case (Cons f fs)
  then obtain s1 where "f s = (s1, Ok ())" "P s1" by (meson list.set_intros(1))
  with Cons show ?case by simp
qed simp

definition all_ok :: "bring_env \<Rightarrow> bool" where
  "all_ok B \<longleftrightarrow> (\<forall>s i. s \<noteq> ''publish Convo config'' \<longrightarrow> be_ok B s i) \<and> (\<forall>k m. hc_PQSign (be_crypto B) k m \<noteq> None)"

definition ready :: "fs \<Rightarrow> 'd harness \<Rightarrow> bool" where
  "ready d h \<longleftrightarrow> hn_cfgServer h \<and> hn_fs h = d"

lemma ready_publish:
  "all_ok B \<Longrightarrow> ready d h \<Longrightarrow> be_ok B t 0 \<Longrightarrow> \<exists>h'. sign_and_publish B s t conf h = (h', Ok ()) \<and> ready d h'"
  using sign_and_publish_succeeds [of B t h s conf] by (auto simp: ready_def all_ok_def)

lemma startNeverlurSide_succeeds:
  fixes h :: "'d harness"
  assumes "all_ok B"
  shows "\<exists>h'. startNeverlurSide B ho h = (h', Ok ()) \<and> ready (hn_fs h) h'"
proof -
  have ok: "be_ok B s 0" if "s \<noteq> ''publish Convo config''" for s using assms that by (simp add: all_ok_def)
  obtain h1 where h1: "run_stages (config_server_stages B) h = (h1, Ok ())" "ready (hn_fs h) h1"
    using ok by (simp add: config_server_stages_def attempt_at_def effect_def came_up_def on_close_def ready_def)
  have "\<exists>h'. run_stages (neverlur_service_stages B ho @ neverlur_coordinator_stages B) h1 = (h', Ok ()) \<and> ready (hn_fs h) h'"
  proof (rule run_stages_through [where P = "ready (hn_fs h)", OF _ h1(2)])
    fix f :: "'d stage" and g :: "'d harness" assume "f \<in> set (neverlur_service_stages B ho @ neverlur_coordinator_stages B)" "ready (hn_fs h) g"
    then show "\<exists>g'. f g = (g', Ok ()) \<and> ready (hn_fs h) g'"
      using ok by (auto simp: neverlur_stages attempt_at_def effect_def ready_publish [OF assms])
        (simp_all add: ready_def came_up_def on_close_def)
  qed
  with h1 show ?thesis by (simp add: startNeverlurSide_def run_stages_append)
qed

lemma start_convo_coordinator_succeeds:
  fixes h :: "'d harness"
  assumes "snd (co_Persist (be_calls B) (hn_fs h) (new_coordinator ''Convo'' 2000000000 (path_Join [be_tmpDir B, ''convo-coordinator-state'']) :: 'd coordinator)) = Ok ()"
    and "fresh_temp (be_calls B) (path_Join [be_tmpDir B, ''convo-coordinator-state'']) (hn_fs h)"
  shows "\<exists>h'. start_convo_coordinator B h = (h', Ok ())"
proof -
  let ?path = "path_Join [be_tmpDir B, ''convo-coordinator-state'']"
  let ?srv = "new_coordinator ''Convo'' 2000000000 ?path :: 'd coordinator"
  obtain states where run: "co_Persist (be_calls B) (hn_fs h) ?srv = (states, Ok ())" using assms(1) by (metis prod.collapse)
  with co_Persist_states [OF run] assms(2) have "last states (co_PersistPath ?srv) =
      Some (persist_version # ascii (persisted_doc \<lparr>ps_Round = 0\<rparr>))" by simp
  then have "LoadPersistedState (last states) ?srv = (?srv\<lparr>co_round := 0\<rparr>, Ok ())" by (rule load_after_persist)
  moreover have "?path \<noteq> []" by (rule path_Join_nonempty) (rule plain_names)
  ultimately show ?thesis using run by (simp add: start_convo_coordinator_def co_Run_def)
qed

lemma launchConvoMixchain_succeeds:
  fixes h :: "'d harness"
  assumes "all_ok B" and "0 \<le> len" and "ready d h"
  shows "\<exists>h'. launchConvoMixchain B len k h = (h', Ok ()) \<and> ready d h'"
proof -
  have "\<exists>h'. run_stages (concat (map (mixer_stages B) [0..<nat len])) h = (h', Ok ()) \<and> ready d h'"
  proof (rule run_stages_through [where P = "ready d", OF _ assms(3)])
    fix f :: "'d stage" and g :: "'d harness" assume "f \<in> set (concat (map (mixer_stages B) [0..<nat len]))" "ready d g"
    then show "\<exists>g'. f g = (g', Ok ()) \<and> ready d g'"
      using assms(1) by (auto simp: mixer_stages_def attempt_at_def effect_def all_ok_def) (simp add: ready_def came_up_def)
  qed
  then show ?thesis using assms(2) by (auto simp: launchConvoMixchain_def Let_def ready_def)
qed

definition toy_path_ok :: "bring_env \<Rightarrow> bool" where
  "toy_path_ok B \<longleftrightarrow> be_calls B = ok_calls \<and> be_tmpDir B = ''t''"

lemma toy_convo_coordinator:
  assumes "toy_path_ok B" and "hn_fs h = Map.empty"
  shows "\<exists>h'. start_convo_coordinator B h = (h', Ok ())"
proof (rule start_convo_coordinator_succeeds)
  have path: "path_Join [''t'', ''convo-coordinator-state''] = ''t/convo-coordinator-state''" by code_simp
  show "fresh_temp (be_calls B) (path_Join [be_tmpDir B, ''convo-coordinator-state'']) (hn_fs h)"
    using assms path by (simp add: toy_path_ok_def fresh_temp_def ok_calls_def toy_calls_def)
  show "snd (co_Persist (be_calls B) (hn_fs h) (new_coordinator ''Convo'' 2000000000 (path_Join [be_tmpDir B, ''convo-coordinator-state'']) :: 'a coordinator)) = Ok ()"
    using ok_calls_write assms(1) by (auto simp: co_Persist_def toy_path_ok_def Let_def split: prod.splits option.splits)
      (metis option.distinct(1) snd_conv)
qed

text \<open>
  With calls that succeed, up to publishing the conversation configuration, the set-up comes to the end, or
  fails there.
\<close>

lemma toy_sides:
  fixes h :: "'d harness"
  assumes "all_ok B" and "toy_path_ok B" and "hn_fs h = Map.empty" and "hn_cfgServer h" and "0 \<le> ho_gjallarhornMixers ho"
  shows "\<exists>h'. startGjallarhornSide B ho h =
    (h', if be_ok B ''publish Convo config'' 0 then Ok () else Err [''publish Convo config''])"
proof -
  let ?h = "came_up (RListener ''convo-coordinator'') h" and ?k = "cc_Key (gjallarhorn_coordinator B)"
  have "ready Map.empty ?h" using assms(3,4) by (simp add: ready_def came_up_def)
  from launchConvoMixchain_succeeds [OF assms(1,5) this] obtain h1 where
    launch: "launchConvoMixchain B (ho_gjallarhornMixers ho) ?k ?h = (h1, Ok ())" "ready Map.empty h1" by blast
  let ?h1 = "on_close (map RMixer [0..<nat (ho_gjallarhornMixers ho)]) h1"
  have ready1: "ready Map.empty ?h1" using launch(2) by (simp add: ready_def on_close_def)
  have up: "startGjallarhornSide B ho h = run_stages
      [\<lambda>h. sign_and_publish B ''sign Convo config'' ''publish Convo config'' (convoConf B (hn_servers h)) h,
       start_convo_coordinator B, effect (on_close [RCoordinator ''Convo'']), effect (on_close [RListener ''convo-coordinator''])] ?h1"
    using assms(1) launch(1) by (simp add: startGjallarhornSide_def all_ok_def attempt_at_def effect_def wrap_stage_def)
  show ?thesis
  proof (cases "be_ok B ''publish Convo config'' 0")
    case True
    from ready_publish [OF assms(1) ready1 this] obtain h2 where
      pub: "sign_and_publish B ''sign Convo config'' ''publish Convo config'' (convoConf B (hn_servers ?h1)) ?h1 = (h2, Ok ())"
        "ready Map.empty h2" by blast
    obtain h3 where "start_convo_coordinator B h2 = (h3, Ok ())"
      using toy_convo_coordinator [OF assms(2)] pub(2) by (auto simp: ready_def)
    with True pub(1) show ?thesis unfolding up by (simp add: effect_def)
  next
    case False
    obtain c where "signConfigInPlace (be_crypto B) (be_identity B) (convoConf B (hn_servers ?h1)) = Ok c"
      using assms(1) by (force simp: signConfigInPlace_def Let_def all_ok_def split: option.splits)
    with False ready1 show ?thesis
      unfolding up by (simp add: sign_and_publish_def wrap_stage_def attempt_at_def ready_def)
  qed
qed

lemma toy_New:
  assumes "all_ok B" and "toy_path_ok B"
  shows "\<exists>h. New B [] empty_harness =
    (h, if be_ok B ''publish Convo config'' 0 then Ok () else Err [''startGjallarhornSide'', ''publish Convo config''])"
proof -
  have ok: "be_ok B s i" if "s \<noteq> ''publish Convo config''" for s i using assms(1) that by (simp add: all_ok_def)
  obtain h1 where h1: "tb_TempDir B empty_harness = (h1, Ok ())" "hn_fs h1 = Map.empty"
    using ok by (simp add: tb_TempDir_def empty_harness_def)
  obtain h2 where h2: "startNeverlurSide B defaultOptions h1 = (h2, Ok ())" "ready Map.empty h2"
    using startNeverlurSide_succeeds [OF assms(1), of defaultOptions h1] h1(2) by auto
  obtain h3 where "startGjallarhornSide B defaultOptions h2 =
      (h3, if be_ok B ''publish Convo config'' 0 then Ok () else Err [''publish Convo config''])"
    using toy_sides [OF assms, of h2 defaultOptions] h2(2) by (auto simp: ready_def defaultOptions_def)
  with ok h1(1) h2(1) show ?thesis
    by (cases "be_ok B ''publish Convo config'' 0") (simp_all add: New_def attempt_at_def effect_def wrap_stage_def)
qed

lemma be_ok_toy_bring [simp]: "be_ok (toy_bring f) = f"
  by (simp add: toy_bring_def)

lemma toy_bring_ok: "(\<And>s i. s \<noteq> ''publish Convo config'' \<Longrightarrow> f s i) \<Longrightarrow> all_ok (toy_bring f) \<and> toy_path_ok (toy_bring f)"
  by (simp add: all_ok_def toy_path_ok_def toy_bring_def)

theorem harness_teardown_witness:
  "\<exists>h. New (toy_bring (\<lambda>_ _. True)) [] empty_harness = (h, Ok ()) \<and> hn_live (runCleanups h) = []"
proof -
  obtain h where run: "New (toy_bring (\<lambda>_ _. True)) [] empty_harness = (h, Ok ())"
    using toy_New [of "toy_bring (\<lambda>_ _. True)"] toy_bring_ok [of "\<lambda>_ _. True"] by auto
  from harness_teardown [OF run empty_harness_fresh] run show ?thesis by blast
qed

theorem harness_consistent_witness:
  "\<exists>h c. New (toy_bring (\<lambda>_ _. True)) [] empty_harness = (h, Ok ()) \<and> hn_published h ''Convo'' = Some c"
proof -
  obtain h where run: "New (toy_bring (\<lambda>_ _. True)) [] empty_harness = (h, Ok ())"
    using toy_New [of "toy_bring (\<lambda>_ _. True)"] toy_bring_ok [of "\<lambda>_ _. True"] by auto
  from harness_consistent [OF run empty_harness_fresh] run show ?thesis by blast
qed

theorem failed_New_leaks_witness:
  "\<exists>h. New (toy_bring (\<lambda>s _. s \<noteq> ''publish Convo config'')) [] empty_harness = (h, Err [''startGjallarhornSide'', ''publish Convo config'']) \<and>
     filter (\<lambda>r. \<not> is_dir r) (hn_live (runCleanups h)) = filter (\<lambda>r. \<not> is_dir r) (hn_live h)"
proof -
  obtain h where run: "New (toy_bring (\<lambda>s _. s \<noteq> ''publish Convo config'')) [] empty_harness =
      (h, Err [''startGjallarhornSide'', ''publish Convo config''])"
    using toy_New [of "toy_bring (\<lambda>s _. s \<noteq> ''publish Convo config'')"] toy_bring_ok [of "\<lambda>s _. s \<noteq> ''publish Convo config''"]
    by auto
  from failed_New_leaks [OF run _ empty_harness_fresh] run show ?thesis by auto
qed

end
