(* ===== verification/Demo.thy ===== *)
theory Demo
  imports Harness_Setup
begin

text \<open>
  The clients of the test harness as a whole (\<open>ClientFor\<close>, \<open>Start\<close>, \<open>Stop\<close> and the forwarding of
  disconnects in \<open>internal/testharness/client.go\<close>) and the demo program that walks two of them
  through a conversation (\<open>cmd/gjallarhorn-conversation-demo/main.go\<close>), with what it leaves
  behind when it ends.
\<close>

section \<open>Clients\<close>

text \<open>A client with its three connections; those of the friends protocol are open or not.\<close>

record harness_client =
  sk_convo :: "test_client convo_client"
  sk_addFriend :: bool
  sk_dialing :: bool

definition new_test_client :: "string \<Rightarrow> test_client" where
  "new_test_client username =
     \<lparr>tc_Username = username, tc_ConvoState = None, tc_outQueue = [], tc_recv = [], tc_err = [], tc_friendReq = [],
      tc_sentReq = [], tc_confirmed = []\<rparr>"

text \<open>The clients are told apart by the number of their temporary directory.\<close>

definition ClientFor :: "bring_env \<Rightarrow> string \<Rightarrow> 'd harness \<Rightarrow> 'd harness \<times> (harness_err, harness_client) outcome" where
  "ClientFor B username h =
     (let i = hn_dirs h in
      wbind (run_stages
          [attempt_at B ''ClientFor: generate identity'' i,
           attempt_at B ''ClientFor: PKG login keygen'' i,
           tb_TempDir B,
           attempt_at B ''ClientFor: bootstrap'' i,
           attempt_at B ''ClientFor: Register'' i] h)
        (\<lambda>_ h. (h, Ok
           \<lparr>sk_convo = (new_client (new_test_client username) (path_Join [be_clientDir B i, ''convo-client'']))
              \<lparr>cl_CoordinatorLatency := 500000000\<rparr>,
            sk_addFriend = False, sk_dialing = False\<rparr>)))"

text \<open>
  How the three connections turn out: for the conversation one, the configuration that is fetched and
  the connection that is dialed.
\<close>

record start_env =
  se_addFriend :: bool
  se_dialing :: bool
  se_fetched :: "signed_config option"
  se_dialed :: "conn option"

definition StartConvo ::
  "test_client convo_handler \<Rightarrow> start_env \<Rightarrow> harness_client \<Rightarrow> harness_client \<times> (client_err, unit) outcome" where
  "StartConvo H E c =
     (case ConnectConvo (Some H) (se_fetched E) (se_dialed E) (sk_convo c) of (cv, r) \<Rightarrow> (c\<lparr>sk_convo := cv\<rparr>, r))"

definition client_Start ::
  "test_client convo_handler \<Rightarrow> start_env \<Rightarrow> harness_client \<Rightarrow> harness_client \<times> (harness_err, unit) outcome" where
  "client_Start H E c =
     (if \<not> se_addFriend E then (c, Err [''Start: ConnectAddFriend''])
      else
        (let c = c\<lparr>sk_addFriend := True\<rparr> in
         if \<not> se_dialing E then (c\<lparr>sk_addFriend := False\<rparr>, Err [''Start: ConnectDialing''])
         else
           (let c = c\<lparr>sk_dialing := True\<rparr> in
            case StartConvo H E c of
              (c, Ok _) \<Rightarrow> (c, Ok ())
            | (c, Err e) \<Rightarrow> (c\<lparr>sk_addFriend := False, sk_dialing := False\<rparr>, Err [''Start: ConnectConvo''])
            | (c, Panic p) \<Rightarrow> (c, Panic p)
            | (c, Hang) \<Rightarrow> (c, Hang))))"

definition client_Stop :: "harness_client \<Rightarrow> harness_client" where
  "client_Stop c = c\<lparr>sk_addFriend := False, sk_dialing := False, sk_convo := fst (CloseConvo (sk_convo c))\<rparr>"

definition connected :: "harness_client \<Rightarrow> bool \<times> bool \<times> bool" where
  "connected c = (sk_addFriend c, sk_dialing c, cl_conn (sk_convo c) \<noteq> None)"

record connect_error =
  ce_Service :: string
  ce_Err :: string

text \<open>The channel \<open>Start\<close> returns holds eight values; a disconnect that finds it full is dropped.\<close>

fun forwardDisconnect :: "string \<Rightarrow> string list \<Rightarrow> connect_error list \<Rightarrow> connect_error list" where
  "forwardDisconnect service [] out = out"
| "forwardDisconnect service (err # errs) out =
     forwardDisconnect service errs
       (if length out < 8 then out @ [\<lparr>ce_Service = service, ce_Err = err\<rparr>] else out)"

section \<open>The demo\<close>

text \<open>
  \<open>tb.Fatalf\<close> runs the clean-ups before the process exits, \<open>log.Fatalf\<close> exits at once, without the
  deferred calls of \<open>main\<close>.
\<close>

datatype demo_exit = TBFatal harness_err | LogFatal string

record 'd demo =
  dm_harness :: "'d harness"
  dm_alice :: "harness_client option"
  dm_bob :: "harness_client option"

text \<open>
  How the script turns out: its checks and calls by name, the two connections, what the call between
  the clients yields (a key and a round), what the rounds of the conversation do to the two
  clients before the message is queued and afterwards, and the message.
\<close>

record demo_env =
  de_bring :: bring_env
  de_handler :: "test_client convo_handler"
  de_ok :: "string \<Rightarrow> bool"
  de_alice :: start_env
  de_bob :: start_env
  de_seed :: "bytes option \<times> u32"
  de_before :: "test_client \<Rightarrow> test_client \<Rightarrow> test_client \<times> test_client"
  de_after :: "test_client \<Rightarrow> test_client \<Rightarrow> test_client \<times> test_client"
  de_body :: bytes

definition alice_name :: string where
  "alice_name = ''alice@gjallarhorn-demo.test''"

definition bob_name :: string where
  "bob_name = ''bob@gjallarhorn-demo.test''"

type_synonym 'd demo_stage = "'d demo \<Rightarrow> 'd demo \<times> (demo_exit, unit) outcome"

definition demo_check :: "demo_env \<Rightarrow> string \<Rightarrow> 'd demo_stage" where
  "demo_check D name s = (s, if de_ok D name then Ok () else Err (LogFatal name))"

text \<open>A harness call under \<open>stdoutTB\<close>: its failure runs the clean-ups.\<close>

definition under_tb :: "'d harness \<times> (harness_err, 'a) outcome \<Rightarrow> 'd demo \<Rightarrow> 'd demo \<times> (demo_exit, 'a) outcome" where
  "under_tb r s =
     (case r of
        (h, Err e) \<Rightarrow> (s\<lparr>dm_harness := runCleanups h\<rparr>, Err (TBFatal e))
      | (h, o') \<Rightarrow> (s\<lparr>dm_harness := h\<rparr>, map_err TBFatal o'))"

definition start_client :: "demo_env \<Rightarrow> start_env \<Rightarrow> string \<Rightarrow> harness_client \<Rightarrow> (harness_client \<times> (demo_exit, unit) outcome)" where
  "start_client D E who c = apsnd (map_err (\<lambda>_. LogFatal (who @ ''.Start''))) (client_Start (de_handler D) E c)"

definition on_clients :: "(test_client \<Rightarrow> test_client \<Rightarrow> test_client \<times> test_client) \<Rightarrow> 'd demo \<Rightarrow> 'd demo" where
  "on_clients f s =
     (case (dm_alice s, dm_bob s) of
        (Some a, Some b) \<Rightarrow>
          (case f (cl_handler (sk_convo a)) (cl_handler (sk_convo b)) of (ta, tb) \<Rightarrow>
             s\<lparr>dm_alice := Some (a\<lparr>sk_convo := (sk_convo a)\<lparr>cl_handler := ta\<rparr>\<rparr>),
               dm_bob := Some (b\<lparr>sk_convo := (sk_convo b)\<lparr>cl_handler := tb\<rparr>\<rparr>)\<rparr>)
      | _ \<Rightarrow> s)"

definition handler_of :: "harness_client option \<Rightarrow> test_client" where
  "handler_of c = (case c of None \<Rightarrow> new_test_client [] | Some c \<Rightarrow> cl_handler (sk_convo c))"

text \<open>The end of the script: the first message on \<open>RecvCh\<close> must be the one that was sent.\<close>

definition demo_receive :: "bytes \<Rightarrow> test_client \<Rightarrow> (demo_exit, incoming_message) outcome" where
  "demo_receive body t =
     (case tc_recv t of
        [] \<Rightarrow> Err (LogFatal ''bob never received the message'')
      | msg # _ \<Rightarrow> if im_Body msg \<noteq> body then Err (LogFatal ''body mismatch'') else Ok msg)"

definition create_clients :: "demo_env \<Rightarrow> 'd demo_stage" where
  "create_clients D s =
     wbind (under_tb (ClientFor (de_bring D) alice_name (dm_harness s)) s) (\<lambda>alice s.
     wbind (under_tb (ClientFor (de_bring D) bob_name (dm_harness s)) s) (\<lambda>bob s.
       (s\<lparr>dm_alice := Some alice, dm_bob := Some bob\<rparr>, Ok ())))"

definition start_clients :: "demo_env \<Rightarrow> 'd demo_stage" where
  "start_clients D s =
     (case (dm_alice s, dm_bob s) of
        (Some alice, Some bob) \<Rightarrow>
          (case start_client D (de_alice D) ''alice'' alice of (alice, r) \<Rightarrow>
             wbind (s\<lparr>dm_alice := Some alice\<rparr>, r) (\<lambda>_ s.
               (case start_client D (de_bob D) ''bob'' bob of (bob, r) \<Rightarrow> (s\<lparr>dm_bob := Some bob\<rparr>, r))))
      | _ \<Rightarrow> (s, Panic NilDereference))"

definition dial :: "demo_env \<Rightarrow> 'd demo_stage" where
  "dial D s =
     (let s = on_clients (\<lambda>a b. (bootstrap_call (fst (de_seed D)) (snd (de_seed D)) bob_name a,
                                 bootstrap_call (fst (de_seed D)) (snd (de_seed D)) alice_name b)) s in
      (s, if tc_ConvoState (handler_of (dm_alice s)) = None \<or> tc_ConvoState (handler_of (dm_bob s)) = None
          then Err (LogFatal ''ConvoState not bootstrapped'') else Ok ()))"

definition send_body :: "demo_env \<Rightarrow> 'd demo_stage" where
  "send_body D s =
     (let s = on_clients (de_before D) s;
          r = snd (SendMessage (de_body D) (handler_of (dm_alice s))) in
      (on_clients (\<lambda>a b. (fst (SendMessage (de_body D) a), b)) s, map_err (\<lambda>_. LogFatal ''SendMessage'') r))"

definition await_body :: "demo_env \<Rightarrow> 'd demo_stage" where
  "await_body D s =
     (let s = on_clients (de_after D) s in
      (s, obind (demo_receive (de_body D) (handler_of (dm_bob s))) (\<lambda>_. Ok ())))"

definition demo_script :: "demo_env \<Rightarrow> 'd demo_stage list" where
  "demo_script D =
     [(\<lambda>s. under_tb (New (de_bring D) [] (dm_harness s)) s),
      demo_check D ''harness guardian binding'',
      create_clients D,
      demo_check D ''alice binding'',
      demo_check D ''bob binding'',
      start_clients D,
      demo_check D ''SendFriendRequest'',
      demo_check D ''bob never received friend request'',
      demo_check D ''Approve'',
      demo_check D ''friendship not confirmed'',
      demo_check D ''alice has no friend object'',
      dial D,
      send_body D,
      await_body D]"

text \<open>The deferred calls, the last one first: \<open>bob.Stop\<close>, \<open>alice.Stop\<close>, \<open>tb.runCleanups\<close>.\<close>

definition demo_defers :: "'d demo \<Rightarrow> 'd demo" where
  "demo_defers s =
     s\<lparr>dm_bob := map_option client_Stop (dm_bob s), dm_alice := map_option client_Stop (dm_alice s),
       dm_harness := runCleanups (dm_harness s)\<rparr>"

definition demo_main :: "demo_env \<Rightarrow> 'd demo_stage" where
  "demo_main D s = wbind (run_stages (demo_script D) s) (\<lambda>_ s. (demo_defers s, Ok ()))"

section \<open>Lemmas: clean-ups\<close>

text \<open>Every resource is in the hands of a clean-up that will still run.\<close>

definition covered :: "'d harness \<Rightarrow> bool" where
  "covered h \<longleftrightarrow> (\<forall>r \<in> set (hn_live h). (\<exists>k. r = RTempDir k \<and> RemoveDir k \<in> set (hn_tb h)) \<or>
     CloseHarness \<in> set (hn_tb h) \<and> \<not> hn_closed h \<and> (\<exists>rs \<in> set (hn_cleanups h). r \<in> set rs))"

lemma fold_run_cleanup_cleanups [simp]: "hn_cleanups (fold run_cleanup css h) = hn_cleanups h"
  by (induction css arbitrary: h) (simp_all add: run_cleanup_def)

lemma tb_cleanup_one_keeps:
  "hn_cleanups (tb_cleanup_one t h) = hn_cleanups h" "set (hn_live (tb_cleanup_one t h)) \<subseteq> set (hn_live h)"
  "t \<noteq> CloseHarness \<Longrightarrow> hn_closed (tb_cleanup_one t h) = hn_closed h"
  by (cases t; auto simp: run_cleanup_def harness_Close_def fold_run_cleanup)+

lemma fold_tb_cleanup:
  "r \<in> set (hn_live (fold tb_cleanup_one ts h)) \<Longrightarrow> r \<in> set (hn_live h) \<and> (\<forall>k. RemoveDir k \<in> set ts \<longrightarrow> r \<noteq> RTempDir k) \<and>
     (CloseHarness \<in> set ts \<longrightarrow> \<not> hn_closed h \<longrightarrow> (\<forall>rs \<in> set (hn_cleanups h). r \<notin> set rs))"
proof (induction ts arbitrary: h)
  case (Cons t ts)
  have IH: "r \<in> set (hn_live (tb_cleanup_one t h))" "\<forall>k. RemoveDir k \<in> set ts \<longrightarrow> r \<noteq> RTempDir k"
    "CloseHarness \<in> set ts \<longrightarrow> \<not> hn_closed (tb_cleanup_one t h) \<longrightarrow> (\<forall>rs \<in> set (hn_cleanups h). r \<notin> set rs)"
    using Cons.IH [of "tb_cleanup_one t h"] Cons.prems by (simp_all add: tb_cleanup_one_keeps(1))
  show ?case
  proof (cases t)
    case (RemoveDir k)
    then show ?thesis using IH by (auto simp: run_cleanup_def)
  next
    case CloseHarness
    then show ?thesis using IH by (auto simp: harness_Close_def fold_run_cleanup split: if_splits)
  qed
qed simp

lemma covered_released: "covered h \<Longrightarrow> hn_live (runCleanups h) = []"
proof -
  assume c: "covered h"
  have "r \<notin> set (hn_live (runCleanups h))" for r
  proof
    assume "r \<in> set (hn_live (runCleanups h))"
    then have "r \<in> set (hn_live h)" "\<forall>k. RemoveDir k \<in> set (hn_tb h) \<longrightarrow> r \<noteq> RTempDir k"
      "CloseHarness \<in> set (hn_tb h) \<longrightarrow> \<not> hn_closed h \<longrightarrow> (\<forall>rs \<in> set (hn_cleanups h). r \<notin> set rs)"
      using fold_tb_cleanup [of r "rev (hn_tb h)" "h\<lparr>hn_tb := []\<rparr>"] by (simp_all add: runCleanups_def)
    with c show False unfolding covered_def by blast
  qed
  then show ?thesis by (meson ex_in_conv set_empty)
qed

lemma New_covered:
  assumes "New B opts h0 = (h, Ok ())" and "fresh_harness h0"
  shows "covered h" "hn_closings h = []" "RTempDir 0 \<in> set (hn_live h)"
proof -
  obtain h1 h2 where run: "startNeverlurSide B (fold (\<lambda>opt. opt) opts defaultOptions) h1 = (h2, Ok ())" "hn_live h1 = [RTempDir 0]" "hn_cleanups h1 = []"
    "startGjallarhornSide B (fold (\<lambda>opt. opt) opts defaultOptions) h2 = (h\<lparr>hn_tb := [RemoveDir 0]\<rparr>, Ok ())"
    "hn_tb h = [RemoveDir 0, CloseHarness]" "hn_closings h = []" "\<not> hn_closed h"
    using assms by (rule New_Ok)
  show "covered h" "hn_closings h = []" "RTempDir 0 \<in> set (hn_live h)"
    using startNeverlurSide_Ok [OF run(1)] startGjallarhornSide_Ok [OF run(4)] run(2,3,5-7)
    by (auto simp: covered_def neverlur_resources_def neverlur_cleanups_def)
qed

lemma tb_TempDir_covered:
  "covered h \<Longrightarrow> covered (fst (tb_TempDir B h))" "hn_closings (fst (tb_TempDir B h)) = hn_closings h"
  "set (hn_live h) \<subseteq> set (hn_live (fst (tb_TempDir B h)))"
  by (auto simp: tb_TempDir_def covered_def)

text \<open>The harness as it is while the script runs.\<close>

definition demo_inv :: "'d demo \<Rightarrow> bool" where
  "demo_inv s \<longleftrightarrow> covered (dm_harness s) \<and> hn_closings (dm_harness s) = [] \<and> RTempDir 0 \<in> set (hn_live (dm_harness s))"

lemma fst_wbind_return: "fst (wbind r (\<lambda>_ h. (h, Ok a))) = fst r"
  by (cases r; cases "snd r") auto

lemma ClientFor_keeps:
  fixes h :: "'d harness"
  assumes "covered h" and "hn_closings h = []" and "RTempDir 0 \<in> set (hn_live h)"
  shows "covered (fst (ClientFor B u h))" "hn_closings (fst (ClientFor B u h)) = []"
    "RTempDir 0 \<in> set (hn_live (fst (ClientFor B u h)))"
proof -
  let ?P = "\<lambda>h :: 'd harness. covered h \<and> hn_closings h = [] \<and> RTempDir 0 \<in> set (hn_live h)"
  have "?P (fst (run_stages [attempt_at B s1 i, attempt_at B s2 i, tb_TempDir B, attempt_at B s3 i, attempt_at B s4 i] h))" for s1 s2 s3 s4 i
    by (rule run_stages_inv)
      (use assms(1-3) in \<open>auto simp: tb_TempDir_covered(1,2) intro: subsetD [OF tb_TempDir_covered(3)]\<close>)
  then show "covered (fst (ClientFor B u h))" "hn_closings (fst (ClientFor B u h)) = []"
    "RTempDir 0 \<in> set (hn_live (fst (ClientFor B u h)))"
    by (simp_all add: ClientFor_def Let_def fst_wbind_return del: run_stages.simps)
qed

text \<open>A stage that does not end in \<open>tb.Fatalf\<close> keeps the invariant.\<close>

definition keeps_inv :: "'d demo_stage \<Rightarrow> bool" where
  "keeps_inv f \<longleftrightarrow> (\<forall>s. demo_inv s \<longrightarrow> (\<forall>e. snd (f s) \<noteq> Err (TBFatal e)) \<longrightarrow> demo_inv (fst (f s)))"

lemma under_tb_inv:
  assumes "demo_inv (s\<lparr>dm_harness := fst r\<rparr>)" and "\<And>e. snd (under_tb r s) \<noteq> Err (TBFatal e)"
  shows "demo_inv (fst (under_tb r s))"
  using assms by (cases r; cases "snd r") (auto simp: under_tb_def)

lemma demo_inv_ClientFor: "demo_inv s \<Longrightarrow> demo_inv (s\<lparr>dm_harness := fst (ClientFor B u (dm_harness s))\<rparr>)"
  using ClientFor_keeps [of "dm_harness s" B u] by (simp add: demo_inv_def)

lemma create_clients_keeps: "keeps_inv (create_clients D)"
  unfolding keeps_inv_def
proof (intro allI impI)
  fix s :: "'a demo" assume inv: "demo_inv s" and fine: "\<forall>e. snd (create_clients D s) \<noteq> Err (TBFatal e)"
  let ?r1 = "under_tb (ClientFor (de_bring D) alice_name (dm_harness s)) s"
  have fine1: "snd ?r1 \<noteq> Err (TBFatal e)" for e
    using fine by (auto simp: create_clients_def wbind_def)
  have inv1: "demo_inv (fst ?r1)" using under_tb_inv [OF demo_inv_ClientFor [OF inv] fine1] .
  show "demo_inv (fst (create_clients D s))"
  proof (cases "snd ?r1")
    case (Ok alice)
    let ?s1 = "fst ?r1"
    let ?r2 = "under_tb (ClientFor (de_bring D) bob_name (dm_harness ?s1)) ?s1"
    have run: "create_clients D s = wbind ?r2 (\<lambda>bob s. (s\<lparr>dm_alice := Some alice, dm_bob := Some bob\<rparr>, Ok ()))"
      using Ok by (simp add: create_clients_def wbind_def)
    have fine2: "snd ?r2 \<noteq> Err (TBFatal e)" for e
      using fine unfolding run by (auto simp: wbind_def)
    have "demo_inv (fst ?r2)" using under_tb_inv [OF demo_inv_ClientFor [OF inv1] fine2] .
    then show ?thesis unfolding run by (cases ?r2; cases "snd ?r2") (auto simp: demo_inv_def)
  qed (use inv1 in \<open>auto simp: create_clients_def wbind_def\<close>)
qed

lemma on_clients_harness [simp]: "dm_harness (on_clients f s) = dm_harness s"
  by (simp add: on_clients_def split: option.split prod.split)

lemma same_harness_keeps: "(\<And>s. dm_harness (fst (f s)) = dm_harness s) \<Longrightarrow> keeps_inv f"
  by (simp add: keeps_inv_def demo_inv_def)

lemma start_clients_harness: "dm_harness (fst (start_clients D s)) = dm_harness s"
proof (cases "dm_alice s = None \<or> dm_bob s = None")
  case False
  then obtain alice bob where clients: "dm_alice s = Some alice" "dm_bob s = Some bob" by auto
  obtain a r where a: "start_client D (de_alice D) ''alice'' alice = (a, r)" by fastforce
  obtain b r' where b: "start_client D (de_bob D) ''bob'' bob = (b, r')" by fastforce
  show ?thesis using clients a b by (cases r) (simp_all add: start_clients_def)
qed (auto simp: start_clients_def split: option.splits)

lemma stages_keep:
  "keeps_inv (demo_check D name)" "keeps_inv (start_clients D)" "keeps_inv (dial D)" "keeps_inv (send_body D)"
  "keeps_inv (await_body D)"
  by (rule same_harness_keeps;
      simp add: demo_check_def dial_def send_body_def await_body_def Let_def start_clients_harness)+

lemma script_keeps: "f \<in> set (tl (demo_script D)) \<Longrightarrow> keeps_inv f"
  by (auto simp: demo_script_def create_clients_keeps stages_keep)

lemma run_stages_keeps:
  assumes "\<And>f. f \<in> set fs \<Longrightarrow> keeps_inv f" and "demo_inv s" and "\<And>e. snd (run_stages fs s) \<noteq> Err (TBFatal e)"
  shows "demo_inv (fst (run_stages fs s))"
  using assms
proof (induction fs arbitrary: s)
  case (Cons f fs)
  have fine: "snd (f s) \<noteq> Err (TBFatal e)" for e using Cons.prems(3) [of e] by (auto simp: wbind_def)
  then have inv: "demo_inv (fst (f s))" using Cons.prems(1) [of f] Cons.prems(2) by (simp add: keeps_inv_def)
  show ?case
  proof (cases "snd (f s)")
    case (Ok u)
    then have run: "run_stages (f # fs) s = run_stages fs (fst (f s))" by (simp add: wbind_def)
    show ?thesis unfolding run by (rule Cons.IH) (use Cons.prems inv run in auto)
  qed (use inv fine in \<open>auto simp: wbind_def\<close>)
qed simp

lemma demo_main_run:
  assumes "fresh_harness (dm_harness s0)" and "demo_main D s0 = (s, r)" and "\<And>e. r \<noteq> Err (TBFatal e)"
    and "\<not> is_Ok r \<Longrightarrow> \<exists>m. r = Err (LogFatal m)"
  obtains s1 where "demo_inv s1" "s = (if is_Ok r then demo_defers s1 else s1)"
proof -
  let ?new = "\<lambda>s. under_tb (New (de_bring D) [] (dm_harness s)) s"
  have script: "demo_script D = ?new # tl (demo_script D)" by (simp add: demo_script_def)
  obtain h r0 where New: "New (de_bring D) [] (dm_harness s0) = (h, r0)" by fastforce
  have main: "demo_main D s0 = wbind (wbind (?new s0) (\<lambda>_. run_stages (tl (demo_script D)))) (\<lambda>_ s. (demo_defers s, Ok ()))"
    unfolding demo_main_def by (subst script) simp
  have r0: "r0 = Ok ()"
    using assms(2-4) New unfolding main by (cases r0) (auto simp: under_tb_def wbind_def)
  then have inv: "demo_inv (s0\<lparr>dm_harness := h\<rparr>)"
    using New_covered [OF New [unfolded r0] assms(1)] by (simp add: demo_inv_def)
  have main': "demo_main D s0 = wbind (run_stages (tl (demo_script D)) (s0\<lparr>dm_harness := h\<rparr>)) (\<lambda>_ s. (demo_defers s, Ok ()))"
    unfolding main using New r0 by (simp add: under_tb_def)
  let ?r = "run_stages (tl (demo_script D)) (s0\<lparr>dm_harness := h\<rparr>)"
  have "demo_inv (fst ?r)"
  proof (rule run_stages_keeps [OF script_keeps inv])
    show "snd ?r \<noteq> Err (TBFatal e)" for e using assms(2) assms(3) [of e] unfolding main' by (auto simp: wbind_def)
  qed
  moreover have "s = (if is_Ok r then demo_defers (fst ?r) else fst ?r)"
    using assms(2) unfolding main' by (cases ?r; cases "snd ?r") auto
  ultimately show thesis by (rule that)
qed

section \<open>Properties\<close>

text \<open>
  \<open>Start\<close> is all or nothing: a client that is not connected is afterwards connected to all three services,
  or, when \<open>Start\<close> reports an error, to none; its conversation state is untouched; and \<open>Stop\<close>
  closes whatever is open and can be repeated.
\<close>

theorem Start_all_or_nothing:
  assumes "connected c = (False, False, False)" and "client_Start H E c = (c', r)"
  shows "(r = Ok () \<longrightarrow> connected c' = (True, True, True)) \<and>
    (\<forall>e. r = Err e \<longrightarrow> connected c' = (False, False, False)) \<and>
    cl_handler (sk_convo c') = cl_handler (sk_convo c) \<and>
    connected (client_Stop x) = (False, False, False) \<and> client_Stop (client_Stop x) = client_Stop x"
proof -
  have conn: "(c1, r1) = ConnectConvo (Some H) f d c0 \<Longrightarrow> cl_handler c1 = cl_handler c0 \<and>
      (r1 = Ok () \<longrightarrow> cl_conn c1 \<noteq> None) \<and> (r1 \<noteq> Ok () \<longrightarrow> cl_conn c1 = cl_conn c0)" for c1 r1 f d and c0 :: "test_client convo_client"
    by (auto simp: ConnectConvo_def Let_def split: option.splits if_splits)
  obtain cv r1 where cv: "ConnectConvo (Some H) (se_fetched E) (se_dialed E) (sk_convo c) = (cv, r1)" by fastforce
  have "connected (client_Stop x) = (False, False, False)" "client_Stop (client_Stop x) = client_Stop x"
    by (auto simp: client_Stop_def connected_def CloseConvo_def split: option.splits)
  moreover have "(r = Ok () \<longrightarrow> connected c' = (True, True, True)) \<and>
    (\<forall>e. r = Err e \<longrightarrow> connected c' = (False, False, False)) \<and> cl_handler (sk_convo c') = cl_handler (sk_convo c)"
  proof (cases "se_addFriend E \<and> se_dialing E")
    case True
    have "client_Start H E c = (case r1 of
        Ok u \<Rightarrow> (c\<lparr>sk_addFriend := True, sk_dialing := True, sk_convo := cv\<rparr>, Ok ())
      | Err e \<Rightarrow> (c\<lparr>sk_addFriend := False, sk_dialing := False, sk_convo := cv\<rparr>, Err [''Start: ConnectConvo''])
      | Panic p \<Rightarrow> (c\<lparr>sk_addFriend := True, sk_dialing := True, sk_convo := cv\<rparr>, Panic p)
      | Hang \<Rightarrow> (c\<lparr>sk_addFriend := True, sk_dialing := True, sk_convo := cv\<rparr>, Hang))"
      using True cv by (cases r1) (simp_all add: client_Start_def StartConvo_def Let_def)
    with assms conn [OF cv [symmetric]] show ?thesis by (cases r1) (auto simp: connected_def)
  next
    case False
    with assms show ?thesis by (auto simp: client_Start_def connected_def split: if_splits)
  qed
  ultimately show ?thesis by simp
qed

text \<open>
  C40. The demo cleans up exactly when it reaches its end: then every server, listener and directory is gone
  and both clients are disconnected. When one of its own checks fails, which ends it with
  \<open>log.Fatalf\<close>, nothing is cleaned up: no clean-up has run and the temporary directories, with the
  clients' keys, stay on disk.
\<close>

theorem demo_cleans_up_only_on_success:
  assumes "fresh_harness (dm_harness s0)" and "demo_main D s0 = (s, r)"
  shows "(r = Ok () \<longrightarrow> hn_live (dm_harness s) = [] \<and>
      (\<forall>c. dm_alice s = Some c \<or> dm_bob s = Some c \<longrightarrow> connected c = (False, False, False))) \<and>
    (r = Err (LogFatal m) \<longrightarrow> hn_closings (dm_harness s) = [] \<and> RTempDir 0 \<in> set (hn_live (dm_harness s)))"
proof (intro conjI impI allI)
  have stop: "connected (client_Stop c) = (False, False, False)" for c
    by (auto simp: client_Stop_def connected_def CloseConvo_def split: option.splits)
  { assume r: "r = Ok ()"
    obtain s1 where s1: "demo_inv s1" "s = demo_defers s1"
      by (rule demo_main_run [OF assms]) (use r in auto)
    then show "hn_live (dm_harness s) = []" by (simp add: demo_defers_def demo_inv_def covered_released)
    fix c assume "dm_alice s = Some c \<or> dm_bob s = Some c"
    then show "connected c = (False, False, False)" using s1(2) stop by (auto simp: demo_defers_def)
  }
  { assume r: "r = Err (LogFatal m)"
    obtain s1 where "demo_inv s1" "s = s1"
      by (rule demo_main_run [OF assms]) (use r in auto)
    then show "hn_closings (dm_harness s) = []" "RTempDir 0 \<in> set (hn_live (dm_harness s))"
      by (simp_all add: demo_inv_def)
  }
qed

text \<open>
  The harness delivers cover traffic: a client with nothing to send seals an all-zero body into the shared
  dead drop, and the peer's \<open>Replies\<close> opens it and hands it on as an empty message. So one quiet round
  before the message is queued makes the demo, which takes the first message it receives, fail with a
  body mismatch, whatever is delivered later.
\<close>

theorem cover_delivered_as_message:
  assumes "secretbox_ok H" and "tc_ConvoState a = Some sa" and "tc_ConvoState b = Some sb"
    and "hs_sessionKey sa = hs_sessionKey sb" and "hs_sessionKeyRound sa = hs_sessionKeyRound sb"
    and "hs_peer sa = hs_my sb" and "hs_sessionKeyRound sa \<le> r"
    and "tc_outQueue a = []" and "tc_recv b = []"
  shows "\<exists>a' m b'. th_Outgoing H cover r a = Ok (a', [m]) \<and> th_Replies H r [Some (EncryptedMessage m)] b = Ok b' \<and>
    tc_recv b' = [\<lparr>im_FromPeer = hs_peer sb, im_Body = [], im_Round = r\<rparr>] \<and>
    (body \<noteq> [] \<and> tc_recv b'' = tc_recv b' @ later \<longrightarrow> demo_receive body b'' = Err (LogFatal ''body mismatch''))"
proof -
  obtain k where k: "rollKeyTo H r sa = Some k" "rollKeyTo H r sb = Some k"
    using assms(4,5,7) by (simp add: rollKeyTo_def leD)
  let ?zero = "replicate SizeMessageBody 0 :: bytes"
  have "hs_Open H (SecretSeal H ?zero (name_nonce H r (hs_peer sa)) k) r sb = Some ?zero"
    using assms(1,6) k(2) by (simp add: hs_Open_def hs_nonce_name_nonce secretbox_ok_def)
  moreover have "takeWhile (\<lambda>x. x \<noteq> 0) ?zero = []" by (simp add: SizeMessageBody_def)
  ultimately show ?thesis
    using harness_seals [OF assms(1,2) k(1), of cover] assms(3,8,9)
    by (simp add: th_Replies_def try_send_def chan_cap_def demo_receive_def)
qed

section \<open>Witnesses\<close>

definition toy_start :: start_env where
  "toy_start = \<lparr>se_addFriend = True, se_dialing = True, se_fetched = None, se_dialed = None\<rparr>"

definition toy_harness_client :: harness_client where
  "toy_harness_client =
     \<lparr>sk_convo = new_client (new_test_client ''u'') ''p'', sk_addFriend = False, sk_dialing = False\<rparr>"

theorem Start_all_or_nothing_witness:
  "\<exists>c'. client_Start (th_handler toy_crypto (\<lambda>_. \<lparr>DeadDrop = [], EncryptedMessage = []\<rparr>)) toy_start toy_harness_client =
       (c', Err [''Start: ConnectConvo'']) \<and> connected c' = (False, False, False)"
proof -
  obtain c' r where run: "client_Start (th_handler toy_crypto (\<lambda>_. \<lparr>DeadDrop = [], EncryptedMessage = []\<rparr>)) toy_start toy_harness_client = (c', r)"
    by fastforce
  moreover have "r = Err [''Start: ConnectConvo'']"
    using run by (auto simp: client_Start_def StartConvo_def toy_start_def toy_harness_client_def new_client_def ConnectConvo_def Let_def)
  moreover have "connected toy_harness_client = (False, False, False)"
    by (simp add: connected_def toy_harness_client_def new_client_def)
  ultimately show ?thesis using Start_all_or_nothing [of toy_harness_client] by blast
qed

theorem cover_delivered_as_message_witness:
  "\<exists>a' m b'. th_Outgoing toy_crypto (\<lambda>_. \<lparr>DeadDrop = [], EncryptedMessage = []\<rparr>) 7 (toy_test_client ''alice'' ''bob'' []) = Ok (a', [m]) \<and>
     th_Replies toy_crypto 7 [Some (EncryptedMessage m)] (toy_test_client ''bob'' ''alice'' []) = Ok b' \<and>
     demo_receive [1] b' = Err (LogFatal ''body mismatch'')"
proof -
  let ?a = "toy_test_client ''alice'' ''bob'' []" and ?b = "toy_test_client ''bob'' ''alice'' []"
  let ?c = "\<lambda>_. \<lparr>DeadDrop = [], EncryptedMessage = []\<rparr>"
  have st: "tc_ConvoState ?a = Some (toy_seed ''alice'' ''bob'')" "tc_ConvoState ?b = Some (toy_seed ''bob'' ''alice'')"
    by (simp_all add: toy_test_client_def)
  have "\<exists>a' m b'. th_Outgoing toy_crypto ?c 7 ?a = Ok (a', [m]) \<and> th_Replies toy_crypto 7 [Some (EncryptedMessage m)] ?b = Ok b' \<and>
      tc_recv b' = [\<lparr>im_FromPeer = ''alice'', im_Body = [], im_Round = 7\<rparr>]"
    using cover_delivered_as_message [OF toy_crypto_ok st, of 7 ?c "[]"]
    by (simp add: toy_seed_def newHarnessConvoState_def toy_test_client_def)
  then show ?thesis by (force simp: demo_receive_def)
qed

definition toy_demo :: demo_env where
  "toy_demo =
     \<lparr>de_bring = toy_bring (\<lambda>_ _. True), de_handler = th_handler toy_crypto (\<lambda>_. \<lparr>DeadDrop = [], EncryptedMessage = []\<rparr>),
      de_ok = (\<lambda>_. False), de_alice = toy_start, de_bob = toy_start, de_seed = (None, 0), de_before = Pair, de_after = Pair,
      de_body = [1]\<rparr>"

definition toy_demo_start :: "unit demo" where
  "toy_demo_start = \<lparr>dm_harness = empty_harness, dm_alice = None, dm_bob = None\<rparr>"

theorem demo_cleans_up_only_on_success_witness:
  "\<exists>s. demo_main toy_demo toy_demo_start = (s, Err (LogFatal ''harness guardian binding'')) \<and>
     RTempDir 0 \<in> set (hn_live (dm_harness s))"
proof -
  obtain h where "New (de_bring toy_demo) [] empty_harness = (h, Ok ())"
    using toy_New [of "toy_bring (\<lambda>_ _. True)"] toy_bring_ok [of "\<lambda>_ _. True"] by (auto simp: toy_demo_def)
  then obtain s where run: "demo_main toy_demo toy_demo_start = (s, Err (LogFatal ''harness guardian binding''))"
    by (simp add: demo_main_def demo_script_def under_tb_def demo_check_def toy_demo_start_def) (simp add: toy_demo_def)
  have "fresh_harness (dm_harness toy_demo_start)" using empty_harness_fresh by (simp add: toy_demo_start_def)
  from demo_cleans_up_only_on_success [OF this run, of "''harness guardian binding''"] run show ?thesis by blast
qed

end
