(* ===== verification/Key_Json.thy ===== *)
theory Key_Json
  imports Convo_Config
begin

text \<open>
  The JSON methods generated for every struct of the repository (\<open>convo/convo_easyjson.go\<close> and
  \<open>mixnet/mixnet_easyjson.go\<close>). A generated codec is an encoder into documents and a decoder that
  updates its receiver; the laws of such a pair are the locale \<open>json_struct\<close>, which gives the round
  trip through the printed text once, and each generated type is an instance. Documents reach
  the methods through \<open>encoding/json\<close>, which has checked their syntax.
\<close>

section \<open>Generated code\<close>

text \<open>
  \<open>UnmarshalJSON\<close> starts a lexer on the document and decodes it into the receiver;
  \<open>MarshalJSON\<close> prints what the encoder wrote, and the writer has no error to report.
\<close>

definition UnmarshalJSON :: "(json \<Rightarrow> 'a \<Rightarrow> (config_err, 'a) outcome) \<Rightarrow> string \<Rightarrow> 'a \<Rightarrow> (config_err, 'a) outcome" where
  "UnmarshalJSON dec data v =
     (case json_parse data of None \<Rightarrow> Err JsonSyntax | Some j \<Rightarrow> dec j v)"

definition keyAddr_MarshalJSON :: "key_codec \<Rightarrow> keyAddr \<Rightarrow> string" where
  "keyAddr_MarshalJSON K v = json_print (easyjsonEncodeKeyAddr K v)"

definition keyAddr_UnmarshalJSON :: "key_codec \<Rightarrow> string \<Rightarrow> keyAddr \<Rightarrow> (config_err, keyAddr) outcome" where
  "keyAddr_UnmarshalJSON K data v = UnmarshalJSON (easyjsonDecodeKeyAddr K) data v"

definition convoV1_MarshalJSON :: "key_codec \<Rightarrow> convoV1 \<Rightarrow> string" where
  "convoV1_MarshalJSON K v = json_print (easyjsonEncodeConvoV1 K v)"

definition convoV1_UnmarshalJSON :: "key_codec \<Rightarrow> string \<Rightarrow> convoV1 \<Rightarrow> (config_err, convoV1) outcome" where
  "convoV1_UnmarshalJSON K data v = UnmarshalJSON (easyjsonDecodeConvoV1 K) data v"

subsection \<open>CoordinatorConfig\<close>

definition coordinator_member ::
    "key_codec \<Rightarrow> string \<times> json \<Rightarrow> coordinator_config \<Rightarrow> (config_err, coordinator_config) outcome" where
  "coordinator_member K m out =
     (if snd m = JNull then Ok out
      else if fst m = ''Key'' then
        (case Option.bind (dec_string (snd m)) (BytesReadable K) of
           None \<Rightarrow> Err JsonType
         | Some k \<Rightarrow> Ok (out\<lparr>cc_Key := k\<rparr>))
      else if fst m = ''Address'' then
        (case dec_string (snd m) of None \<Rightarrow> Err JsonType | Some a \<Rightarrow> Ok (out\<lparr>cc_Address := a\<rparr>))
      else Ok out)"

definition easyjsonDecodeCoordinatorConfig ::
    "key_codec \<Rightarrow> json \<Rightarrow> coordinator_config \<Rightarrow> (config_err, coordinator_config) outcome" where
  "easyjsonDecodeCoordinatorConfig K v out =
     (case v of
        JNull \<Rightarrow> Ok out
      | JObj ms \<Rightarrow> ofold (coordinator_member K) ms out
      | _ \<Rightarrow> Err JsonType)"

definition easyjsonEncodeCoordinatorConfig :: "key_codec \<Rightarrow> coordinator_config \<Rightarrow> json" where
  "easyjsonEncodeCoordinatorConfig K c =
     JObj [(''Key'', JStr (Base32Bytes K (cc_Key c))), (''Address'', JStr (cc_Address c))]"

definition coordinator_MarshalJSON :: "key_codec \<Rightarrow> coordinator_config \<Rightarrow> string" where
  "coordinator_MarshalJSON K v = json_print (easyjsonEncodeCoordinatorConfig K v)"

definition coordinator_UnmarshalJSON ::
    "key_codec \<Rightarrow> string \<Rightarrow> coordinator_config \<Rightarrow> (config_err, coordinator_config) outcome" where
  "coordinator_UnmarshalJSON K data v = UnmarshalJSON (easyjsonDecodeCoordinatorConfig K) data v"

subsection \<open>PublicServerConfig\<close>

definition server_member ::
    "key_codec \<Rightarrow> string \<times> json \<Rightarrow> public_server_config \<Rightarrow> (config_err, public_server_config) outcome" where
  "server_member K m out =
     (if snd m = JNull then Ok out
      else if fst m = ''Key'' then
        (case Option.bind (dec_string (snd m)) (BytesReadable K) of
           None \<Rightarrow> Err JsonType
         | Some k \<Rightarrow> Ok (out\<lparr>Key := k\<rparr>))
      else if fst m = ''Address'' then
        (case dec_string (snd m) of None \<Rightarrow> Err JsonType | Some a \<Rightarrow> Ok (out\<lparr>Address := a\<rparr>))
      else Ok out)"

definition easyjsonDecodePublicServerConfig ::
    "key_codec \<Rightarrow> json \<Rightarrow> public_server_config \<Rightarrow> (config_err, public_server_config) outcome" where
  "easyjsonDecodePublicServerConfig K v out =
     (case v of
        JNull \<Rightarrow> Ok out
      | JObj ms \<Rightarrow> ofold (server_member K) ms out
      | _ \<Rightarrow> Err JsonType)"

definition easyjsonEncodePublicServerConfig :: "key_codec \<Rightarrow> public_server_config \<Rightarrow> json" where
  "easyjsonEncodePublicServerConfig K srv =
     JObj [(''Key'', JStr (Base32Bytes K (Key srv))), (''Address'', JStr (Address srv))]"

definition server_MarshalJSON :: "key_codec \<Rightarrow> public_server_config \<Rightarrow> string" where
  "server_MarshalJSON K v = json_print (easyjsonEncodePublicServerConfig K v)"

definition server_UnmarshalJSON ::
    "key_codec \<Rightarrow> string \<Rightarrow> public_server_config \<Rightarrow> (config_err, public_server_config) outcome" where
  "server_UnmarshalJSON K data v = UnmarshalJSON (easyjsonDecodePublicServerConfig K) data v"

section \<open>The contract of a generated codec\<close>

locale json_struct =
  fixes enc :: "'a \<Rightarrow> json" and dec :: "json \<Rightarrow> 'a \<Rightarrow> (config_err, 'a) outcome" and wf :: "'a \<Rightarrow> bool"
  assumes enc_ok: "json_ok (enc v)"
    and dec_enc: "wf v \<Longrightarrow> dec (enc v) v0 = Ok v"
    and dec_null: "dec JNull v0 = Ok v0"
begin

lemma reads_back: "wf v \<Longrightarrow> UnmarshalJSON dec (json_print (enc v)) v0 = Ok v"
  using json_parse_print [OF enc_ok, of "[]" v] by (simp add: UnmarshalJSON_def dec_enc)

lemma reads_back_indented: "wf v \<Longrightarrow> UnmarshalJSON dec (json_indent (enc v)) v0 = Ok v"
  using json_parse_indent [OF enc_ok, of "[]" v] by (simp add: UnmarshalJSON_def dec_enc)

lemma print_injective:
  assumes "wf v" and "wf w" and "json_print (enc v) = json_print (enc w)"
  shows "v = w"
proof -
  have "Ok v = UnmarshalJSON dec (json_print (enc w)) v" using reads_back [OF assms(1), of v] assms(3) by (simp only:)
  also have "\<dots> = Ok w" by (rule reads_back [OF assms(2)])
  finally show ?thesis by simp
qed

lemma null_keeps: "UnmarshalJSON dec (json_print JNull) v0 = Ok v0"
  using json_parse_print [of JNull "[]"] by (simp add: UnmarshalJSON_def dec_null)

end

section \<open>Instances\<close>

text \<open>
  A decoder that behaves like the one of \<open>keyAddr\<close> up to a change of the record: the three structs of
  a key and an address read the same documents.
\<close>

definition omap_ok :: "('a \<Rightarrow> 'b) \<Rightarrow> ('e, 'a) outcome \<Rightarrow> ('e, 'b) outcome" where
  "omap_ok f r = obind r (\<lambda>a. Ok (f a))"

lemma ofold_simulation:
  assumes "\<And>x s. g x (h s) = omap_ok h (f x s)"
  shows "ofold g xs (h s) = omap_ok h (ofold f xs s)"
proof (induction xs arbitrary: s)
  case (Cons x xs)
  show ?case by (cases "f x s") (simp_all add: assms Cons.IH omap_ok_def Cons.IH [unfolded omap_ok_def])
qed (simp add: omap_ok_def)

definition coordinator_of :: "keyAddr \<Rightarrow> coordinator_config" where
  "coordinator_of ka = \<lparr>cc_Key = ka_Key ka, cc_Address = ka_Address ka\<rparr>"

definition server_of :: "keyAddr \<Rightarrow> public_server_config" where
  "server_of ka = \<lparr>Key = ka_Key ka, Address = ka_Address ka\<rparr>"

lemma coordinator_of_surj: "\<exists>ka. c = coordinator_of ka"
  by (intro exI [of _ "\<lparr>ka_Key = cc_Key c, ka_Address = cc_Address c\<rparr>"]) (simp add: coordinator_of_def)

lemma server_of_surj: "\<exists>ka. c = server_of ka"
  by (intro exI [of _ "\<lparr>ka_Key = Key c, ka_Address = Address c\<rparr>"]) (simp add: server_of_def)

lemma coordinator_member_sim: "coordinator_member K m (coordinator_of ka) = omap_ok coordinator_of (keyAddr_member K m ka)"
  by (simp add: coordinator_member_def keyAddr_member_def omap_ok_def coordinator_of_def split: option.split)

lemma server_member_sim: "server_member K m (server_of ka) = omap_ok server_of (keyAddr_member K m ka)"
  by (simp add: server_member_def keyAddr_member_def omap_ok_def server_of_def split: option.split)

lemma decode_coordinator_sim:
  "easyjsonDecodeCoordinatorConfig K v (coordinator_of ka) = omap_ok coordinator_of (easyjsonDecodeKeyAddr K v ka)"
  by (cases v) (simp_all add: easyjsonDecodeCoordinatorConfig_def easyjsonDecodeKeyAddr_def
      ofold_simulation [where h = coordinator_of and f = "keyAddr_member K", OF coordinator_member_sim] omap_ok_def)

lemma decode_server_sim:
  "easyjsonDecodePublicServerConfig K v (server_of ka) = omap_ok server_of (easyjsonDecodeKeyAddr K v ka)"
  by (cases v) (simp_all add: easyjsonDecodePublicServerConfig_def easyjsonDecodeKeyAddr_def
      ofold_simulation [where h = server_of and f = "keyAddr_member K", OF server_member_sim] omap_ok_def)

lemma encode_coordinator_of: "easyjsonEncodeCoordinatorConfig K (coordinator_of ka) = easyjsonEncodeKeyAddr K ka"
  by (simp add: easyjsonEncodeCoordinatorConfig_def easyjsonEncodeKeyAddr_def coordinator_of_def)

lemma encode_server_of: "easyjsonEncodePublicServerConfig K (server_of ka) = easyjsonEncodeKeyAddr K ka"
  by (simp add: easyjsonEncodePublicServerConfig_def easyjsonEncodeKeyAddr_def server_of_def)

text \<open>
  A key that is written must not be empty; a version is a 64-bit integer, and a nil list of mix
  servers is written as null, which a decoder skips.
\<close>

definition convoV1_wf :: "convoV1 \<Rightarrow> bool" where
  "convoV1_wf c1 \<longleftrightarrow> - (2 ^ 63) \<le> v1_Version c1 \<and> v1_Version c1 < 2 ^ 63 \<and> ka_Key (v1_Coordinator c1) \<noteq> [] \<and>
     (case v1_MixServers c1 of None \<Rightarrow> False | Some srvs \<Rightarrow> list_all (\<lambda>ka. ka_Key ka \<noteq> []) srvs)"

lemma decode_encode_convoV1_any:
  assumes "key_codec_ok K" and "convoV1_wf c1"
  shows "easyjsonDecodeConvoV1 K (easyjsonEncodeConvoV1 K c1) c0 = Ok c1"
proof -
  obtain srvs where s: "v1_MixServers c1 = Some srvs" "list_all (\<lambda>ka. ka_Key ka \<noteq> []) srvs"
    using assms(2) by (auto simp: convoV1_wf_def split: option.splits)
  have "omap (\<lambda>v. easyjsonDecodeKeyAddr K v empty_keyAddr) (map (easyjsonEncodeKeyAddr K) srvs) = Ok srvs"
    using assms(1) s(2)
    by (auto simp: omap_Ok_iff list_all2_conv_all_nth list_all_length decode_encode_keyAddr)
  then show ?thesis
    using assms s(1)
    by (simp add: easyjsonDecodeConvoV1_def easyjsonEncodeConvoV1_def convoV1_member_def dec_int_print
        decode_encode_keyAddr convoV1_wf_def)
qed


lemma decode_null:
  "easyjsonDecodeKeyAddr K JNull ka = Ok ka" "easyjsonDecodeConvoV1 K JNull c1 = Ok c1"
  "easyjsonDecodeCoordinatorConfig K JNull c = Ok c" "easyjsonDecodePublicServerConfig K JNull srv = Ok srv"
  by (simp_all add: easyjsonDecodeKeyAddr_def easyjsonDecodeConvoV1_def easyjsonDecodeCoordinatorConfig_def
      easyjsonDecodePublicServerConfig_def)

definition key_ok :: "key_codec \<Rightarrow> bytes \<Rightarrow> bool" where
  "key_ok K k \<longleftrightarrow> key_codec_ok K \<and> k \<noteq> []"

interpretation keyAddr_json: json_struct "easyjsonEncodeKeyAddr K" "easyjsonDecodeKeyAddr K" "\<lambda>v. key_ok K (ka_Key v)"
  for K
  by unfold_locales (auto simp: key_ok_def decode_encode_keyAddr json_ok_keyAddr decode_null)

interpretation convoV1_json: json_struct "easyjsonEncodeConvoV1 K" "easyjsonDecodeConvoV1 K"
    "\<lambda>v. key_codec_ok K \<and> convoV1_wf v"
  for K
  by unfold_locales (auto simp: decode_encode_convoV1_any json_ok_convoV1 decode_null)

interpretation coordinator_json: json_struct "easyjsonEncodeCoordinatorConfig K" "easyjsonDecodeCoordinatorConfig K"
    "\<lambda>v. key_ok K (cc_Key v)"
  for K
proof unfold_locales
  fix v v0 :: coordinator_config
  obtain ka ka0 where [simp]: "v = coordinator_of ka" "v0 = coordinator_of ka0" using coordinator_of_surj by metis
  show "json_ok (easyjsonEncodeCoordinatorConfig K v)" by (simp add: encode_coordinator_of json_ok_keyAddr)
  show "easyjsonDecodeCoordinatorConfig K (easyjsonEncodeCoordinatorConfig K v) v0 = Ok v" if "key_ok K (cc_Key v)"
    using that keyAddr_json.dec_enc [of K ka ka0]
    by (simp add: encode_coordinator_of decode_coordinator_sim omap_ok_def) (simp add: coordinator_of_def)
qed (simp add: decode_null)

interpretation server_json: json_struct "easyjsonEncodePublicServerConfig K" "easyjsonDecodePublicServerConfig K"
    "\<lambda>v. key_ok K (Key v)"
  for K
proof unfold_locales
  fix v v0 :: public_server_config
  obtain ka ka0 where [simp]: "v = server_of ka" "v0 = server_of ka0" using server_of_surj by metis
  show "json_ok (easyjsonEncodePublicServerConfig K v)" by (simp add: encode_server_of json_ok_keyAddr)
  show "easyjsonDecodePublicServerConfig K (easyjsonEncodePublicServerConfig K v) v0 = Ok v" if "key_ok K (Key v)"
    using that keyAddr_json.dec_enc [of K ka ka0]
    by (simp add: encode_server_of decode_server_sim omap_ok_def) (simp add: server_of_def)
qed (simp add: decode_null)

section \<open>Properties\<close>



end
