(* ===== verification/Spec2Isabelle.thy ===== *)
theory Spec2Isabelle
  imports Convo_Exchange Conversation_Live Gui_Run Demo Key_Json
begin

text \<open>
  Verification of \<open>gjallarhorn\<close>, a system for private conversations: clients send a fixed number of
  onions per round to a coordinator, which hands them to a chain of mix servers; the last server
  exchanges messages that meet in a dead drop, and the replies travel back the same way.

  \<^bold>\<open>Parts and their theories.\<close>

  \<^item> \<open>Prelude\<close>, \<open>Json\<close>: what the code uses of Go: machine words, the outcome of a call (\<open>Ok\<close>, \<open>Err\<close>, \<open>Panic\<close>,
    \<open>Hang\<close>), \<open>copy\<close> and slices, \<open>encoding/binary\<close>, \<open>strconv\<close>, \<open>encoding/json\<close>.
  \<^item> \<open>Mixnet_Types\<close> (\<open>mixnet/settings.go\<close>, nonces), \<open>Mix_Server\<close> and \<open>Mix_Rounds\<close> (the server half of
    \<open>mixnet/mixnet.go\<close>): a \<open>server\<close> record with its rounds, one definition per RPC (\<open>newRound\<close>,
    \<open>setRoundSettings\<close>, \<open>addOnions\<close>, \<open>closeRound\<close>, \<open>getOnions\<close>, \<open>deleteRound\<close>), the workers, the filter,
    the encryption of replies, and all of them as one step relation.
  \<^item> \<open>Mix_Client\<close>, \<open>Mix_Chain\<close> (the client half of \<open>mixnet.go\<close>): calls over a network of modelled servers, and
    a round through the whole chain.
  \<^item> \<open>Convo_Service\<close> (\<open>convo/mixer.go\<close>, \<open>convo/noise.go\<close>): the service of the chain.
  \<^item> \<open>Convo_Config\<close> (\<open>convo/config.go\<close>), \<open>Key_Json\<close> (\<open>convo_easyjson.go\<close>, \<open>mixnet_easyjson.go\<close>): the versioned
    configuration and the generated JSON methods.
  \<^item> \<open>Atomic_File\<close> (\<open>internal/ioutil2\<close>): \<open>WriteFileAtomic\<close> with every state a crash can leave.
  \<^item> \<open>Coordinator\<close>, \<open>Coordinator_Rounds\<close> (\<open>coordinator/server.go\<close>, \<open>persist.go\<close>): the loop that fires rounds
    and its goroutines as a step relation \<open>co_step\<close>, onions, announcements, mixing, persistence.
  \<^item> \<open>Convo_Client\<close> (\<open>client.go\<close>, \<open>persist.go\<close>): the client of the conversation protocol, generic in the
    interface \<open>ConvoHandler\<close>.
  \<^item> \<open>Conversation\<close>, \<open>Conversation_Live\<close> (\<open>cmd/gjallarhorn-client/conversation.go\<close>): one conversation, its
    messages, queues, keys and round agreement; one direction of two of them as the step relation \<open>link_step\<close>.
  \<^item> \<open>Gui_Client\<close>, \<open>Gui_Rounds\<close>, \<open>Gui_Connect\<close>, \<open>Gui_Commands\<close>, \<open>Gui_Run\<close> (\<open>gui.go\<close>, \<open>alpenhorn.go\<close>,
    \<open>connect.go\<close>, \<open>notify.go\<close>, \<open>commands.go\<close>, \<open>main.go\<close>): the user's client, conversations as pointers
    into a heap, windows, commands, keys, and what it loads or generates on start-up.
  \<^item> \<open>Programs\<close> (\<open>cmd/gjallarhorn-mixer\<close>, \<open>cmd/gjallarhorn-coordinator\<close>, \<open>cmd/cmdconf\<close>, \<open>internal/vzlog\<close>): the
    server programs, from an empty disk to a running server.
  \<^item> \<open>Harness\<close>, \<open>Harness_Setup\<close>, \<open>Demo\<close> (\<open>internal/testharness\<close>, \<open>internal/mock\<close>,
    \<open>cmd/gjallarhorn-conversation-demo\<close>): the second implementation of the conversation protocol, the
    bring-up and tear-down of a whole system, and the demo.
  \<^item> \<open>Convo_Exchange\<close> and this theory: what the components achieve together.

  \<^bold>\<open>Interfaces.\<close> \<open>bidirectional_service\<close> is what a chain relies on in its service, and \<open>ConvoService\<close> is shown to
  be one; \<open>round_runner\<close> is what the coordinator relies on in the mix network; \<open>convo_endpoint\<close> is what
  the client relies on in its \<open>ConvoHandler\<close>, and both the user's client (\<open>gui_end\<close>) and the harness
  (\<open>harness_end\<close>) are; \<open>json_struct\<close> gives every generated codec its round trip; \<open>server_program\<close> is what
  the two server programs share: a start reads its files and changes none.

  \<^bold>\<open>What is shown.\<close>

  \<^item> Exchange: a round through any number of servers gives each of two clients what the other sent
    (\<open>clients_exchange\<close>, \<open>convo_round_exchange\<close>, \<open>HandleMessages_exchange\<close>, \<open>mixOnions_delivery\<close>), and a call
    makes two clients meet (\<open>calls_meet\<close>).
  \<^item> Server: signatures only over stored settings, authentication, duplicate filter, uniform replies,
    order of the workers irrelevant (\<open>Mix_Rounds\<close>, \<open>Mix_Client\<close>).
  \<^item> Coordinator: rounds in flight, final batches, restarts, persistence (\<open>Coordinator_Rounds\<close>).
  \<^item> Conversation: over a network that loses, repeats and reorders, texts are displayed in order and
    once (\<open>delivery_exactly_once\<close>); every step refines a first-in first-out channel
    (\<open>conversation_refines_channel\<close>); a bounded number of rounds without loss delivers all (\<open>delivery_live\<close>).
  \<^item> User's client: an invariant of every reachable state, from which neither lines, rounds, calls nor keys
    crash it, five messages a round, replies reach their conversation (\<open>Gui_Rounds\<close>, \<open>Gui_Commands\<close>, \<open>Gui_Run\<close>).
  \<^item> Deployment: initialised servers start, a first start pins the configuration, files are replaced
    atomically, codecs are inverse (\<open>Programs\<close>, \<open>Gui_Run\<close>, \<open>Atomic_File\<close>, \<open>Key_Json\<close>).
  \<^item> Harness: it agrees with the client (\<open>harness_matches_client\<close>), its universe is consistent, and what
    it and the demo leave behind (\<open>Harness_Setup\<close>, \<open>Demo\<close>).
  \<^item> Places where the code does not do what it means to are theorems too: sums that wrap
    (\<open>addOnions_guard_wraps\<close>, \<open>getOnions_range_wraps\<close>, \<open>prune_rounds_window\<close>), crashes on short announcements
    (\<open>short_signatures_crash\<close>), round numbers used twice (\<open>restart_reuses_rounds\<close>), leaks (\<open>failed_New_leaks\<close>).

  \<^bold>\<open>Conventions.\<close> Rounds, sizes and sequence numbers are 32-bit words. An operation on shared state takes the
  state and returns it with an outcome; a panic and a call that blocks for ever are outcomes. A handler of a
  server is one step: its goroutines run to completion where they are spawned when their readers wait for them;
  otherwise (workers, the loop of the coordinator) they are steps of their own. Calls of one server on the next
  recurse on fuel, one unit per hop: \<open>length hops\<close> is proved enough. The JSON
  parser has as fuel the length of its input, of which every call consumes a part, and reads back all that is
  printed. The loops \<open>take_run\<close> and \<open>roll_loop\<close> terminate by a measure. The polls of \<open>WaitForConvoRound\<close> are an explicit list.

  \<^bold>\<open>Parameters.\<close> Code of other modules is an argument with its documented behaviour as a hypothesis: \<open>nacl/box\<close>,
  \<open>secretbox\<close>, hashes, Ed25519, \<open>onionbox\<close>, the shuffler, random draws, the TOML and key encodings, typesocket,
  gRPC and TLS (a call carries the keys of its peer), the configuration client, \<open>gocui\<close>, and the friends protocol
  \<open>neverlur\<close>. Each property with such a hypothesis has a witness with a concrete instance.

  \<^bold>\<open>Not modelled.\<close> The RPC code generated by \<open>protoc\<close> (\<open>mixnet/convopb\<close>), which only moves messages; tests; logging
  and instrumentation; flag parsing; memory and timing, except the deadlines the code tests. Two calls on the
  same round are ordered as wholes: races inside one handler are out of reach of the step relation.
\<close>

text \<open>
  C7. A whole conversation round through a chain of servers: when two onions of the batch
  survive the duplicate filters of every hop and their messages are the only two for their dead
  drop, the coordinator's \<open>RunRoundBidirectional\<close> returns, with fuel for as many
  calls as the chain has servers, one reply per onion, and the reply of each of the two unwraps
  under the keys its own onion met to the encrypted body the other one sent.
\<close>

theorem convo_round_exchange:
  assumes env: "spans_ok (Spans E)" "box_roundtrip (Nacl E)" "box_length (Nacl E)"
    "shuffle_ok (NewShuffler E)" "\<forall>s n. Conns E s n = None"
    and hops: "ready_hops E net (ConvoService C) service r ch 0 hops" "hops \<noteq> []" "length hops \<le> fuel"
    and size: "length onions + hops_size hops < 2 ^ 32"
    and coord: "net (fst (hd hops)) = Some srv" "ctx = Some (TLSInfo [Ed25519Key (CoordinatorKey srv)])"
    and i: "i < length onions" "survives E r hops onions i"
      "onion_path (Nacl E) r hops (onions ! i) = Some (ki, mi)"
    and j: "j < length onions" "survives E r hops onions j"
      "onion_path (Nacl E) r hops (onions ! j) = Some (kj, mj)"
    and meet: "mi \<noteq> mj" "take 16 mi = take 16 mj"
      "list_all (\<lambda>m. take 16 m = take 16 mi \<longrightarrow> m = mi \<or> m = mj) (chain_batch E r hops onions)"
  shows "\<exists>net' rs. RunRoundBidirectional E (closeRound fuel E) net ctx (ch ! 0) service r onions =
      (net', Ok (map Some rs)) \<and> length rs = length onions \<and>
    unwrap (Nacl E) r ki (rs ! i) = Some (drop 16 mj) \<and>
    unwrap (Nacl E) r kj (rs ! j) = Some (drop 16 mi)"
  using round_exchange [OF env hops size coord i j meet] by blast

theorem convo_round_exchange_witness:
  "\<exists>net' rs. RunRoundBidirectional toy_env (closeRound 1 toy_env) [toy_key \<mapsto> meet_server] toy_ctx
      \<lparr>Key = toy_key, Address = ''a''\<rparr> ''Convo'' 7 [meet_onion 1, meet_onion 2] = (net', Ok (map Some rs)) \<and>
    unwrap toy_nacl 7 [replicate 32 7] (rs ! 0) = Some (replicate 256 2) \<and>
    unwrap toy_nacl 7 [replicate 32 7] (rs ! 1) = Some (replicate 256 1)"
proof -
  let ?hops = "[(toy_key, meet_round)]" and ?os = "[meet_onion 1, meet_onion 2]"
  let ?ch = "[\<lparr>Key = toy_key, Address = ''a''\<rparr>]" and ?net = "[toy_key \<mapsto> meet_server]"
  have E: "Nacl toy_env = toy_nacl" "Spans toy_env = unit_spans" "Conns toy_env = (\<lambda>_ _. None)"
    by (simp_all add: toy_env_def)
  have ready: "ready_hops toy_env ?net (ConvoService meet_env) ''Convo'' 7 ?ch 0 ?hops"
    by (simp add: E meet_server_def toy_server_def ready_round_def meet_round_def new_round_state_def)
      (simp add: toy_nacl_def ConvoService_def)
  have noise: "noise meet_round = []" by (simp add: meet_round_def new_round_state_def)
  have surv: "survives toy_env 7 ?hops ?os 0" "survives toy_env 7 ?hops ?os 1"
    by (simp_all add: E is_dup_def meet_hop meet_tail)
  have path: "onion_path toy_nacl 7 ?hops (meet_onion b) = Some ([replicate 32 7], meet_msg b)" for b
    by (simp add: meet_hop)
  have batch: "chain_batch toy_env 7 ?hops ?os = [meet_msg 1, meet_msg 2]"
    by (simp add: meet_kept noise)
  have msgs: "meet_msg 1 \<noteq> meet_msg 2" "take 16 (meet_msg 1) = take 16 (meet_msg 2)"
    "drop 16 (meet_msg b) = replicate 256 b" for b
    by (simp_all add: meet_msg_def)
  show ?thesis
    using convo_round_exchange [of toy_env ?net meet_env "''Convo''" 7 ?ch ?hops 1 ?os meet_server toy_ctx
        0 "[replicate 32 7]" "meet_msg 1" 1 "[replicate 32 7]" "meet_msg 2"]
      toy_nacl_ok unit_spans_ok toy_shuffle_ok ready surv path batch msgs noise
    by (auto simp: E hops_size_def meet_server_def toy_server_def toy_ctx_def)
qed

text \<open>
  C1. Two clients talk to each other through the whole system: both take part in the same round with
  messages for the same dead drop that nobody else uses, and their onions are part of the batch the
  coordinator mixes. Then mixing succeeds, each of the two is sent one reply message, and opening
  that reply hands its handler the encrypted body the other client sent, in the place of the
  message it was sent for.
\<close>

theorem clients_exchange:
  assumes env: "spans_ok (Spans E)" "box_roundtrip (Nacl E)" "box_length (Nacl E)"
    "shuffle_ok (NewShuffler E)" "\<forall>s n. Conns E s n = None"
    and hops: "ready_hops E net (ConvoService C) (co_Service co) r ch 0 hops" "hops \<noteq> []" "length hops \<le> fuel"
    and size: "length (concat (map ob_onions out)) + hops_size hops < 2 ^ 32"
    and coord: "net (fst (hd hops)) = Some srv" "ctx = Some (TLSInfo [Ed25519Key (CoordinatorKey srv)])"
    and A: "joins E enc hops ch r out p XA HA cA vA msA cA'" "x < length msA"
      "survives E r hops (concat (map ob_onions out)) (slot out p x)"
    and B: "joins E enc hops ch r out q XB HB cB vB msB cB'" "y < length msB"
      "survives E r hops (concat (map ob_onions out)) (slot out q y)"
    and sizes: "length (DeadDrop (msA ! x)) = 16" "length (EncryptedMessage (msA ! x)) = SizeEncryptedMessageBody"
      "length (DeadDrop (msB ! y)) = 16" "length (EncryptedMessage (msB ! y)) = SizeEncryptedMessageBody"
    and meet: "DeadDrop (msA ! x) = DeadDrop (msB ! y)" "EncryptedMessage (msA ! x) \<noteq> EncryptedMessage (msB ! y)"
      "list_all (\<lambda>m. take 16 m = DeadDrop (msA ! x) \<longrightarrow> m = ddm_Marshal (msA ! x) \<or> m = ddm_Marshal (msB ! y))
         (chain_batch E r hops (concat (map ob_onions out)))"
  shows "\<exists>net' co' repA repB hA hB bodiesA bodiesB.
    mixOnions E (closeRound fuel E) ctx (ch ! 0) r out net co = (net', Ok co') \<and>
    (ToConn (ob_sender (out ! p)), MReply repA) \<in> set (co_outbox co') \<and>
    (ToConn (ob_sender (out ! q)), MReply repB) \<in> set (co_outbox co') \<and>
    openReplyOnion XA HA repA cA' = obind (hd_Replies HA r bodiesA hA)
      (\<lambda>h'. Ok (delete_round r (cA'\<lparr>cl_handler := h'\<rparr>))) \<and>
    openReplyOnion XB HB repB cB' = obind (hd_Replies HB r bodiesB hB)
      (\<lambda>h'. Ok (delete_round r (cB'\<lparr>cl_handler := h'\<rparr>))) \<and>
    length bodiesA = length msA \<and> bodiesA ! x = Some (EncryptedMessage (msB ! y)) \<and>
    length bodiesB = length msB \<and> bodiesB ! y = Some (EncryptedMessage (msA ! x))"
proof -
  let ?os = "concat (map ob_onions out)" and ?a = "msA ! x" and ?b = "msB ! y"
  let ?i = "slot out p x" and ?j = "slot out q y"
  have mA: "ddm_Marshal ?a = DeadDrop ?a @ EncryptedMessage ?a" using sizes by (intro ddm_Marshal_append)
  have mB: "ddm_Marshal ?b = DeadDrop ?b @ EncryptedMessage ?b" using sizes by (intro ddm_Marshal_append)
  have lA: "length (ddm_Marshal ?a) = sizeDeadDropMessage" using mA sizes by (simp add: convo_sizes)
  have lB: "length (ddm_Marshal ?b) = sizeDeadDropMessage" using mB sizes by (simp add: convo_sizes)
  from joined_onion [OF A(1,2) lA] obtain kA where iA: "?i < length ?os" "?os ! ?i = ob_onions (out ! p) ! x"
    "onion_path (Nacl E) r hops (?os ! ?i) = Some (kA, ddm_Marshal ?a)" by auto
  from joined_onion [OF B(1,2) lB] obtain kB where iB: "?j < length ?os" "?os ! ?j = ob_onions (out ! q) ! y"
    "onion_path (Nacl E) r hops (?os ! ?j) = Some (kB, ddm_Marshal ?b)" by auto
  have meet': "ddm_Marshal ?a \<noteq> ddm_Marshal ?b" "take 16 (ddm_Marshal ?a) = take 16 (ddm_Marshal ?b)"
    "list_all (\<lambda>m. take 16 m = take 16 (ddm_Marshal ?a) \<longrightarrow> m = ddm_Marshal ?a \<or> m = ddm_Marshal ?b) (chain_batch E r hops ?os)"
    using meet sizes unfolding mA mB by simp_all
  from round_exchange [OF env hops size coord iA(1) A(3) iA(3) iB(1) B(3) iB(3) meet']
  obtain net' rs where run: "RunRoundBidirectional E (closeRound fuel E) net ctx (ch ! 0) (co_Service co) r ?os =
      (net', Ok (map Some rs))" "\<forall>c \<in> set rs. length c = SizeEncryptedMessageBody + length ch * box_Overhead"
    "unwrap (Nacl E) r kA (rs ! ?i) = Some (EncryptedMessage ?b)" "unwrap (Nacl E) r kB (rs ! ?j) = Some (EncryptedMessage ?a)"
    unfolding mA mB using sizes by auto
  from mixOnions_Ok [OF run(1)] obtain co' parts where mix: "mixOnions E (closeRound fuel E) ctx (ch ! 0) r out net co = (net', Ok co')"
    "concat parts = map Some rs" "map length parts = map (\<lambda>b. length (ob_onions b)) out"
    "co_outbox co' = co_outbox co @ map2 (\<lambda>b part. (ToConn (ob_sender b), MReply \<lparr>om_Round = r, om_Onions = map reply_bytes part\<rparr>)) out parts"
    by blast
  let ?rep = "\<lambda>p. \<lparr>om_Round = r, om_Onions = map reply_bytes (parts ! p)\<rparr>"
  have pA: "p < length out" "x < length (ob_onions (out ! p))" "length (ob_onions (out ! p)) = length msA"
    using A(1,2) by (auto elim!: joins_state)
  have pB: "q < length out" "y < length (ob_onions (out ! q))" "length (ob_onions (out ! q)) = length msB"
    using B(1,2) by (auto elim!: joins_state)
  note partA = part_of_slot [OF mix(2,3) pA(1,2)] and partB = part_of_slot [OF mix(2,3) pB(1,2)]
  have "length parts = length out" using mix(3) by (metis length_map)
  then have sent: "(ToConn (ob_sender (out ! s)), MReply (?rep s)) \<in> set (co_outbox co')" if "s < length out" for s
    using that mix(4) by (force simp: in_set_zip)
  have len: "\<forall>b \<in> set (map reply_bytes (parts ! s)). length b = SizeEncryptedMessageBody + length ch * box_Overhead"
    if "set (map reply_bytes (parts ! s)) \<subseteq> set rs" for s
    using that run(2) by blast
  obtain hA bodiesA where a: "openReplyOnion XA HA (?rep p) cA' = obind (hd_Replies HA r bodiesA hA)
      (\<lambda>h'. Ok (delete_round r (cA'\<lparr>cl_handler := h'\<rparr>)))" "length bodiesA = length msA" "bodiesA ! x = Some (EncryptedMessage ?b)"
    using joined_reply [OF A(1) _ len [OF conjunct2 [OF conjunct2 [OF conjunct2 [OF partA]]]] A(2) lA iA(3) [unfolded iA(2)], of "EncryptedMessage ?b"] partA run(3) pA(1,3) by auto
  obtain hB bodiesB where b: "openReplyOnion XB HB (?rep q) cB' = obind (hd_Replies HB r bodiesB hB)
      (\<lambda>h'. Ok (delete_round r (cB'\<lparr>cl_handler := h'\<rparr>)))" "length bodiesB = length msB" "bodiesB ! y = Some (EncryptedMessage ?a)"
    using joined_reply [OF B(1) _ len [OF conjunct2 [OF conjunct2 [OF conjunct2 [OF partB]]]] B(2) lB iB(3) [unfolded iB(2)], of "EncryptedMessage ?a"] partB run(4) pB(1,3) by auto
  show ?thesis using mix(1) sent [OF pA(1)] sent [OF pB(1)] a b by blast
qed

theorem clients_exchange_witness:
  "\<exists>net' co' (cA' :: unit convo_client) repA repB hA bodiesA.
    mixOnions toy_env (closeRound 1 toy_env) toy_ctx \<lparr>Key = toy_key, Address = ''a''\<rparr> 7
      [\<lparr>ob_sender = 1, ob_onions = [meet_onion 1]\<rparr>, \<lparr>ob_sender = 2, ob_onions = [meet_onion 2]\<rparr>]
      [toy_key \<mapsto> meet_server] toy_coordinator = (net', Ok co') \<and>
    (ToConn 1, MReply repA) \<in> set (co_outbox co') \<and> (ToConn 2, MReply repB) \<in> set (co_outbox co') \<and>
    openReplyOnion meet_box (meet_handler 1) repA cA' = obind (hd_Replies (meet_handler 1) 7 bodiesA hA)
      (\<lambda>h'. Ok (delete_round 7 (cA'\<lparr>cl_handler := h'\<rparr>))) \<and>
    bodiesA ! 0 = Some (replicate 256 2)"
proof -
  let ?hops = "[(toy_key, meet_round)]" and ?os = "[meet_onion 1, meet_onion 2]"
  let ?ch = "[\<lparr>Key = toy_key, Address = ''a''\<rparr>]" and ?net = "[toy_key \<mapsto> meet_server]"
  let ?out = "[\<lparr>ob_sender = 1, ob_onions = [meet_onion 1]\<rparr>, \<lparr>ob_sender = 2, ob_onions = [meet_onion 2]\<rparr>]"
  let ?m = "\<lambda>b. \<lparr>DeadDrop = replicate 16 5, EncryptedMessage = replicate 256 b\<rparr>"
  have E: "Nacl toy_env = toy_nacl" "Spans toy_env = unit_spans" "Conns toy_env = (\<lambda>_ _. None)"
    "co_Service toy_coordinator = ''Convo''"
    by (simp_all add: toy_env_def toy_coordinator_def)
  obtain cA' where jA: "joins toy_env toy_enc ?hops ?ch 7 ?out 0 meet_box (meet_handler 1) meet_client toy_info [?m 1] cA'"
    using meet_client_joins [of 0 ?out 1] by auto
  obtain cB' where jB: "joins toy_env toy_enc ?hops ?ch 7 ?out 1 meet_box (meet_handler 2) meet_client toy_info [?m 2] cB'"
    using meet_client_joins [of 1 ?out 2] by auto
  have ready: "ready_hops toy_env ?net (ConvoService meet_env) (co_Service toy_coordinator) 7 ?ch 0 ?hops"
    by (simp add: E meet_server_def toy_server_def ready_round_def meet_round_def new_round_state_def)
      (simp add: toy_nacl_def ConvoService_def)
  have noise: "noise meet_round = []" by (simp add: meet_round_def new_round_state_def)
  have batch: "concat (map ob_onions ?out) = ?os" "slot ?out 0 0 = 0" "slot ?out 1 0 = 1" by (simp_all add: slot_def)
  have surv: "survives toy_env 7 ?hops ?os 0" "survives toy_env 7 ?hops ?os 1"
    by (simp_all add: E is_dup_def meet_hop meet_tail)
  have b2: "chain_batch toy_env 7 ?hops ?os = [meet_msg 1, meet_msg 2]" by (simp add: meet_kept noise)
  have mm: "ddm_Marshal (?m b) = meet_msg b" for b
    by (subst ddm_Marshal_append) (simp_all add: meet_msg_def convo_sizes)
  have env: "spans_ok (Spans toy_env)" "box_roundtrip (Nacl toy_env)" "box_length (Nacl toy_env)"
    "shuffle_ok (NewShuffler toy_env)" "\<forall>s n. Conns toy_env s n = None"
    using toy_nacl_ok unit_spans_ok toy_shuffle_ok by (simp_all add: E)
  have rest: "?hops \<noteq> []" "length ?hops \<le> 1" "length (concat (map ob_onions ?out)) + hops_size ?hops < 2 ^ 32"
    "?net (fst (hd ?hops)) = Some meet_server" "toy_ctx = Some (TLSInfo [Ed25519Key (CoordinatorKey meet_server)])"
    by (simp_all add: hops_size_def noise meet_server_def toy_server_def toy_ctx_def)
  have "\<exists>net' co' repA repB hA hB bodiesA bodiesB.
    mixOnions toy_env (closeRound 1 toy_env) toy_ctx (?ch ! 0) 7 ?out ?net toy_coordinator = (net', Ok co') \<and>
    (ToConn (ob_sender (?out ! 0)), MReply repA) \<in> set (co_outbox co') \<and>
    (ToConn (ob_sender (?out ! 1)), MReply repB) \<in> set (co_outbox co') \<and>
    openReplyOnion meet_box (meet_handler 1) repA cA' = obind (hd_Replies (meet_handler 1) 7 bodiesA hA)
      (\<lambda>h'. Ok (delete_round 7 (cA'\<lparr>cl_handler := h'\<rparr>))) \<and>
    openReplyOnion meet_box (meet_handler 2) repB cB' = obind (hd_Replies (meet_handler 2) 7 bodiesB hB)
      (\<lambda>h'. Ok (delete_round 7 (cB'\<lparr>cl_handler := h'\<rparr>))) \<and>
    length bodiesA = length [?m 1] \<and> bodiesA ! 0 = Some (EncryptedMessage ([?m 2] ! 0)) \<and>
    length bodiesB = length [?m 2] \<and> bodiesB ! 0 = Some (EncryptedMessage ([?m 1] ! 0))"
    by (rule clients_exchange [OF env ready rest jA _ _ jB])
      (simp_all only: batch surv b2 mm nth_Cons_0, simp_all add: meet_msg_def convo_sizes)
  then show ?thesis by (simp only: nth_Cons_0 nth_Cons_Suc One_nat_def onion_bundle.simps dead_drop_message.simps) blast
qed

end
